(* ===== verification/Wacp_Prelude.thy ===== *)
theory Wacp_Prelude
  imports Main "HOL-Library.Word" "HOL-Library.Sublist"
begin

text \<open>
  Shared vocabulary of the development: machine integers, the \<open>Result\<close> type, the model
  of \<open>HashMap\<close>, decimal rendering of counters (the \<open>format!("pr-{}", n)\<close> of the
  sources), and the lemmas about them that the components use.

  Conventions.
  \<^item> \<open>u8 .. u64\<close> are words, so \<open>+\<close> wraps as it does in a release build of the
    crates (the workspace does not set \<open>overflow-checks\<close>). \<open>usize\<close> lengths of
    in-memory collections are \<open>nat\<close>.
  \<^item> The identifier newtypes (\<open>WorkspaceId\<close>, \<open>TaskId\<close>, ...) wrap one \<open>String\<close>
    and are \<open>string\<close> here; \<open>to_string\<close> and \<open>as_ref\<close> are the identity.
  \<^item> A \<open>HashMap\<close> is an association list with distinct keys (\<open>hmap_ok\<close>); the order of
    the list stands for the iteration order, which the standard library leaves open. A
    theorem about a state holds for every order of its maps, since the list is arbitrary.
  \<^item> A \<open>HashSet\<close> that is only updated and tested is a HOL set.
\<close>

text \<open>
  The collection \<open>keeps\<close> gathers, component by component, the facts that an operation keeps
  the component's invariant.
\<close>

named_theorems keeps \<open>an operation keeps the invariant of its component\<close>

section \<open>Machine integers and results\<close>

type_synonym u8 = "8 word"
type_synonym u16 = "16 word"
type_synonym u32 = "32 word"
type_synonym u64 = "64 word"
type_synonym bytes = "u8 list"

datatype ('a, 'e) result = Ok 'a | Err 'e

definition is_ok :: "('a, 'e) result \<Rightarrow> bool" where
  "is_ok r = (case r of Ok _ \<Rightarrow> True | Err _ \<Rightarrow> False)"

lemma is_ok_simps [simp]: "is_ok (Ok a)" "\<not> is_ok (Err e)"
  by (simp_all add: is_ok_def)

text \<open>\<open>Option::unwrap_or\<close>.\<close>

definition or_else :: "'a option \<Rightarrow> 'a \<Rightarrow> 'a" where
  "or_else x d = (case x of Some v \<Rightarrow> v | None \<Rightarrow> d)"

text \<open>Standard-library arithmetic of unsigned integers.\<close>

definition saturating_add :: "'a::len word \<Rightarrow> 'a word \<Rightarrow> 'a word" where
  "saturating_add a b = (if unat a + unat b < 2 ^ LENGTH('a) then a + b else - 1)"

definition saturating_sub :: "'a::len word \<Rightarrow> 'a word \<Rightarrow> 'a word" where
  "saturating_sub a b = (if b \<le> a then a - b else 0)"

lemma unat_saturating_sub: "unat (saturating_sub a b) = unat a - unat b"
  by (auto simp: saturating_sub_def unat_sub word_le_nat_alt)

lemma unat_bound: "unat (w :: 'a::len word) < 2 ^ LENGTH('a)"
  by (rule unsigned_less)

lemma unat_plus_one: "(a :: 'a::len word) \<noteq> - 1 \<Longrightarrow> unat (a + 1) = Suc (unat a)"
  by (metis add.commute max_word_wrap unatSuc)

lemma saturating_add_one:
  fixes a :: "'a::len word"
  assumes "a \<noteq> - 1"
  shows "saturating_add a 1 = a + 1" and "a < saturating_add a 1"
proof -
  have u: "unat (a + 1) = Suc (unat a)" using assms by (rule unat_plus_one)
  have one: "unat (1 :: 'a word) = 1" by simp
  have "unat a + unat (1 :: 'a word) < 2 ^ LENGTH('a)"
    using u one by (metis Suc_eq_plus1 unsigned_less)
  then show "saturating_add a 1 = a + 1" by (simp add: saturating_add_def)
  with u show "a < saturating_add a 1" by (simp add: word_less_nat_alt)
qed

lemma saturating_add_max [simp]: "saturating_add (- 1) (1 :: 'a::len word) = - 1"
proof -
  have "Suc (unat (- 1 :: 'a word)) = 2 ^ LENGTH('a)"
    by (simp add: unsigned_minus_1_eq_mask mask_eq_exp_minus_1)
  then show ?thesis by (simp add: saturating_add_def)
qed

lemma unat_of_nat_u64: "i < 2 ^ 64 \<Longrightarrow> unat (of_nat i :: u64) = i"
  by (simp add: unsigned_of_nat take_bit_nat_eq_self)

section \<open>Decimal rendering of counters\<close>

text \<open>\<open>format!("{}", n)\<close> on an unsigned integer: decimal digits, no leading zero.\<close>

definition digit_char :: "nat \<Rightarrow> char" where
  "digit_char d = char_of (48 + d)"

fun show_nat :: "nat \<Rightarrow> string" where
  "show_nat n = (if n < 10 then [digit_char n] else show_nat (n div 10) @ [digit_char (n mod 10)])"

declare show_nat.simps [simp del]

definition read_nat :: "string \<Rightarrow> nat" where
  "read_nat s = foldl (\<lambda>acc c. 10 * acc + (of_char c - 48)) 0 s"

lemma of_char_digit: "d < 10 \<Longrightarrow> of_char (digit_char d) - 48 = d"
  by (simp add: digit_char_def of_char_of)

lemma read_show_nat: "read_nat (show_nat n) = n"
proof (induction n rule: show_nat.induct)
  case (1 n)
  show ?case
  proof (cases "n < 10")
    case True
    then show ?thesis
      by (simp add: show_nat.simps [of n] read_nat_def of_char_digit)
  next
    case False
    with 1 have "read_nat (show_nat (n div 10)) = n div 10" by simp
    with False show ?thesis
      by (simp add: show_nat.simps [of n] read_nat_def of_char_digit)
  qed
qed

lemma show_nat_inject [simp]: "show_nat m = show_nat n \<longleftrightarrow> m = n"
  by (metis read_show_nat)

text \<open>\<open>format!("{:06}", n)\<close>.\<close>

definition pad6 :: "nat \<Rightarrow> string" where
  "pad6 n = replicate (6 - length (show_nat n)) (CHR ''0'') @ show_nat n"

text \<open>
  Identifiers of the form \<open>format!("pr-{}", self.next_id)\<close>. The counter is a \<open>u64\<close>
  that every operation increments after use.
\<close>

definition mk_id :: "string \<Rightarrow> u64 \<Rightarrow> string" where
  "mk_id pre n = pre @ show_nat (unat n)"

lemma mk_id_inject [simp]: "mk_id p m = mk_id p n \<longleftrightarrow> m = n"
  by (simp add: mk_id_def word_unat_eq_iff)

text \<open>\<open>str::parse\<close> to an unsigned integer: an optional plus sign, then at least one digit, within range.\<close>

definition is_digit :: "char \<Rightarrow> bool" where
  "is_digit c \<longleftrightarrow> 48 \<le> (of_char c :: nat) \<and> (of_char c :: nat) \<le> 57"

definition parse_below :: "nat \<Rightarrow> string \<Rightarrow> nat option" where
  "parse_below bound s =
     (let ds = (case s of [] \<Rightarrow> [] | c # r \<Rightarrow> if c = CHR ''+'' then r else s)
      in if ds = [] \<or> \<not> list_all is_digit ds \<or> bound \<le> read_nat ds then None else Some (read_nat ds))"

definition parse_u64 :: "string \<Rightarrow> u64 option" where
  "parse_u64 s = map_option of_nat (parse_below (2 ^ 64) s)"

lemma is_digit_char: "d < 10 \<Longrightarrow> is_digit (digit_char d)"
  by (simp add: is_digit_def digit_char_def of_char_of)

lemma show_nat_digits: "list_all is_digit (show_nat n)"
proof (induction n rule: show_nat.induct)
  case (1 n)
  then show ?case by (subst show_nat.simps) (simp add: is_digit_char)
qed

lemma show_nat_not_Nil [simp]: "show_nat n \<noteq> []"
  by (subst show_nat.simps) simp

lemma parse_digits:
  assumes "list_all is_digit ds" "ds \<noteq> []"
  shows "parse_below bound ds = (if read_nat ds < bound then Some (read_nat ds) else None)"
proof -
  have "\<not> is_digit (CHR ''+'')" by (simp add: is_digit_def)
  then have "(case ds of [] \<Rightarrow> [] | c # r \<Rightarrow> if c = CHR ''+'' then r else ds) = ds"
    using assms by (auto split: list.splits)
  then show ?thesis using assms by (simp add: parse_below_def Let_def)
qed

text \<open>Hexadecimal digits, and a byte as \<open>format!("{b:02x}")\<close>.\<close>

definition hex_char :: "nat \<Rightarrow> char" where
  "hex_char d = char_of (if d < 10 then 48 + d else 87 + d)"

definition hex_byte :: "u8 \<Rightarrow> string" where
  "hex_byte b = [hex_char (unat b div 16), hex_char (unat b mod 16)]"

lemma hex_char_inject: "d < 16 \<Longrightarrow> e < 16 \<Longrightarrow> hex_char d = hex_char e \<Longrightarrow> d = e"
  by (drule arg_cong [where f = "of_char :: char \<Rightarrow> nat"]) (auto simp: hex_char_def of_char_of split: if_splits)

lemma hex_byte_inject [simp]: "hex_byte a = hex_byte b \<longleftrightarrow> a = b"
proof
  assume eq: "hex_byte a = hex_byte b"
  have "unat a < 256" "unat b < 256" using unat_bound [of a] unat_bound [of b] by simp_all
  with eq have "unat a div 16 = unat b div 16" "unat a mod 16 = unat b mod 16"
    by (auto simp: hex_byte_def intro!: hex_char_inject)
  then have "unat a = unat b" by (metis div_mult_mod_eq)
  then show "a = b" by (simp add: word_unat_eq_iff)
qed simp

section \<open>Hash maps\<close>

type_synonym ('k, 'v) hmap = "('k \<times> 'v) list"

primrec hget :: "('k, 'v) hmap \<Rightarrow> 'k \<Rightarrow> 'v option" where
  "hget [] k = None"
| "hget (p # m) k = (if fst p = k then Some (snd p) else hget m k)"

primrec hput :: "'k \<Rightarrow> 'v \<Rightarrow> ('k, 'v) hmap \<Rightarrow> ('k, 'v) hmap" where
  "hput k v [] = [(k, v)]"
| "hput k v (p # m) = (if fst p = k then (k, v) # m else p # hput k v m)"

definition hdel :: "'k \<Rightarrow> ('k, 'v) hmap \<Rightarrow> ('k, 'v) hmap" where
  "hdel k m = filter (\<lambda>p. fst p \<noteq> k) m"

definition hvals :: "('k, 'v) hmap \<Rightarrow> 'v list" where
  "hvals m = map snd m"

definition hmap_ok :: "('k, 'v) hmap \<Rightarrow> bool" where
  "hmap_ok m = distinct (map fst m)"

definition hhas :: "('k, 'v) hmap \<Rightarrow> 'k \<Rightarrow> bool" where
  "hhas m k = (hget m k \<noteq> None)"

text \<open>\<open>get_mut\<close> followed by an in-place change; \<open>entry(k).or_default().push(x)\<close>; the
  default-empty read \<open>get(k).cloned().unwrap_or_default()\<close>.\<close>

definition hupd :: "'k \<Rightarrow> ('v \<Rightarrow> 'v) \<Rightarrow> ('k, 'v) hmap \<Rightarrow> ('k, 'v) hmap" where
  "hupd k f m = (case hget m k of None \<Rightarrow> m | Some v \<Rightarrow> hput k (f v) m)"

definition hlist :: "('k, 'v list) hmap \<Rightarrow> 'k \<Rightarrow> 'v list" where
  "hlist m k = (case hget m k of None \<Rightarrow> [] | Some vs \<Rightarrow> vs)"

definition hpush :: "'k \<Rightarrow> 'v \<Rightarrow> ('k, 'v list) hmap \<Rightarrow> ('k, 'v list) hmap" where
  "hpush k x m = hput k (hlist m k @ [x]) m"

text \<open>\<open>HashMap::extend\<close>: the entries of the second map are inserted one by one.\<close>

definition hextend :: "('k, 'v) hmap \<Rightarrow> ('k, 'v) hmap \<Rightarrow> ('k, 'v) hmap" where
  "hextend m n = foldl (\<lambda>acc p. hput (fst p) (snd p) acc) m n"

subsection \<open>The map laws\<close>

lemma hget_hput [simp]: "hget (hput k v m) k' = (if k' = k then Some v else hget m k')"
  by (induction m) auto

lemma hget_hdel [simp]: "hget (hdel k m) k' = (if k' = k then None else hget m k')"
  unfolding hdel_def by (induction m) auto

lemma hget_hupd [simp]:
  "hget (hupd k f m) k' = (if k' = k then map_option f (hget m k) else hget m k')"
  by (auto simp: hupd_def split: option.splits)

lemma map_option_hupd:
  assumes "\<And>v. f (g v) = f v"
  shows "map_option f (hget (hupd k g m) k') = map_option f (hget m k')"
  using assms by (auto simp: option.map_comp o_def)

lemma map_option_eq:
  "map_option f a = map_option f b
   \<longleftrightarrow> a = None \<and> b = None \<or> (\<exists>x y. a = Some x \<and> b = Some y \<and> f x = f y)"
  by (cases a; cases b) auto

lemma hlist_hpush [simp]:
  "hlist (hpush k x m) k' = (if k' = k then hlist m k @ [x] else hlist m k')"
  by (simp add: hlist_def hpush_def)

lemma hlist_Nil [simp]: "hlist [] k = []"
  by (simp add: hlist_def)

lemma hlist_hput [simp]: "hlist (hput k v m) k' = (if k' = k then v else hlist m k')"
  by (simp add: hlist_def)

lemma hlist_hdel [simp]: "hlist (hdel k m) k' = (if k' = k then [] else hlist m k')"
  by (simp add: hlist_def)

lemma hlist_hupd_filter [simp]:
  "hlist (hupd k (filter P) m) k' = (if k' = k then filter P (hlist m k) else hlist m k')"
  by (auto simp: hlist_def split: option.splits)

lemma hhas_simps [simp]:
  "\<not> hhas [] k"
  "hhas (hput k v m) k' \<longleftrightarrow> k' = k \<or> hhas m k'"
  "hhas (hupd k f m) k' \<longleftrightarrow> hhas m k'"
  "hhas (hdel k m) k' \<longleftrightarrow> k' \<noteq> k \<and> hhas m k'"
  by (auto simp: hhas_def)

lemma keys_hput: "fst ` set (hput k v m) = insert k (fst ` set m)"
  by (induction m) auto

lemma hmap_ok_Nil [simp]: "hmap_ok []"
  by (simp add: hmap_ok_def)

lemma hmap_ok_hput [simp]: "hmap_ok m \<Longrightarrow> hmap_ok (hput k v m)"
proof (induction m)
  case (Cons p m)
  have "fst p \<notin> fst ` set (hput k v m)" if "fst p \<noteq> k"
    using Cons.prems that by (simp add: keys_hput hmap_ok_def)
  with Cons show ?case by (auto simp: hmap_ok_def)
qed (simp add: hmap_ok_def)

lemma hmap_ok_hput_known: "hget m k = Some v \<Longrightarrow> hmap_ok (hput k v' m) = hmap_ok m"
proof -
  assume "hget m k = Some v"
  then have "map fst (hput k v' m) = map fst m" by (induction m) (auto split: if_splits)
  then show ?thesis by (simp add: hmap_ok_def)
qed

lemma hmap_ok_hdel [simp]: "hmap_ok m \<Longrightarrow> hmap_ok (hdel k m)"
  by (simp add: hmap_ok_def hdel_def distinct_map_filter)

lemma hmap_ok_hupd [simp]: "hmap_ok m \<Longrightarrow> hmap_ok (hupd k f m)"
  by (simp add: hupd_def split: option.splits)

lemma hmap_ok_hpush [simp]: "hmap_ok m \<Longrightarrow> hmap_ok (hpush k x m)"
  by (simp add: hpush_def)

lemma hget_in_set: "hget m k = Some v \<Longrightarrow> (k, v) \<in> set m"
  by (induction m) (auto split: if_splits)

lemma hget_None_iff: "hget m k = None \<longleftrightarrow> k \<notin> fst ` set m"
  by (induction m) auto

lemma hget_iff_in_set: "hmap_ok m \<Longrightarrow> hget m k = Some v \<longleftrightarrow> (k, v) \<in> set m"
proof (induction m)
  case (Cons p m)
  then show ?case by (cases p) (auto simp: hmap_ok_def rev_image_eqI)
qed simp

lemma hvals_iff: "hmap_ok m \<Longrightarrow> v \<in> set (hvals m) \<longleftrightarrow> (\<exists>k. hget m k = Some v)"
  unfolding hget_iff_in_set hvals_def by (auto intro: rev_image_eqI)

lemma hput_known: "hget m k = Some v \<Longrightarrow> hput k v m = m"
  by (induction m) (auto split: if_splits)

lemma hput_hput: "hput k v (hput k v' m) = hput k v m"
  by (induction m) auto

lemma map_fst_hput: "hhas m k \<Longrightarrow> map fst (hput k v m) = map fst m"
  by (induction m) (auto simp: hhas_def split: if_splits)

lemma hput_new: "hget m k = None \<Longrightarrow> hput k v m = m @ [(k, v)]"
  by (induction m) (auto split: if_splits)

lemma hget_append: "hget (m @ n) k = (case hget m k of None \<Rightarrow> hget n k | Some v \<Rightarrow> Some v)"
  by (induction m) auto

lemma hmap_ok_filter: "hmap_ok m \<Longrightarrow> hmap_ok (filter P m)"
  by (auto simp: hmap_ok_def distinct_map intro: inj_on_subset)

lemma hget_filter:
  "hmap_ok m \<Longrightarrow> hget (filter (\<lambda>(_, v). P v) m) k = (case hget m k of Some v \<Rightarrow> if P v then Some v else None | None \<Rightarrow> None)"
proof (induction m)
  case (Cons p m)
  have "hget (filter (\<lambda>(_, v). P v) m) (fst p) = None"
    using Cons.prems by (auto simp: hget_None_iff hmap_ok_def)
  with Cons show ?case by (cases p) (auto simp: hmap_ok_def split: option.split)
qed simp

lemma hget_foldl_hput:
  "hmap_ok n \<Longrightarrow>
   hget (foldl (\<lambda>acc p. hput (fst p) (snd p) acc) m n) k
     = (case hget n k of None \<Rightarrow> hget m k | Some v \<Rightarrow> Some v)"
proof (induction n arbitrary: m)
  case (Cons p n)
  have "hget n k = None" if "fst p = k"
    using Cons.prems that by (auto simp: hget_None_iff hmap_ok_def)
  with Cons show ?case
    by (auto simp: hmap_ok_def split: option.splits)
qed simp

lemma hget_hextend:
  "hmap_ok n \<Longrightarrow> hget (hextend m n) k = (case hget n k of None \<Rightarrow> hget m k | Some v \<Rightarrow> Some v)"
  unfolding hextend_def by (rule hget_foldl_hput)

text \<open>Changing one entry in place changes the number of values with a property by the
  difference at that entry.\<close>

lemma length_filter_hvals_hput:
  assumes "hget m k = Some v"
  shows "length (filter P (hvals (hput k v' m))) + (if P v then 1 else 0)
       = length (filter P (hvals m)) + (if P v' then 1 else (0::nat))"
  using assms by (induction m) (auto simp: hvals_def split: if_splits)

lemma hvals_hput_new: "hget m k = None \<Longrightarrow> hvals (hput k v m) = hvals m @ [v]"
  by (simp add: hput_new hvals_def)

section \<open>Lists\<close>

text \<open>\<open>Vec::retain\<close> is \<open>filter\<close>; \<open>iter().position(p)\<close> is the index of the first hit;
  \<open>iter().rev().find(p)\<close> the last element with the property.\<close>

primrec position :: "('a \<Rightarrow> bool) \<Rightarrow> 'a list \<Rightarrow> nat option" where
  "position P [] = None"
| "position P (x # xs) = (if P x then Some 0 else map_option Suc (position P xs))"

definition rfind :: "('a \<Rightarrow> bool) \<Rightarrow> 'a list \<Rightarrow> 'a option" where
  "rfind P xs = find P (rev xs)"

lemma position_None: "position P xs = None \<longleftrightarrow> (\<forall>x \<in> set xs. \<not> P x)"
  by (induction xs) auto

lemma position_Some:
  "position P xs = Some i \<Longrightarrow> i < length xs \<and> P (xs ! i) \<and> (\<forall>x \<in> set (take i xs). \<not> P x)"
proof (induction xs arbitrary: i)
  case (Cons x xs)
  then show ?case by (cases i) (auto split: if_splits)
qed simp

lemma find_Some: "find P xs = Some x \<Longrightarrow> x \<in> set xs \<and> P x"
  by (auto simp: find_Some_iff in_set_conv_nth)

lemma rfind_None: "rfind P xs = None \<longleftrightarrow> (\<forall>x \<in> set xs. \<not> P x)"
  by (auto simp: rfind_def find_None_iff)

lemma rfind_Some: "rfind P xs = Some x \<Longrightarrow> x \<in> set xs \<and> P x"
  unfolding rfind_def using find_Some_iff [of P "rev xs" x] nth_mem [of _ "rev xs"] by auto

section \<open>Secondary indices\<close>

text \<open>
  Several components keep, beside a table, an index from the value of a field to the keys
  whose entry has that value. \<open>mirrors\<close> says that the index is exact and lists each key
  once; the three laws cover the ways the sources update a table and its index together.
\<close>

definition mirrors :: "('f, 'k list) hmap \<Rightarrow> ('k, 'v) hmap \<Rightarrow> ('v \<Rightarrow> 'f) \<Rightarrow> bool" where
  "mirrors idx m f \<longleftrightarrow>
     (\<forall>x. distinct (hlist idx x)
        \<and> (\<forall>k. k \<in> set (hlist idx x) \<longleftrightarrow> (\<exists>v. hget m k = Some v \<and> f v = x)))"

lemma mirrorsD:
  assumes "mirrors idx m f"
  shows "distinct (hlist idx x)"
    and "k \<in> set (hlist idx x) \<longleftrightarrow> (\<exists>v. hget m k = Some v \<and> f v = x)"
  using assms by (auto simp: mirrors_def)

lemma mirrors_Nil [simp]: "mirrors [] [] f"
  by (simp add: mirrors_def)

lemma mirrors_insert:
  assumes "mirrors idx m f" "hget m k = None" "f v = x"
  shows "mirrors (hpush x k idx) (hput k v m) f"
  using assms unfolding mirrors_def by auto

lemma mirrors_move:
  assumes "mirrors idx m f" "hget m k = Some v" "f v = x" "f v' = x'"
  shows "mirrors (hpush x' k (hupd x (filter (\<lambda>y. y \<noteq> k)) idx)) (hput k v' m) f"
  using assms unfolding mirrors_def by auto

lemma mirrors_cong:
  assumes "mirrors idx m f" "\<And>k. map_option f (hget m' k) = map_option f (hget m k)"
  shows "mirrors idx m' f"
proof -
  have "(\<exists>v. hget m' k = Some v \<and> f v = x) \<longleftrightarrow> (\<exists>v. hget m k = Some v \<and> f v = x)" for k x
    using assms(2) [of k] by (auto simp: map_option_eq)
  with assms(1) show ?thesis by (simp add: mirrors_def)
qed

lemma mirrors_hupd:
  assumes "mirrors idx m f" "\<And>v. f (g v) = f v"
  shows "mirrors idx (hupd k g m) f"
  by (rule mirrors_cong [OF assms(1)]) (rule map_option_hupd, rule assms(2))

section \<open>Counters that name things\<close>

text \<open>
  The interface of an identifier source: a rendering of the counter that is injective. As long
  as every identifier in use was rendered from a smaller counter value, the next one is fresh,
  and advancing the counter keeps this until it wraps.
\<close>

definition issued :: "(u64 \<Rightarrow> string) \<Rightarrow> u64 \<Rightarrow> string \<Rightarrow> bool" where
  "issued mk next k \<longleftrightarrow> (\<exists>j < next. k = mk j)"

lemma less_succ: "next \<noteq> - 1 \<Longrightarrow> (next :: u64) < next + 1"
  using unat_plus_one [of "next"] by (simp add: word_less_nat_alt)

text \<open>The counter can be advanced \<open>n\<close> more times before it wraps.\<close>

definition room :: "u64 \<Rightarrow> nat \<Rightarrow> bool" where
  "room next n \<longleftrightarrow> unat next + n < 2 ^ 64"

lemma room_Suc:
  assumes "room next (Suc n)"
  shows "next \<noteq> - 1" and "room next n" and "room (next + 1) n"
proof -
  show nx: "next \<noteq> - 1"
  proof
    assume "next = - 1"
    with assms show False by (simp add: room_def unsigned_minus_1_eq_mask mask_eq_exp_minus_1)
  qed
  show "room next n" "room (next + 1) n"
    using assms unat_plus_one [OF nx] by (simp_all add: room_def)
qed

locale id_source =
  fixes mk :: "u64 \<Rightarrow> string"
  assumes mk_inject: "mk m = mk n \<Longrightarrow> m = n"
begin

lemma fresh: "\<not> issued mk next (mk next)"
  unfolding issued_def using mk_inject by blast

lemma fresh_key:
  assumes "\<And>k v. hget m k = Some v \<Longrightarrow> issued mk next k"
  shows "hget m (mk next) = None"
  using assms fresh by (cases "hget m (mk next)") blast+

lemma issued_succ:
  assumes "next \<noteq> - 1"
  shows "issued mk (next + 1) (mk next)" and "issued mk next k \<Longrightarrow> issued mk (next + 1) k"
  using less_succ [OF assms] by (auto simp: issued_def intro: order_less_trans)

end

section \<open>Validation loops and strings\<close>

text \<open>
  A loop that returns at the first offending element is the first error of a list of checks; \<open>first_dup\<close> is
  the loop over a set of names already seen; \<open>contains_str\<close> is \<open>str::contains\<close>.
\<close>

fun first_error :: "'e option list \<Rightarrow> 'e option" where
  "first_error [] = None"
| "first_error (None # es) = first_error es"
| "first_error (Some e # es) = Some e"

fun first_dup :: "string list \<Rightarrow> string set \<Rightarrow> string option" where
  "first_dup [] seen = None"
| "first_dup (x # xs) seen = (if x \<in> seen then Some x else first_dup xs (insert x seen))"

definition contains_str :: "string \<Rightarrow> string \<Rightarrow> bool" where
  "contains_str s sub = (\<exists>r \<in> set (suffixes s). prefix sub r)"

lemma first_error_None: "first_error es = None \<longleftrightarrow> set es \<subseteq> {None}"
  by (induction es rule: first_error.induct) auto

lemma first_error_map_None: "first_error (map f xs) = None \<longleftrightarrow> (\<forall>x \<in> set xs. f x = None)"
  by (auto simp: first_error_None)

lemma first_dup_None: "first_dup xs seen = None \<longleftrightarrow> distinct xs \<and> set xs \<inter> seen = {}"
  by (induction xs seen rule: first_dup.induct) auto

lemma contains_str_sublist: "contains_str s sub \<longleftrightarrow> sublist sub s"
  by (auto simp: contains_str_def sublist_altdef' sublist_altdef)

text \<open>
  \<open>str::split\<close> on one character, and \<open>&s[..n]\<close>, which panics unless \<open>n\<close> is a character boundary: a byte of
  the form \<open>10xxxxxx\<close> continues a character.
\<close>

fun split_on :: "char \<Rightarrow> string \<Rightarrow> string list" where
  "split_on c [] = [[]]"
| "split_on c (x # xs) = (if x = c then [] # split_on c xs
     else (case split_on c xs of [] \<Rightarrow> [[x]] | p # ps \<Rightarrow> (x # p) # ps))"

definition is_continuation :: "char \<Rightarrow> bool" where
  "is_continuation c \<longleftrightarrow> 128 \<le> (of_char c :: nat) \<and> (of_char c :: nat) < 192"

definition str_take :: "nat \<Rightarrow> string \<Rightarrow> string option" where
  "str_take n s = (if n = length s \<or> (n < length s \<and> \<not> is_continuation (s ! n)) then Some (take n s) else None)"

text \<open>\<open>str::strip_prefix\<close> and \<open>str::strip_suffix\<close>.\<close>

definition strip_prefix :: "string \<Rightarrow> string \<Rightarrow> string option" where
  "strip_prefix p s = (if take (length p) s = p then Some (drop (length p) s) else None)"

definition strip_suffix :: "string \<Rightarrow> string \<Rightarrow> string option" where
  "strip_suffix p s =
     (if length p \<le> length s \<and> drop (length s - length p) s = p then Some (take (length s - length p) s) else None)"

text \<open>A log in order of time, pruned from the front, is filtered.\<close>

lemma dropWhile_sorted:
  fixes f :: "'a \<Rightarrow> 'b::linorder"
  shows "sorted (map f xs) \<Longrightarrow> dropWhile (\<lambda>x. f x < c) xs = filter (\<lambda>x. c \<le> f x) xs"
proof (induction xs)
  case (Cons x xs)
  have "filter (\<lambda>x. c \<le> f x) xs = xs" if "c \<le> f x"
    using Cons.prems that by (auto simp: filter_id_conv)
  with Cons show ?case by auto
qed simp

text \<open>Counting in a list updated at one position.\<close>

definition count_of :: "('a \<Rightarrow> bool) \<Rightarrow> 'a list \<Rightarrow> nat" where
  "count_of P xs = length (filter P xs)"

lemma count_of_simps [simp]:
  "count_of P [] = 0" "count_of P (x # xs) = (if P x then Suc (count_of P xs) else count_of P xs)"
  "count_of P (xs @ ys) = count_of P xs + count_of P ys"
  by (simp_all add: count_of_def)

lemma count_of_le: "count_of P xs \<le> length xs"
  by (simp add: count_of_def)

lemma count_of_update:
  "i < length xs \<Longrightarrow>
     count_of P (xs[i := y]) + (if P (xs ! i) then 1 else 0) = count_of P xs + (if P y then 1 else 0)"
proof (induction xs arbitrary: i)
  case (Cons x xs)
  then show ?case by (cases i) auto
qed simp

end
