(* ===== verification/Wacp_Float.thy ===== *)
theory Wacp_Float
  imports Wacp_Prelude
begin

text \<open>
  The floating-point arithmetic the sources use: products and sums of \<open>f64\<close> values, the cast from
  \<open>u64\<close> (round to nearest, ties to even), the saturating cast back, and comparison. A finite value is
  a mantissa and a binary exponent; results are rounded to 53 bits. Every operand in the sources
  is a 64-bit integer or an \<open>f32\<close> constant or configuration value, so exponents stay far inside
  the range of \<open>f64\<close> and neither overflow to infinity nor subnormal results occur.
\<close>

datatype flt = FNaN | FInf bool | FFin int int

fun bitlen :: "nat \<Rightarrow> nat" where
  "bitlen n = (if n = 0 then 0 else Suc (bitlen (n div 2)))"

declare bitlen.simps [simp del]

text \<open>Round \<open>m * 2^e\<close> to 53 significant bits.\<close>

definition rnd :: "int \<Rightarrow> int \<Rightarrow> flt" where
  "rnd m e =
     (let a = nat \<bar>m\<bar>; k = bitlen a - 53 in
      if k = 0 then FFin m e
      else let q = a div 2 ^ k; r = a mod 2 ^ k;
               q' = (if r > 2 ^ (k - 1) \<or> r = 2 ^ (k - 1) \<and> odd q then q + 1 else q)
           in FFin (sgn m * int q') (e + int k))"

definition f64_of_u64 :: "u64 \<Rightarrow> flt" where
  "f64_of_u64 w = rnd (int (unat w)) 0"

fun f64_neg :: "flt \<Rightarrow> bool" where
  "f64_neg FNaN = False"
| "f64_neg (FInf b) = b"
| "f64_neg (FFin m e) = (m < 0)"

fun f64_zero :: "flt \<Rightarrow> bool" where
  "f64_zero (FFin m e) = (m = 0)"
| "f64_zero _ = False"

fun f64_mul :: "flt \<Rightarrow> flt \<Rightarrow> flt" where
  "f64_mul (FFin m e) (FFin n f) = rnd (m * n) (e + f)"
| "f64_mul FNaN y = FNaN"
| "f64_mul x FNaN = FNaN"
| "f64_mul x y = (if f64_zero x \<or> f64_zero y then FNaN else FInf (f64_neg x \<noteq> f64_neg y))"

fun f64_add :: "flt \<Rightarrow> flt \<Rightarrow> flt" where
  "f64_add (FFin m e) (FFin n f) =
     rnd (m * 2 ^ nat (e - min e f) + n * 2 ^ nat (f - min e f)) (min e f)"
| "f64_add FNaN y = FNaN"
| "f64_add x FNaN = FNaN"
| "f64_add (FInf a) (FInf b) = (if a = b then FInf a else FNaN)"
| "f64_add (FInf a) y = FInf a"
| "f64_add x (FInf b) = FInf b"

text \<open>\<open>x >= y\<close>; every comparison with a NaN is false.\<close>

fun f64_ge :: "flt \<Rightarrow> flt \<Rightarrow> bool" where
  "f64_ge (FFin m e) (FFin n f) =
     (m * 2 ^ nat (e - min e f) \<ge> n * 2 ^ nat (f - min e f))"
| "f64_ge FNaN y = False"
| "f64_ge x FNaN = False"
| "f64_ge (FInf a) (FInf b) = (\<not> a \<or> b)"
| "f64_ge (FInf a) y = (\<not> a)"
| "f64_ge x (FInf b) = b"

text \<open>\<open>x as u64\<close>: truncation towards zero, saturating at both ends, NaN to zero.\<close>

fun u64_of_f64 :: "flt \<Rightarrow> u64" where
  "u64_of_f64 FNaN = 0"
| "u64_of_f64 (FInf b) = (if b then 0 else - 1)"
| "u64_of_f64 (FFin m e) =
     (let v = (if m < 0 then 0 else if e \<ge> 0 then m * 2 ^ nat e else m div 2 ^ nat (- e))
      in if v \<ge> 2 ^ 64 then - 1 else word_of_int v)"

text \<open>The \<open>f32\<close> constants of the sources: \<open>1.0\<close>, \<open>0.8\<close> and \<open>0.2\<close>, the latter two as the nearest
  24-bit values.\<close>

definition f_one :: flt where "f_one = FFin 1 0"

definition f_0_8 :: flt where "f_0_8 = FFin 13421773 (- 24)"

definition f_0_2 :: flt where "f_0_2 = FFin 13421773 (- 26)"

end
