(* ===== verification/Wacp_Types.thy ===== *)
theory Wacp_Types
  imports Wacp_Float
begin

text \<open>
  The protocol's data types (crate \<open>wacp-types\<close>): enums as datatypes, structs as records.
  Constructors of different enums that share a name in the sources carry a prefix here
  (\<open>Ws\<close> workspace state, \<open>Ts\<close> task status, \<open>Es\<close> envelope state, \<open>Sig\<close> signal). Record
  fields carry the initials of their record. The \<open>show_*\<close> functions are the derived
  \<open>Debug\<close> renderings the sources put into error values and trail events.
\<close>

section \<open>Identifiers\<close>

type_synonym workspace_id = string
type_synonym envelope_id = string
type_synonym checkpoint_id = string
type_synonym task_id = string
type_synonym user_id = string
type_synonym gate_id = string

section \<open>Enumerations\<close>

datatype signal_type =
  SigReady | SigStarted | SigBlocked | SigCheckpoint | SigComplete | SigFailed
| SigIntegrate | SigAcknowledged | SigEscalation | SigSuspend | SigMigrate

datatype workspace_state =
  WsIdle | WsActive | WsBlocked | WsSuspended | WsMigrating
| WsIntegrating | WsConflicted | WsClosed | WsFailed

definition is_terminal :: "workspace_state \<Rightarrow> bool" where
  "is_terminal s = (case s of WsClosed \<Rightarrow> True | WsFailed \<Rightarrow> True | _ \<Rightarrow> False)"

lemma is_terminal_iff: "is_terminal s \<longleftrightarrow> s = WsClosed \<or> s = WsFailed"
  by (cases s) (simp_all add: is_terminal_def)

datatype envelope_state = EsCreated | EsValidated | EsDelivered | EsAcknowledged | EsRejected

datatype task_status =
  TsDraft | TsPending | TsAssigned | TsInProgress | TsCompleted | TsFailed
| TsIntegrated | TsCancelled

datatype checkpoint_status = Provisional | Final

datatype confidence = High | Medium | Low

datatype envelope_priority = Normal | Urgent | Blocking

datatype envelope_origin = Agent | Human

datatype base_role = Coordinator | Worker | Observer

datatype merge_strategy = Direct | Layered | Evaluated

datatype integration_mode = NormalMode | Salvage

datatype conflict_type =
  ContentOverlap | SemanticContradiction | DependencyViolation | ConstraintBreach

datatype resolution_strategy = CoordinatorResolve | Escalate | AgentRework

datatype port_right_type = Send | Receive | SendOnce

datatype gate_type =
  TaskApproval | WorkspaceCreate | EnvelopeDelivery | Integration
| ConflictResolutionGate | WorkspaceAbort | CheckpointApproval

datatype gate_decision = Approve | Reject | Modify

datatype originator = System | User user_id

section \<open>Structures\<close>

record envelope =
  e_id :: envelope_id
  e_from_workspace :: workspace_id
  e_to_workspace :: workspace_id
  e_envelope_type :: string
  e_payload :: bytes
  e_in_reply_to :: "envelope_id option"
  e_timestamp :: u64
  e_priority :: envelope_priority
  e_origin :: envelope_origin
  e_state :: envelope_state

record resource_usage =
  ru_tokens :: u64
  ru_wall_time_ms :: u64
  ru_storage_bytes :: u64
  ru_network_bytes :: u64
  ru_cost_micros :: u64

definition default_usage :: resource_usage where
  "default_usage = \<lparr>ru_tokens = 0, ru_wall_time_ms = 0, ru_storage_bytes = 0,
     ru_network_bytes = 0, ru_cost_micros = 0\<rparr>"

record resource_budget =
  rb_max_tokens :: "u64 option"
  rb_max_wall_time_ms :: "u64 option"
  rb_max_storage_bytes :: "u64 option"
  rb_max_network_bytes :: "u64 option"
  rb_max_cost_micros :: "u64 option"
  rb_warning_threshold :: flt

definition default_budget :: resource_budget where
  "default_budget = \<lparr>rb_max_tokens = None, rb_max_wall_time_ms = None, rb_max_storage_bytes = None,
     rb_max_network_bytes = None, rb_max_cost_micros = None, rb_warning_threshold = f_0_8\<rparr>"

record checkpoint =
  cp_id :: checkpoint_id
  cp_workspace_id :: workspace_id
  cp_checkpoint_type :: string
  cp_payload :: bytes
  cp_content_hash :: string
  cp_intent :: string
  cp_parent_checkpoint :: "checkpoint_id option"
  cp_status :: checkpoint_status
  cp_confidence :: confidence
  cp_timestamp :: u64
  cp_resource_usage :: "resource_usage option"

record port_right =
  pr_right_type :: port_right_type
  pr_holder :: workspace_id
  pr_target :: workspace_id

record signal =
  sg_signal_type :: signal_type
  sg_workspace_id :: workspace_id
  sg_timestamp :: u64
  sg_reason :: "string option"
  sg_context :: "bytes option"

record task =
  t_id :: task_id
  t_name :: string
  t_description :: string
  t_depends_on :: "task_id list"
  t_parent_task :: "task_id option"
  t_status :: task_status
  t_workspace_ref :: "workspace_id option"
  t_workspace_history :: "workspace_id list"
  t_checkpoint_ref :: "checkpoint_id option"

record gate_event =
  ge_gate_id :: gate_id
  ge_gate_type :: gate_type
  ge_subject :: bytes
  ge_workspace_id :: workspace_id
  ge_task_id :: "task_id option"
  ge_timeout_ms :: u64
  ge_fallback_action :: string
  ge_created_at :: u64

section \<open>Debug renderings\<close>

fun show_ws :: "workspace_state \<Rightarrow> string" where
  "show_ws WsIdle = ''Idle''"
| "show_ws WsActive = ''Active''"
| "show_ws WsBlocked = ''Blocked''"
| "show_ws WsSuspended = ''Suspended''"
| "show_ws WsMigrating = ''Migrating''"
| "show_ws WsIntegrating = ''Integrating''"
| "show_ws WsConflicted = ''Conflicted''"
| "show_ws WsClosed = ''Closed''"
| "show_ws WsFailed = ''Failed''"

fun show_es :: "envelope_state \<Rightarrow> string" where
  "show_es EsCreated = ''Created''"
| "show_es EsValidated = ''Validated''"
| "show_es EsDelivered = ''Delivered''"
| "show_es EsAcknowledged = ''Acknowledged''"
| "show_es EsRejected = ''Rejected''"

fun show_ts :: "task_status \<Rightarrow> string" where
  "show_ts TsDraft = ''Draft''"
| "show_ts TsPending = ''Pending''"
| "show_ts TsAssigned = ''Assigned''"
| "show_ts TsInProgress = ''InProgress''"
| "show_ts TsCompleted = ''Completed''"
| "show_ts TsFailed = ''Failed''"
| "show_ts TsIntegrated = ''Integrated''"
| "show_ts TsCancelled = ''Cancelled''"

text \<open>UTF-8 bytes of a string: characters of the model are bytes.\<close>

definition as_bytes :: "string \<Rightarrow> bytes" where
  "as_bytes s = map (\<lambda>c. word_of_nat (of_char c)) s"

end
