(* ===== verification/Wacp_Resilience.thy ===== *)
theory Wacp_Resilience
  imports Wacp_Types
begin

text \<open>
  Tool errors (\<open>wacp-tools/src/handler.rs\<close>) and the two guards in front of every tool
  (\<open>wacp-tools/src/resilience.rs\<close>): the circuit breaker and the concurrency limiter.

  An \<open>Instant\<close> is an integer and a \<open>Duration\<close> a natural number of the same unit; the clock reading of an operation
  is an argument. \<open>duration_since\<close> is zero for a later instant. The \<open>Debug\<close> text of a duration is the parameter
  \<open>dbg\<close>. The breaker's mutex makes each of its operations atomic. The limiter is read at the grain of its atomic
  accesses: an invocation moves through phases, and every interleaving of invocations is a run of the step relation
  \<open>lim_step\<close>. A future that is dropped while it waits for the semaphore is one of the steps.

  \<open>breaker_refines_window\<close> compares the breaker with a reference that keeps every failure since the breaker last
  closed and counts those inside the window; \<open>limiter_bounded\<close> bounds the running invocations.
\<close>

section \<open>Tool errors\<close>

datatype tool_error_code =
  TcValidationFailed | TcTimeout | TcExecutionFailed | TcInternalError | TcUnavailable | TcOverloaded | TcCancelled

fun tool_error_code_show :: "tool_error_code \<Rightarrow> string" where
  "tool_error_code_show TcValidationFailed = ''validation_failed''"
| "tool_error_code_show TcTimeout = ''timeout''"
| "tool_error_code_show TcExecutionFailed = ''execution_failed''"
| "tool_error_code_show TcInternalError = ''internal_error''"
| "tool_error_code_show TcUnavailable = ''unavailable''"
| "tool_error_code_show TcOverloaded = ''overloaded''"
| "tool_error_code_show TcCancelled = ''cancelled''"

record tool_error =
  tr_code :: tool_error_code
  tr_message :: string
  tr_retryable :: bool

definition tool_error_show :: "tool_error \<Rightarrow> string" where
  "tool_error_show e = tool_error_code_show (tr_code e) @ '': '' @ tr_message e"

definition te_validation :: "string \<Rightarrow> tool_error" where
  "te_validation message = \<lparr>tr_code = TcValidationFailed, tr_message = message, tr_retryable = False\<rparr>"

definition te_timeout :: "string \<Rightarrow> tool_error" where
  "te_timeout message = \<lparr>tr_code = TcTimeout, tr_message = message, tr_retryable = False\<rparr>"

definition te_execution :: "string \<Rightarrow> bool \<Rightarrow> tool_error" where
  "te_execution message retryable = \<lparr>tr_code = TcExecutionFailed, tr_message = message, tr_retryable = retryable\<rparr>"

definition te_internal :: "string \<Rightarrow> tool_error" where
  "te_internal message = \<lparr>tr_code = TcInternalError, tr_message = message, tr_retryable = False\<rparr>"

definition te_unavailable :: "string \<Rightarrow> tool_error" where
  "te_unavailable message = \<lparr>tr_code = TcUnavailable, tr_message = message, tr_retryable = True\<rparr>"

definition te_overloaded :: "string \<Rightarrow> tool_error" where
  "te_overloaded message = \<lparr>tr_code = TcOverloaded, tr_message = message, tr_retryable = True\<rparr>"

definition te_cancelled :: tool_error where
  "te_cancelled = \<lparr>tr_code = TcCancelled, tr_message = ''invocation cancelled'', tr_retryable = False\<rparr>"

lemmas te_defs = te_validation_def te_timeout_def te_execution_def te_internal_def te_unavailable_def
  te_overloaded_def te_cancelled_def

section \<open>The circuit breaker\<close>

type_synonym instant = int
type_synonym duration = nat

definition duration_since :: "instant \<Rightarrow> instant \<Rightarrow> duration" where
  "duration_since now earlier = nat (now - earlier)"

record breaker_config =
  bc_failure_threshold :: u32
  bc_failure_window :: duration
  bc_cooldown :: duration
  bc_enabled :: bool

text \<open>The defaults, with durations in milliseconds.\<close>

definition breaker_config_default :: breaker_config where
  "breaker_config_default =
     \<lparr>bc_failure_threshold = 5, bc_failure_window = 60000, bc_cooldown = 30000, bc_enabled = False\<rparr>"

datatype breaker_status = BsClosed | BsOpen | BsHalfOpen

record breaker_state =
  bk_status :: breaker_status
  bk_failures :: "instant list"
  bk_opened_at :: "instant option"

record circuit_breaker =
  cb_config :: breaker_config
  cb_state :: breaker_state

definition breaker_new :: "breaker_config \<Rightarrow> circuit_breaker" where
  "breaker_new cfg =
     \<lparr>cb_config = cfg, cb_state = \<lparr>bk_status = BsClosed, bk_failures = [], bk_opened_at = None\<rparr>\<rparr>"

definition breaker_check ::
  "(duration \<Rightarrow> string) \<Rightarrow> instant \<Rightarrow> circuit_breaker \<Rightarrow> (unit, tool_error) result \<times> circuit_breaker" where
  "breaker_check dbg now b =
     (let cfg = cb_config b; st = cb_state b in
      if \<not> bc_enabled cfg then (Ok (), b)
      else (case bk_status st of
        BsClosed \<Rightarrow> (Ok (), b)
      | BsOpen \<Rightarrow>
          if (case bk_opened_at st of None \<Rightarrow> False | Some opened_at \<Rightarrow> bc_cooldown cfg \<le> duration_since now opened_at)
          then (Ok (), b\<lparr>cb_state := st\<lparr>bk_status := BsHalfOpen\<rparr>\<rparr>)
          else (Err (te_unavailable (''circuit breaker open, cooldown remaining: '' @
                  dbg (case bk_opened_at st of None \<Rightarrow> 0 | Some t \<Rightarrow> bc_cooldown cfg - duration_since now t))), b)
      | BsHalfOpen \<Rightarrow> (Err (te_unavailable ''circuit breaker half-open, probe in progress''), b)))"

definition record_success :: "circuit_breaker \<Rightarrow> circuit_breaker" where
  "record_success b =
     (if \<not> bc_enabled (cb_config b) then b
      else (case bk_status (cb_state b) of
        BsHalfOpen \<Rightarrow> b\<lparr>cb_state := \<lparr>bk_status = BsClosed, bk_failures = [], bk_opened_at = None\<rparr>\<rparr>
      | BsClosed \<Rightarrow> b
      | BsOpen \<Rightarrow> b))"

definition record_failure :: "instant \<Rightarrow> circuit_breaker \<Rightarrow> circuit_breaker" where
  "record_failure now b =
     (let cfg = cb_config b; st = cb_state b in
      if \<not> bc_enabled cfg then b
      else (case bk_status st of
        BsClosed \<Rightarrow>
          (let cutoff = now - int (bc_failure_window cfg);
               failures = filter (\<lambda>t. cutoff \<le> t) (bk_failures st) @ [now];
               st1 = st\<lparr>bk_failures := failures\<rparr>
           in b\<lparr>cb_state := (if unat (bc_failure_threshold cfg) \<le> length failures
                then st1\<lparr>bk_status := BsOpen, bk_opened_at := Some now\<rparr> else st1)\<rparr>)
      | BsHalfOpen \<Rightarrow> b\<lparr>cb_state := st\<lparr>bk_status := BsOpen, bk_opened_at := Some now\<rparr>\<rparr>
      | BsOpen \<Rightarrow> b))"

text \<open>A run of the breaker: calls of its three operations, each at a time.\<close>

datatype breaker_op = BoCheck | BoSuccess | BoFailure

definition breaker_op_step ::
  "(duration \<Rightarrow> string) \<Rightarrow> instant \<times> breaker_op \<Rightarrow> circuit_breaker \<Rightarrow> (unit, tool_error) result \<times> circuit_breaker" where
  "breaker_op_step dbg c b = (case c of (now, ope) \<Rightarrow> (case ope of
       BoCheck \<Rightarrow> breaker_check dbg now b
     | BoSuccess \<Rightarrow> (Ok (), record_success b)
     | BoFailure \<Rightarrow> (Ok (), record_failure now b)))"

fun breaker_run ::
  "(duration \<Rightarrow> string) \<Rightarrow> (instant \<times> breaker_op) list \<Rightarrow> circuit_breaker \<Rightarrow> (unit, tool_error) result list \<times> circuit_breaker" where
  "breaker_run dbg [] b = ([], b)"
| "breaker_run dbg (c # cs) b =
     (let (r, b1) = breaker_op_step dbg c b; (rs, b2) = breaker_run dbg cs b1 in (r # rs, b2))"

text \<open>
  The reference: a closed breaker remembers every failure since it closed and trips when those of the window
  reach the threshold; an open one rejects until the cooldown has passed; then one probe decides.
\<close>

datatype breaker_spec = SpClosed "instant list" | SpOpen instant | SpProbing

definition spec_status :: "breaker_spec \<Rightarrow> breaker_status" where
  "spec_status a = (case a of SpClosed _ \<Rightarrow> BsClosed | SpOpen _ \<Rightarrow> BsOpen | SpProbing \<Rightarrow> BsHalfOpen)"

definition spec_trips :: "breaker_config \<Rightarrow> instant \<Rightarrow> instant list \<Rightarrow> bool" where
  "spec_trips cfg now fs \<longleftrightarrow>
     unat (bc_failure_threshold cfg) \<le> count_of (\<lambda>t. now - t \<le> int (bc_failure_window cfg)) (fs @ [now])"

fun spec_step ::
  "(duration \<Rightarrow> string) \<Rightarrow> breaker_config \<Rightarrow> instant \<times> breaker_op \<Rightarrow> breaker_spec \<Rightarrow> (unit, tool_error) result \<times> breaker_spec" where
  "spec_step dbg cfg (now, BoCheck) (SpClosed fs) = (Ok (), SpClosed fs)"
| "spec_step dbg cfg (now, BoCheck) (SpOpen t) =
     (if int (bc_cooldown cfg) \<le> now - t then (Ok (), SpProbing)
      else (Err (te_unavailable (''circuit breaker open, cooldown remaining: '' @
              dbg (bc_cooldown cfg - nat (now - t)))), SpOpen t))"
| "spec_step dbg cfg (now, BoCheck) SpProbing =
     (Err (te_unavailable ''circuit breaker half-open, probe in progress''), SpProbing)"
| "spec_step dbg cfg (now, BoSuccess) SpProbing = (Ok (), SpClosed [])"
| "spec_step dbg cfg (now, BoSuccess) a = (Ok (), a)"
| "spec_step dbg cfg (now, BoFailure) (SpClosed fs) =
     (Ok (), if spec_trips cfg now fs then SpOpen now else SpClosed (fs @ [now]))"
| "spec_step dbg cfg (now, BoFailure) (SpOpen t) = (Ok (), SpOpen t)"
| "spec_step dbg cfg (now, BoFailure) SpProbing = (Ok (), SpOpen now)"

fun spec_run ::
  "(duration \<Rightarrow> string) \<Rightarrow> breaker_config \<Rightarrow> (instant \<times> breaker_op) list \<Rightarrow> breaker_spec \<Rightarrow> (unit, tool_error) result list \<times> breaker_spec" where
  "spec_run dbg cfg [] a = ([], a)"
| "spec_run dbg cfg (c # cs) a =
     (let (r, a1) = spec_step dbg cfg c a; (rs, a2) = spec_run dbg cfg cs a1 in (r # rs, a2))"

text \<open>
  The simulation at time \<open>now\<close>: the failures the breaker dropped are outside every window that ends at \<open>now\<close> or
  later.
\<close>

definition breaker_sim :: "breaker_config \<Rightarrow> instant \<Rightarrow> circuit_breaker \<Rightarrow> breaker_spec \<Rightarrow> bool" where
  "breaker_sim cfg now b a \<longleftrightarrow> cb_config b = cfg \<and> bk_status (cb_state b) = spec_status a \<and>
     (case a of
        SpClosed fs \<Rightarrow> (\<exists>c \<le> now - int (bc_failure_window cfg). bk_failures (cb_state b) = filter (\<lambda>t. c \<le> t) fs)
      | SpOpen t \<Rightarrow> bk_opened_at (cb_state b) = Some t \<and> t \<le> now
      | SpProbing \<Rightarrow> True)"

lemma breaker_sim_later: "breaker_sim cfg t b a \<Longrightarrow> t \<le> now \<Longrightarrow> breaker_sim cfg now b a"
proof (cases a)
  case (SpClosed fs)
  assume "breaker_sim cfg t b a" "t \<le> now"
  then obtain c where "c \<le> t - int (bc_failure_window cfg)" "bk_failures (cb_state b) = filter (\<lambda>t. c \<le> t) fs"
    and b: "cb_config b = cfg" "bk_status (cb_state b) = BsClosed"
    by (auto simp: breaker_sim_def SpClosed spec_status_def)
  with \<open>t \<le> now\<close> have "c \<le> now - int (bc_failure_window cfg) \<and> bk_failures (cb_state b) = filter (\<lambda>t. c \<le> t) fs" by simp
  with b show ?thesis unfolding breaker_sim_def SpClosed by (auto simp: spec_status_def)
qed (auto simp: breaker_sim_def)

lemma breaker_sim_new: "breaker_sim cfg now (breaker_new cfg) (SpClosed [])"
  by (auto simp: breaker_sim_def breaker_new_def spec_status_def)

lemma filter_later: "c \<le> d \<Longrightarrow> filter (\<lambda>t. d \<le> t) (filter (\<lambda>t. c \<le> t) xs) = filter (\<lambda>t. d \<le> t) (xs :: int list)"
  by (induction xs) auto

lemma trips_iff:
  assumes "c \<le> now - int (bc_failure_window cfg)"
  shows "unat (bc_failure_threshold cfg)
           \<le> length (filter (\<lambda>t. now - int (bc_failure_window cfg) \<le> t) (filter (\<lambda>t. c \<le> t) fs) @ [now])
         \<longleftrightarrow> spec_trips cfg now fs"
proof -
  have "(\<lambda>t. now - t \<le> int (bc_failure_window cfg)) = (\<lambda>t. now - int (bc_failure_window cfg) \<le> t)" by auto
  then show ?thesis using assms by (simp add: filter_later spec_trips_def count_of_def del: filter_filter)
qed

lemma breaker_failure_sim:
  assumes "breaker_sim cfg now b (SpClosed fs)" "bc_enabled cfg"
  shows "breaker_sim cfg now (record_failure now b) (if spec_trips cfg now fs then SpOpen now else SpClosed (fs @ [now]))"
proof -
  from assms(1) obtain c where c: "c \<le> now - int (bc_failure_window cfg)"
    and b: "cb_config b = cfg" "bk_status (cb_state b) = BsClosed" "bk_failures (cb_state b) = filter (\<lambda>t. c \<le> t) fs"
    by (auto simp: breaker_sim_def spec_status_def)
  show ?thesis
    using assms(2) b trips_iff [OF c, of fs]
    by (auto simp: breaker_sim_def record_failure_def spec_status_def Let_def filter_later [OF c] simp del: filter_filter
        intro!: exI [of _ "now - int (bc_failure_window cfg)"])
qed

lemma breaker_step_sim:
  assumes "breaker_sim cfg now b a" "bc_enabled cfg"
  shows "fst (breaker_op_step dbg (now, ope) b) = fst (spec_step dbg cfg (now, ope) a)"
    and "breaker_sim cfg now (snd (breaker_op_step dbg (now, ope) b)) (snd (spec_step dbg cfg (now, ope) a))"
proof -
  have "fst (breaker_op_step dbg (now, ope) b) = fst (spec_step dbg cfg (now, ope) a)
    \<and> breaker_sim cfg now (snd (breaker_op_step dbg (now, ope) b)) (snd (spec_step dbg cfg (now, ope) a))"
  proof (cases "\<exists>fs. ope = BoFailure \<and> a = SpClosed fs")
    case True
    then show ?thesis using assms breaker_failure_sim by (auto simp: breaker_op_step_def)
  next
    case False
    then show ?thesis using assms
      by (cases ope; cases a)
        (auto simp: breaker_op_step_def breaker_sim_def spec_status_def breaker_check_def record_success_def
           record_failure_def Let_def duration_since_def nat_le_eq_zle)
  qed
  then show "fst (breaker_op_step dbg (now, ope) b) = fst (spec_step dbg cfg (now, ope) a)"
    and "breaker_sim cfg now (snd (breaker_op_step dbg (now, ope) b)) (snd (spec_step dbg cfg (now, ope) a))"
    by blast+
qed

lemma breaker_run_sim:
  assumes "breaker_sim cfg t0 b a" "bc_enabled cfg" "sorted (t0 # map fst cs)"
  shows "fst (breaker_run dbg cs b) = fst (spec_run dbg cfg cs a)
    \<and> bk_status (cb_state (snd (breaker_run dbg cs b))) = spec_status (snd (spec_run dbg cfg cs a))"
  using assms(1,3)
proof (induction cs arbitrary: b a t0)
  case Nil
  then show ?case by (simp add: breaker_sim_def)
next
  case (Cons c cs)
  obtain now ope where c: "c = (now, ope)" by (cases c)
  have "breaker_sim cfg now b a" using Cons.prems breaker_sim_later by (auto simp: c)
  note st = breaker_step_sim [OF this assms(2), of dbg ope]
  show ?case using Cons.IH [OF st(2)] Cons.prems(2) st(1)
    by (auto simp: c Let_def split: prod.splits)
qed

text \<open>C34. For an enabled breaker and any sequence of checks, successes and failures at times that do not go back, the
  answers and the final status are those of the reference: a closed breaker trips exactly at the failure that makes
  the number of failures in the window reach the threshold, counted since it last closed; an open one rejects
  exactly until the cooldown has passed and then admits one probe, whose outcome closes it or opens it again.\<close>
theorem breaker_refines_window:
  assumes "bc_enabled cfg" "sorted (map fst cs)"
  shows "fst (breaker_run dbg cs (breaker_new cfg)) = fst (spec_run dbg cfg cs (SpClosed []))
    \<and> bk_status (cb_state (snd (breaker_run dbg cs (breaker_new cfg)))) = spec_status (snd (spec_run dbg cfg cs (SpClosed [])))"
proof (cases cs)
  case Nil
  then show ?thesis by (simp add: breaker_new_def spec_status_def)
next
  case (Cons c cs')
  then have "sorted (fst c # map fst cs)" using assms(2) by auto
  then show ?thesis by (rule breaker_run_sim [OF breaker_sim_new assms(1)])
qed

definition sample_breaker :: breaker_config where
  "sample_breaker = \<lparr>bc_failure_threshold = 2, bc_failure_window = 10, bc_cooldown = 5, bc_enabled = True\<rparr>"

theorem breaker_refines_window_witness:
  "fst (breaker_run (\<lambda>_. []) [(0, BoFailure), (11, BoFailure), (12, BoCheck), (20, BoFailure), (25, BoCheck), (26, BoCheck)]
      (breaker_new sample_breaker))
   = [Ok (), Ok (), Ok (), Ok (), Ok (), Err (te_unavailable ''circuit breaker half-open, probe in progress'')]"
  using breaker_refines_window [of sample_breaker
      "[(0, BoFailure), (11, BoFailure), (12, BoCheck), (20, BoFailure), (25, BoCheck), (26, BoCheck)]" "\<lambda>_. []"]
  by (simp add: sample_breaker_def spec_trips_def)

text \<open>
  While a probe is undecided no check succeeds, however late: without a recorded outcome a half-open breaker stays
  half-open.
\<close>

lemma half_open_checks:
  assumes "bc_enabled (cb_config b)" "bk_status (cb_state b) = BsHalfOpen"
  shows "breaker_check dbg now b = (Err (te_unavailable ''circuit breaker half-open, probe in progress''), b)"
  using assms by (simp add: breaker_check_def Let_def)

section \<open>The concurrency limiter\<close>

record concurrency_config =
  cc_max_concurrent :: nat
  cc_max_queued :: nat

definition concurrency_config_default :: concurrency_config where
  "concurrency_config_default = \<lparr>cc_max_concurrent = 10, cc_max_queued = 50\<rparr>"

text \<open>
  The semaphore is its number of free permits. \<open>max_permits\<close> is tokio's \<open>Semaphore::MAX_PERMITS\<close>. The semaphore
  is never closed, so its errors do not occur.
\<close>

record limiter =
  li_config :: concurrency_config
  li_available :: nat
  li_queued :: u64

definition limiter_permits :: "nat \<Rightarrow> concurrency_config \<Rightarrow> nat" where
  "limiter_permits max_permits cfg = (if cc_max_concurrent cfg = 0 then max_permits else cc_max_concurrent cfg)"

definition limiter_new :: "nat \<Rightarrow> concurrency_config \<Rightarrow> limiter" where
  "limiter_new max_permits cfg = \<lparr>li_config = cfg, li_available = limiter_permits max_permits cfg, li_queued = 0\<rparr>"

definition queued_count :: "limiter \<Rightarrow> u64" where
  "queued_count l = li_queued l"

definition available_permits :: "limiter \<Rightarrow> nat" where
  "available_permits l = li_available l"

text \<open>
  The phases of an invocation inside \<open>acquire\<close>: about to try the semaphore, about to read the queue counter, admitted
  and about to increment it, waiting for the semaphore, and running with a permit. The flag is \<open>was_queued\<close>.
\<close>

datatype lim_phase =
  LpArriving | LpFull | LpAdmitted | LpWaiting bool | LpRunning bool | LpFinished | LpRefused tool_error | LpDropped bool

definition lim_try :: "limiter \<Rightarrow> lim_phase \<times> limiter" where
  "lim_try l =
     (if 0 < li_available l then (LpRunning False, l\<lparr>li_available := li_available l - 1\<rparr>)
      else if cc_max_concurrent (li_config l) = 0 then (LpWaiting False, l)
      else (LpFull, l))"

definition lim_admit :: "limiter \<Rightarrow> lim_phase" where
  "lim_admit l =
     (if of_nat (cc_max_queued (li_config l)) \<le> li_queued l
      then LpRefused (te_overloaded (''concurrency limit reached ('' @ show_nat (cc_max_concurrent (li_config l)) @
             '' active, '' @ show_nat (unat (li_queued l)) @ '' queued)''))
      else LpAdmitted)"

definition lim_enter :: "limiter \<Rightarrow> lim_phase \<times> limiter" where
  "lim_enter l = (LpWaiting True, l\<lparr>li_queued := li_queued l + 1\<rparr>)"

definition lim_grant :: "bool \<Rightarrow> limiter \<Rightarrow> lim_phase \<times> limiter" where
  "lim_grant was_queued l = (LpRunning was_queued, l\<lparr>li_available := li_available l - 1\<rparr>)"

definition lim_release :: "bool \<Rightarrow> limiter \<Rightarrow> limiter" where
  "lim_release was_queued l =
     l\<lparr>li_available := li_available l + 1, li_queued := (if was_queued then li_queued l - 1 else li_queued l)\<rparr>"

text \<open>The steps of invocation \<open>i\<close>; a new invocation may arrive at any time.\<close>

inductive lim_step :: "limiter \<times> lim_phase list \<Rightarrow> limiter \<times> lim_phase list \<Rightarrow> bool" where
  ls_arrive: "lim_step (l, ps) (l, ps @ [LpArriving])"
| ls_try: "i < length ps \<Longrightarrow> ps ! i = LpArriving \<Longrightarrow> lim_try l = (p, l') \<Longrightarrow> lim_step (l, ps) (l', ps[i := p])"
| ls_admit: "i < length ps \<Longrightarrow> ps ! i = LpFull \<Longrightarrow> lim_step (l, ps) (l, ps[i := lim_admit l])"
| ls_enter: "i < length ps \<Longrightarrow> ps ! i = LpAdmitted \<Longrightarrow> lim_enter l = (p, l') \<Longrightarrow> lim_step (l, ps) (l', ps[i := p])"
| ls_grant: "i < length ps \<Longrightarrow> ps ! i = LpWaiting q \<Longrightarrow> 0 < li_available l \<Longrightarrow> lim_grant q l = (p, l') \<Longrightarrow>
     lim_step (l, ps) (l', ps[i := p])"
| ls_drop: "i < length ps \<Longrightarrow> ps ! i = LpWaiting q \<Longrightarrow> lim_step (l, ps) (l, ps[i := LpDropped q])"
| ls_release: "i < length ps \<Longrightarrow> ps ! i = LpRunning q \<Longrightarrow> lim_step (l, ps) (lim_release q l, ps[i := LpFinished])"

inductive lim_reachable :: "nat \<Rightarrow> concurrency_config \<Rightarrow> limiter \<Rightarrow> lim_phase list \<Rightarrow> bool" for mp cfg where
  lr_new: "lim_reachable mp cfg (limiter_new mp cfg) []"
| lr_step: "lim_reachable mp cfg l ps \<Longrightarrow> lim_step (l, ps) (l', ps') \<Longrightarrow> lim_reachable mp cfg l' ps'"

definition running :: "lim_phase \<Rightarrow> bool" where
  "running p = (case p of LpRunning _ \<Rightarrow> True | _ \<Rightarrow> False)"

text \<open>The invocations the counter includes: waiting, running after a wait, or dropped while waiting.\<close>

definition counted :: "lim_phase \<Rightarrow> bool" where
  "counted p = (case p of LpWaiting q \<Rightarrow> q | LpRunning q \<Rightarrow> q | LpDropped q \<Rightarrow> q | _ \<Rightarrow> False)"

definition lim_inv :: "nat \<Rightarrow> concurrency_config \<Rightarrow> limiter \<Rightarrow> lim_phase list \<Rightarrow> bool" where
  "lim_inv mp cfg l ps \<longleftrightarrow> li_config l = cfg
     \<and> li_available l + count_of running ps = limiter_permits mp cfg
     \<and> li_queued l = of_nat (count_of counted ps)"

lemma phase_simps [simp]:
  "running (LpRunning q)" "\<not> running LpArriving" "\<not> running LpFull" "\<not> running LpAdmitted" "\<not> running (LpWaiting q)"
  "\<not> running LpFinished" "\<not> running (LpRefused e)" "\<not> running (LpDropped q)"
  "counted (LpWaiting q) = q" "counted (LpRunning q) = q" "counted (LpDropped q) = q" "\<not> counted LpArriving"
  "\<not> counted LpFull" "\<not> counted LpAdmitted" "\<not> counted LpFinished" "\<not> counted (LpRefused e)"
  by (simp_all add: running_def counted_def)

lemma of_nat_pred: "Suc m = n \<Longrightarrow> (of_nat n :: u64) - 1 = of_nat m"
  by auto

lemma lim_admit_cases: "lim_admit l = LpAdmitted \<or> (\<exists>e. lim_admit l = LpRefused e)"
  by (simp add: lim_admit_def)

lemma lim_inv_step:
  assumes "lim_step (l, ps) (l', ps')" "lim_inv mp cfg l ps"
  shows "lim_inv mp cfg l' ps'"
  using assms(1)
proof cases
  case ls_arrive
  then show ?thesis using assms(2) by (simp add: lim_inv_def)
next
  case (ls_try i p)
  then show ?thesis using assms(2) count_of_update [of i ps running p] count_of_update [of i ps counted p]
    by (auto simp: lim_inv_def lim_try_def split: if_splits)
next
  case (ls_admit i)
  then show ?thesis using assms(2) count_of_update [of i ps running] count_of_update [of i ps counted] lim_admit_cases [of l]
    by (auto simp: lim_inv_def)
next
  case (ls_enter i p)
  then show ?thesis using assms(2) count_of_update [of i ps running p] count_of_update [of i ps counted p]
    by (auto simp: lim_inv_def lim_enter_def)
next
  case (ls_grant i q p)
  then show ?thesis using assms(2) count_of_update [of i ps running p] count_of_update [of i ps counted p]
    by (auto simp: lim_inv_def lim_grant_def split: if_splits)
next
  case (ls_drop i q)
  then show ?thesis
    using assms(2) count_of_update [of i ps running "LpDropped q"] count_of_update [of i ps counted "LpDropped q"]
    by (auto simp: lim_inv_def split: if_splits)
next
  case (ls_release i q)
  then show ?thesis
    using assms(2) count_of_update [of i ps running LpFinished] count_of_update [of i ps counted LpFinished]
    by (auto simp: lim_inv_def lim_release_def of_nat_pred split: if_splits)
qed

lemma lim_reachable_inv: "lim_reachable mp cfg l ps \<Longrightarrow> lim_inv mp cfg l ps"
proof (induction rule: lim_reachable.induct)
  case lr_new
  then show ?case by (simp add: lim_inv_def limiter_new_def)
next
  case (lr_step l ps l' ps')
  then show ?case using lim_inv_step by blast
qed

text \<open>C35. In every interleaving of invocations, arrivals and dropped futures, the free permits and the running
  invocations together are the permits the limiter was created with, so at most \<open>max_concurrent\<close> invocations run
  at any time (unless it is 0, for unlimited); a new invocation runs at once exactly when fewer run, and with at
  most \<open>2^64 - 1\<close> invocations the queue counter is the number of those that waited and have not finished.\<close>
theorem limiter_bounded:
  assumes "lim_reachable mp cfg l ps" "cc_max_concurrent cfg \<noteq> 0" "length ps < 2 ^ 64"
  shows "count_of running ps \<le> cc_max_concurrent cfg
    \<and> available_permits l = cc_max_concurrent cfg - count_of running ps
    \<and> (fst (lim_try l) = LpRunning False \<longleftrightarrow> count_of running ps < cc_max_concurrent cfg)
    \<and> unat (queued_count l) = count_of counted ps"
proof -
  have i: "li_config l = cfg" "li_available l + count_of running ps = cc_max_concurrent cfg"
    "li_queued l = of_nat (count_of counted ps)"
    using lim_reachable_inv [OF assms(1)] assms(2) by (simp_all add: lim_inv_def limiter_permits_def)
  have "count_of counted ps < 2 ^ 64" using count_of_le [of counted ps] assms(3) by linarith
  then have "unat (queued_count l) = count_of counted ps" by (simp add: queued_count_def i(3) unat_of_nat_u64)
  then show ?thesis using i(1,2) assms(2) by (auto simp: available_permits_def lim_try_def)
qed

lemma lim_reach_via:
  assumes "lim_reachable mp cfg l ps" "lim_step (l, ps) s" "s = (l', ps')"
  shows "lim_reachable mp cfg l' ps'"
  using assms lr_step by blast

definition sample_limits :: concurrency_config where
  "sample_limits = \<lparr>cc_max_concurrent = 1, cc_max_queued = 1\<rparr>"

lemma sample_queue:
  "lim_reachable mp sample_limits \<lparr>li_config = sample_limits, li_available = 0, li_queued = 1\<rparr> [LpRunning False, LpWaiting True]"
proof -
  let ?l = "\<lambda>a q. \<lparr>li_config = sample_limits, li_available = a, li_queued = q\<rparr>"
  note defs = sample_limits_def lim_try_def lim_admit_def lim_enter_def limiter_new_def limiter_permits_def
  have "lim_reachable mp sample_limits (?l 1 0) []"
    using lr_new [of mp sample_limits] by (simp add: defs)
  then have "lim_reachable mp sample_limits (?l 1 0) [LpArriving]"
    by (rule lim_reach_via [OF _ ls_arrive]) simp
  then have "lim_reachable mp sample_limits (?l 0 0) [LpRunning False]"
    by (rule lim_reach_via [OF _ ls_try [where i = 0]]) (auto simp: defs)
  then have "lim_reachable mp sample_limits (?l 0 0) [LpRunning False, LpArriving]"
    by (rule lim_reach_via [OF _ ls_arrive]) simp
  then have "lim_reachable mp sample_limits (?l 0 0) [LpRunning False, LpFull]"
    by (rule lim_reach_via [OF _ ls_try [where i = 1]]) (auto simp: defs)
  then have "lim_reachable mp sample_limits (?l 0 0) [LpRunning False, LpAdmitted]"
    by (rule lim_reach_via [OF _ ls_admit [where i = 1]]) (auto simp: defs)
  then show ?thesis
    by (rule lim_reach_via [OF _ ls_enter [where i = 1]]) (auto simp: defs)
qed

theorem limiter_bounded_witness:
  "count_of running [LpRunning False, LpWaiting True] \<le> cc_max_concurrent sample_limits
    \<and> unat (queued_count \<lparr>li_config = sample_limits, li_available = 0, li_queued = 1\<rparr>) = 1"
  using limiter_bounded [OF sample_queue [of 0]] by (simp add: sample_limits_def)

text \<open>
  Two consequences of when the counter is decremented. An invocation that waited is counted until it finishes, so
  with one slot and one queue place a third invocation is refused while nobody waits. An invocation whose future is
  dropped while it waits is never uncounted: when everything has finished the place is still taken, and the next
  invocation that finds the slot busy is refused.
\<close>

theorem running_counts_as_queued:
  "\<exists>l. lim_reachable mp sample_limits l [LpFinished, LpRunning True] \<and> queued_count l = 1
     \<and> (\<exists>e. lim_admit l = LpRefused e \<and> tr_code e = TcOverloaded)"
proof -
  let ?l = "\<lambda>a q. \<lparr>li_config = sample_limits, li_available = a, li_queued = q\<rparr>"
  have "lim_reachable mp sample_limits (?l 1 1) [LpFinished, LpWaiting True]"
    by (rule lim_reach_via [OF sample_queue ls_release [where i = 0]]) (auto simp: lim_release_def)
  then have "lim_reachable mp sample_limits (?l 0 1) [LpFinished, LpRunning True]"
    by (rule lim_reach_via [OF _ ls_grant [where i = 1]]) (auto simp: lim_grant_def)
  then show ?thesis by (intro exI [of _ "?l 0 1"]) (simp add: queued_count_def lim_admit_def sample_limits_def te_overloaded_def)
qed

theorem dropped_waiter_leaks:
  "\<exists>l. lim_reachable mp sample_limits l [LpFinished, LpDropped True] \<and> available_permits l = 1 \<and> queued_count l = 1
     \<and> (\<exists>e. lim_admit (snd (lim_try l)) = LpRefused e \<and> tr_code e = TcOverloaded)"
proof -
  let ?l = "\<lambda>a q. \<lparr>li_config = sample_limits, li_available = a, li_queued = q\<rparr>"
  have "lim_reachable mp sample_limits (?l 0 1) [LpRunning False, LpDropped True]"
    by (rule lim_reach_via [OF sample_queue ls_drop [where i = 1]]) auto
  then have "lim_reachable mp sample_limits (?l 1 1) [LpFinished, LpDropped True]"
    by (rule lim_reach_via [OF _ ls_release [where i = 0]]) (auto simp: lim_release_def)
  then show ?thesis
    by (intro exI [of _ "?l 1 1"])
      (simp add: queued_count_def available_permits_def lim_admit_def lim_try_def sample_limits_def te_overloaded_def)
qed

end
