(* ===== verification/Wacp_Auth.thy ===== *)
theory Wacp_Auth
  imports Wacp_Resilience
begin

text \<open>
  Authentication of agents and humans (\<open>wacp-transport/src/auth.rs\<close>, \<open>auth_api_key.rs\<close>, \<open>auth_session.rs\<close>,
  \<open>auth_oauth.rs\<close>): the four authenticators and the rate limiter of failed attempts.

  A generated token is an argument of the operation that hands it out, SHA-256 of a token is the parameter \<open>dg\<close>. Times
  are as in \<open>Wacp_Resilience\<close>. The JWT payload decoder (base64 and JSON) is the parameter \<open>payload\<close>; it returns the
  accessors of the claims, as the code reads them.
\<close>

type_synonym digest = bytes

record agent_identity =
  ai_workspace_id :: workspace_id
  ai_role :: string

datatype auth_error = AuInvalidToken | AuWorkspaceMismatch | AuProviderUnavailable | AuRateLimited

section \<open>Pre-shared keys\<close>

record psk_authenticator =
  ps_agent_tokens :: "(string, agent_identity) hmap"
  ps_human_tokens :: "(string, user_id) hmap"

definition psk_new :: psk_authenticator where
  "psk_new = \<lparr>ps_agent_tokens = [], ps_human_tokens = []\<rparr>"

definition psk_register_agent :: "string \<Rightarrow> workspace_id \<Rightarrow> string \<Rightarrow> psk_authenticator \<Rightarrow> string \<times> psk_authenticator" where
  "psk_register_agent token wid role a =
     (token, a\<lparr>ps_agent_tokens := hput token \<lparr>ai_workspace_id = wid, ai_role = role\<rparr> (ps_agent_tokens a)\<rparr>)"

definition psk_register_human :: "string \<Rightarrow> user_id \<Rightarrow> psk_authenticator \<Rightarrow> string \<times> psk_authenticator" where
  "psk_register_human token uid a = (token, a\<lparr>ps_human_tokens := hput token uid (ps_human_tokens a)\<rparr>)"

definition psk_revoke_agent :: "workspace_id \<Rightarrow> psk_authenticator \<Rightarrow> psk_authenticator" where
  "psk_revoke_agent wid a =
     a\<lparr>ps_agent_tokens := filter (\<lambda>(_, i). ai_workspace_id i \<noteq> wid) (ps_agent_tokens a)\<rparr>"

definition psk_revoke_human :: "string \<Rightarrow> psk_authenticator \<Rightarrow> psk_authenticator" where
  "psk_revoke_human token a = a\<lparr>ps_human_tokens := hdel token (ps_human_tokens a)\<rparr>"

definition psk_authenticate_agent :: "psk_authenticator \<Rightarrow> string \<Rightarrow> workspace_id \<Rightarrow> (agent_identity, auth_error) result" where
  "psk_authenticate_agent a token wid =
     (case hget (ps_agent_tokens a) token of
        Some i \<Rightarrow> if ai_workspace_id i = wid then Ok i else Err AuWorkspaceMismatch
      | None \<Rightarrow> Err AuInvalidToken)"

definition psk_authenticate_human :: "psk_authenticator \<Rightarrow> string \<Rightarrow> (user_id, auth_error) result" where
  "psk_authenticate_human a token =
     (case hget (ps_human_tokens a) token of Some uid \<Rightarrow> Ok uid | None \<Rightarrow> Err AuInvalidToken)"

section \<open>The rate limiter of failed attempts\<close>

text \<open>An address is a string; the table lists the addresses in iteration order.\<close>

record auth_rate_limiter =
  al_failures :: "(string, instant list) hmap"
  al_max_failures :: u32
  al_window :: duration

definition max_tracked_ips :: nat where
  "max_tracked_ips = 10000"

definition is_before_cutoff :: "instant \<Rightarrow> instant \<Rightarrow> bool" where
  "is_before_cutoff t cutoff \<longleftrightarrow> t < cutoff"

definition auth_limiter_new :: "u32 \<Rightarrow> u32 \<Rightarrow> auth_rate_limiter" where
  "auth_limiter_new max_failures window_seconds =
     \<lparr>al_failures = [], al_max_failures = max_failures, al_window = 1000 * unat window_seconds\<rparr>"

definition auth_check :: "instant \<Rightarrow> string \<Rightarrow> auth_rate_limiter \<Rightarrow> (unit, auth_error) result \<times> auth_rate_limiter" where
  "auth_check now ip l =
     (if al_max_failures l = 0 then (Ok (), l)
      else (case hget (al_failures l) ip of
        None \<Rightarrow> (Ok (), l)
      | Some ts \<Rightarrow>
          (let cutoff = now - int (al_window l);
               kept = dropWhile (\<lambda>t. is_before_cutoff t cutoff) ts;
               l1 = l\<lparr>al_failures := hput ip kept (al_failures l)\<rparr>
           in if unat (al_max_failures l) \<le> length kept then (Err AuRateLimited, l1) else (Ok (), l1))))"

text \<open>\<open>min_by_key\<close> returns the first minimal entry; an empty queue counts as now.\<close>

fun oldest_entry :: "instant \<Rightarrow> (string, instant list) hmap \<Rightarrow> (string \<times> instant) option" where
  "oldest_entry now [] = None"
| "oldest_entry now ((ip, ts) # m) =
     (let t = (if ts = [] then now else last ts) in
      case oldest_entry now m of
        None \<Rightarrow> Some (ip, t)
      | Some (ip', t') \<Rightarrow> if t \<le> t' then Some (ip, t) else Some (ip', t'))"

definition auth_record_failure :: "instant \<Rightarrow> string \<Rightarrow> auth_rate_limiter \<Rightarrow> auth_rate_limiter" where
  "auth_record_failure now ip l =
     (if al_max_failures l = 0 then l
      else
        (let m = al_failures l;
             m1 = (if max_tracked_ips \<le> length m \<and> \<not> hhas m ip then
                     (case oldest_entry now m of Some (old, _) \<Rightarrow> hdel old m | None \<Rightarrow> m)
                   else m)
         in l\<lparr>al_failures := hput ip ((case hget m1 ip of Some ts \<Rightarrow> ts | None \<Rightarrow> []) @ [now]) m1\<rparr>))"

section \<open>API keys\<close>

record api_key_entry =
  ak_identity :: agent_identity
  ak_last_used :: "instant option"

record human_key_entry =
  hk_user_id :: user_id
  hk_last_used :: "instant option"

record api_key_authenticator =
  ap_agent_keys :: "(digest, api_key_entry) hmap"
  ap_human_keys :: "(digest, human_key_entry) hmap"
  ap_rate_limiter :: auth_rate_limiter

definition api_key_new :: "u32 \<Rightarrow> u32 \<Rightarrow> api_key_authenticator" where
  "api_key_new max_failures window_seconds =
     \<lparr>ap_agent_keys = [], ap_human_keys = [], ap_rate_limiter = auth_limiter_new max_failures window_seconds\<rparr>"

definition register_agent_key ::
  "(string \<Rightarrow> digest) \<Rightarrow> string \<Rightarrow> workspace_id \<Rightarrow> string \<Rightarrow> api_key_authenticator \<Rightarrow> api_key_authenticator" where
  "register_agent_key dg key wid role a = a\<lparr>ap_agent_keys :=
     hput (dg key) \<lparr>ak_identity = \<lparr>ai_workspace_id = wid, ai_role = role\<rparr>, ak_last_used = None\<rparr> (ap_agent_keys a)\<rparr>"

definition register_human_key :: "(string \<Rightarrow> digest) \<Rightarrow> string \<Rightarrow> user_id \<Rightarrow> api_key_authenticator \<Rightarrow> api_key_authenticator" where
  "register_human_key dg key uid a =
     a\<lparr>ap_human_keys := hput (dg key) \<lparr>hk_user_id = uid, hk_last_used = None\<rparr> (ap_human_keys a)\<rparr>"

definition revoke_agent_key :: "(string \<Rightarrow> digest) \<Rightarrow> string \<Rightarrow> api_key_authenticator \<Rightarrow> api_key_authenticator" where
  "revoke_agent_key dg key a = a\<lparr>ap_agent_keys := hdel (dg key) (ap_agent_keys a)\<rparr>"

definition revoke_human_key :: "(string \<Rightarrow> digest) \<Rightarrow> string \<Rightarrow> api_key_authenticator \<Rightarrow> api_key_authenticator" where
  "revoke_human_key dg key a = a\<lparr>ap_human_keys := hdel (dg key) (ap_human_keys a)\<rparr>"

definition api_authenticate_agent ::
  "(string \<Rightarrow> digest) \<Rightarrow> instant \<Rightarrow> string \<Rightarrow> workspace_id \<Rightarrow> api_key_authenticator \<Rightarrow>
     (agent_identity, auth_error) result \<times> api_key_authenticator" where
  "api_authenticate_agent dg now token wid a =
     (case hget (ap_agent_keys a) (dg token) of
        None \<Rightarrow> (Err AuInvalidToken, a)
      | Some e \<Rightarrow>
          if ai_workspace_id (ak_identity e) \<noteq> wid then (Err AuWorkspaceMismatch, a)
          else (Ok (ak_identity e),
                a\<lparr>ap_agent_keys := hput (dg token) (e\<lparr>ak_last_used := Some now\<rparr>) (ap_agent_keys a)\<rparr>))"

definition api_authenticate_human ::
  "(string \<Rightarrow> digest) \<Rightarrow> instant \<Rightarrow> string \<Rightarrow> api_key_authenticator \<Rightarrow> (user_id, auth_error) result \<times> api_key_authenticator" where
  "api_authenticate_human dg now token a =
     (case hget (ap_human_keys a) (dg token) of
        None \<Rightarrow> (Err AuInvalidToken, a)
      | Some e \<Rightarrow> (Ok (hk_user_id e),
                a\<lparr>ap_human_keys := hput (dg token) (e\<lparr>hk_last_used := Some now\<rparr>) (ap_human_keys a)\<rparr>))"

section \<open>Sessions\<close>

record session_entry =
  se_user_id :: user_id
  se_created_at :: instant
  se_expires_at :: instant
  se_last_activity :: instant

record session_authenticator =
  st_sessions :: "(digest, session_entry) hmap"
  st_token_ttl :: duration

definition sessions_new :: "duration \<Rightarrow> session_authenticator" where
  "sessions_new ttl = \<lparr>st_sessions = [], st_token_ttl = ttl\<rparr>"

definition session_expired_now :: "instant \<Rightarrow> instant \<Rightarrow> bool" where
  "session_expired_now now expires_at \<longleftrightarrow> expires_at < now"

definition session_still_active :: "instant \<Rightarrow> instant \<Rightarrow> bool" where
  "session_still_active expires_at now \<longleftrightarrow> now < expires_at"

definition create_session ::
  "(string \<Rightarrow> digest) \<Rightarrow> instant \<Rightarrow> string \<Rightarrow> user_id \<Rightarrow> session_authenticator \<Rightarrow> string \<times> session_authenticator" where
  "create_session dg now token uid a =
     (token, a\<lparr>st_sessions := hput (dg token)
        \<lparr>se_user_id = uid, se_created_at = now, se_expires_at = now + int (st_token_ttl a), se_last_activity = now\<rparr>
        (st_sessions a)\<rparr>)"

definition validate_session ::
  "(string \<Rightarrow> digest) \<Rightarrow> instant \<Rightarrow> string \<Rightarrow> session_authenticator \<Rightarrow> (user_id, auth_error) result \<times> session_authenticator" where
  "validate_session dg now token a =
     (case hget (st_sessions a) (dg token) of
        None \<Rightarrow> (Err AuInvalidToken, a)
      | Some e \<Rightarrow>
          if session_expired_now now (se_expires_at e) then
            (Err AuInvalidToken, a\<lparr>st_sessions := hdel (dg token) (st_sessions a)\<rparr>)
          else (Ok (se_user_id e), a\<lparr>st_sessions := hput (dg token) (e\<lparr>se_last_activity := now\<rparr>) (st_sessions a)\<rparr>))"

definition invalidate_session :: "(string \<Rightarrow> digest) \<Rightarrow> string \<Rightarrow> session_authenticator \<Rightarrow> session_authenticator" where
  "invalidate_session dg token a = a\<lparr>st_sessions := hdel (dg token) (st_sessions a)\<rparr>"

definition cleanup_expired :: "instant \<Rightarrow> session_authenticator \<Rightarrow> nat \<times> session_authenticator" where
  "cleanup_expired now a =
     (let kept = filter (\<lambda>(_, e). session_still_active (se_expires_at e) now) (st_sessions a)
      in (length (st_sessions a) - length kept, a\<lparr>st_sessions := kept\<rparr>))"

definition active_sessions :: "session_authenticator \<Rightarrow> nat" where
  "active_sessions a = length (st_sessions a)"

definition session_authenticate_agent ::
  "(string \<Rightarrow> digest) \<Rightarrow> instant \<Rightarrow> string \<Rightarrow> workspace_id \<Rightarrow> session_authenticator \<Rightarrow>
     (agent_identity, auth_error) result \<times> session_authenticator" where
  "session_authenticate_agent dg now token wid a =
     (case validate_session dg now token a of
        (Err e, a1) \<Rightarrow> (Err e, a1)
      | (Ok uid, a1) \<Rightarrow> (Ok \<lparr>ai_workspace_id = ''session'', ai_role = ''session:'' @ uid\<rparr>, a1))"

section \<open>OAuth\<close>

record jwt_claims =
  jc_sub :: string
  jc_iss :: string
  jc_aud :: string
  jc_exp :: u64
  jc_role :: "string option"

record oauth_authenticator =
  oa_issuer :: string
  oa_audience :: string

record jwt_payload =
  jp_str :: "string \<Rightarrow> string option"
  jp_u64 :: "string \<Rightarrow> u64 option"

definition decode_jwt :: "(string \<Rightarrow> (jwt_payload, string) result) \<Rightarrow> string \<Rightarrow> (jwt_claims, string) result" where
  "decode_jwt payload token =
     (let parts = split_on (CHR ''.'') token in
      if length parts \<noteq> 3 then Err ''invalid JWT structure''
      else (case payload (parts ! 1) of
        Err e \<Rightarrow> Err e
      | Ok p \<Rightarrow> Ok \<lparr>jc_sub = or_else (jp_str p ''sub'') [], jc_iss = or_else (jp_str p ''iss'') [],
                   jc_aud = or_else (jp_str p ''aud'') [], jc_exp = or_else (jp_u64 p ''exp'') 0, jc_role = jp_str p ''role''\<rparr>))"

definition jwt_is_expired :: "u64 \<Rightarrow> u64 \<Rightarrow> bool" where
  "jwt_is_expired exp now \<longleftrightarrow> exp < now"

definition validate_jwt ::
  "(string \<Rightarrow> (jwt_payload, string) result) \<Rightarrow> u64 \<Rightarrow> oauth_authenticator \<Rightarrow> string \<Rightarrow> (jwt_claims, auth_error) result" where
  "validate_jwt payload now a token =
     (case decode_jwt payload token of
        Err _ \<Rightarrow> Err AuInvalidToken
      | Ok claims \<Rightarrow>
          if jc_iss claims \<noteq> oa_issuer a then Err AuInvalidToken
          else if jc_aud claims \<noteq> oa_audience a then Err AuInvalidToken
          else if jwt_is_expired (jc_exp claims) now then Err AuInvalidToken
          else Ok claims)"

definition oauth_authenticate_agent ::
  "(string \<Rightarrow> (jwt_payload, string) result) \<Rightarrow> u64 \<Rightarrow> oauth_authenticator \<Rightarrow> string \<Rightarrow> workspace_id \<Rightarrow>
     (agent_identity, auth_error) result" where
  "oauth_authenticate_agent payload now a token wid =
     (case validate_jwt payload now a token of
        Err e \<Rightarrow> Err e
      | Ok claims \<Rightarrow> Ok \<lparr>ai_workspace_id = wid, ai_role = or_else (jc_role claims) ''worker''\<rparr>)"

definition oauth_authenticate_human ::
  "(string \<Rightarrow> (jwt_payload, string) result) \<Rightarrow> u64 \<Rightarrow> oauth_authenticator \<Rightarrow> string \<Rightarrow> (user_id, auth_error) result" where
  "oauth_authenticate_human payload now a token =
     (case validate_jwt payload now a token of Err e \<Rightarrow> Err e | Ok claims \<Rightarrow> Ok (jc_sub claims))"

section \<open>Failed attempts are counted per address\<close>

datatype auth_attempt = AtCheck string | AtFailure string

fun attempts_run :: "(instant \<times> auth_attempt) list \<Rightarrow> auth_rate_limiter \<Rightarrow> (unit, auth_error) result list \<times> auth_rate_limiter" where
  "attempts_run [] l = ([], l)"
| "attempts_run ((now, AtFailure ip) # cs) l = attempts_run cs (auth_record_failure now ip l)"
| "attempts_run ((now, AtCheck ip) # cs) l =
     (let (r, l1) = auth_check now ip l; (rs, l2) = attempts_run cs l1 in (r # rs, l2))"

definition attempt_ip :: "auth_attempt \<Rightarrow> string" where
  "attempt_ip a = (case a of AtCheck ip \<Rightarrow> ip | AtFailure ip \<Rightarrow> ip)"

text \<open>The reference keeps every failure.\<close>

fun attempts_spec ::
  "u32 \<Rightarrow> duration \<Rightarrow> (instant \<times> auth_attempt) list \<Rightarrow> (string \<times> instant) list \<Rightarrow> (unit, auth_error) result list" where
  "attempts_spec mx w [] hist = []"
| "attempts_spec mx w ((now, AtFailure ip) # cs) hist = attempts_spec mx w cs (hist @ [(ip, now)])"
| "attempts_spec mx w ((now, AtCheck ip) # cs) hist =
     (if mx \<noteq> 0 \<and> unat mx \<le> count_of (\<lambda>(i, t). i = ip \<and> now - t \<le> int w) hist then Err AuRateLimited else Ok ())
       # attempts_spec mx w cs hist"

definition times_of :: "string \<Rightarrow> (string \<times> instant) list \<Rightarrow> instant list" where
  "times_of ip hist = map snd (filter (\<lambda>(i, _). i = ip) hist)"

definition auth_rep :: "string set \<Rightarrow> instant \<Rightarrow> auth_rate_limiter \<Rightarrow> (string \<times> instant) list \<Rightarrow> bool" where
  "auth_rep ips now l hist \<longleftrightarrow> hmap_ok (al_failures l) \<and> fst ` set (al_failures l) \<subseteq> ips
     \<and> sorted (map snd hist) \<and> (\<forall>x \<in> set hist. snd x \<le> now)
     \<and> (\<forall>ip. \<exists>c \<le> now - int (al_window l).
           (case hget (al_failures l) ip of Some ts \<Rightarrow> ts | None \<Rightarrow> []) = filter (\<lambda>t. c \<le> t) (times_of ip hist))"

lemma sorted_times_of: "sorted (map snd hist) \<Longrightarrow> sorted (times_of ip hist)"
  unfolding times_of_def by (rule sorted_filter)

lemma auth_rep_at:
  assumes "auth_rep ips now l hist"
  obtains c where "c \<le> now - int (al_window l)"
    "(case hget (al_failures l) ip of Some ts \<Rightarrow> ts | None \<Rightarrow> []) = filter (\<lambda>t. c \<le> t) (times_of ip hist)"
  using assms unfolding auth_rep_def by blast

lemma auth_pruned:
  assumes "auth_rep ips now l hist"
  shows "dropWhile (\<lambda>t. is_before_cutoff t (now - int (al_window l))) (case hget (al_failures l) ip of Some ts \<Rightarrow> ts | None \<Rightarrow> [])
    = filter (\<lambda>t. now - int (al_window l) \<le> t) (times_of ip hist)"
proof -
  obtain c where c: "c \<le> now - int (al_window l)"
    and ts: "(case hget (al_failures l) ip of Some ts \<Rightarrow> ts | None \<Rightarrow> []) = filter (\<lambda>t. c \<le> t) (times_of ip hist)"
    using auth_rep_at [OF assms] by blast
  have "sorted (map (\<lambda>t. t) (filter (\<lambda>t. c \<le> t) (times_of ip hist)))"
    using sorted_times_of assms by (simp add: auth_rep_def sorted_wrt_filter)
  from dropWhile_sorted [OF this, of "now - int (al_window l)"]
  show ?thesis using c by (simp add: ts is_before_cutoff_def filter_later del: filter_filter)
qed

lemma count_of_times: "count_of (\<lambda>(i, t). i = ip \<and> now - t \<le> int w) hist = length (filter (\<lambda>t. now - int w \<le> t) (times_of ip hist))"
  by (induction hist) (auto simp: times_of_def)

lemma auth_rep_update:
  assumes "auth_rep ips now l hist" "ip \<in> ips" "sorted (map snd hist')" "\<forall>x \<in> set hist'. snd x \<le> now"
    and "c \<le> now - int (al_window l)" "ts = filter (\<lambda>t. c \<le> t) (times_of ip hist')"
    and "\<And>i. i \<noteq> ip \<Longrightarrow> times_of i hist' = times_of i hist"
  shows "auth_rep ips now (l\<lparr>al_failures := hput ip ts (al_failures l)\<rparr>) hist'"
  unfolding auth_rep_def
proof (intro conjI allI)
  show "hmap_ok (al_failures (l\<lparr>al_failures := hput ip ts (al_failures l)\<rparr>))"
    "fst ` set (al_failures (l\<lparr>al_failures := hput ip ts (al_failures l)\<rparr>)) \<subseteq> ips"
    using assms(1,2) by (auto simp: auth_rep_def keys_hput)
  show "sorted (map snd hist')" "\<forall>x \<in> set hist'. snd x \<le> now" by fact+
  fix i
  show "\<exists>c \<le> now - int (al_window (l\<lparr>al_failures := hput ip ts (al_failures l)\<rparr>)).
    (case hget (al_failures (l\<lparr>al_failures := hput ip ts (al_failures l)\<rparr>)) i of Some ts \<Rightarrow> ts | None \<Rightarrow> [])
      = filter (\<lambda>t. c \<le> t) (times_of i hist')"
  proof (cases "i = ip")
    case True
    then show ?thesis using assms(5,6) by auto
  next
    case False
    then show ?thesis using auth_rep_at [OF assms(1), of i] assms(7) [OF False] by auto
  qed
qed

lemma auth_rep_later:
  assumes "auth_rep ips t l hist" "t \<le> now"
  shows "auth_rep ips now l hist"
  unfolding auth_rep_def
proof (intro conjI allI)
  fix ip
  obtain c where "c \<le> t - int (al_window l)"
    "(case hget (al_failures l) ip of Some ts \<Rightarrow> ts | None \<Rightarrow> []) = filter (\<lambda>t. c \<le> t) (times_of ip hist)"
    using auth_rep_at [OF assms(1)] by blast
  then show "\<exists>c \<le> now - int (al_window l). (case hget (al_failures l) ip of Some ts \<Rightarrow> ts | None \<Rightarrow> []) = filter (\<lambda>t. c \<le> t) (times_of ip hist)"
    using assms(2) by (intro exI [of _ c]) simp
qed (use assms in \<open>auto simp: auth_rep_def\<close>)

lemma auth_check_rep:
  assumes rep: "auth_rep ips now l hist" and mx: "al_max_failures l \<noteq> 0" and ip: "ip \<in> ips"
  shows "fst (auth_check now ip l) =
      (if unat (al_max_failures l) \<le> count_of (\<lambda>(i, t). i = ip \<and> now - t \<le> int (al_window l)) hist then Err AuRateLimited else Ok ())"
    and "auth_rep ips now (snd (auth_check now ip l)) hist"
proof -
  let ?kept = "filter (\<lambda>t. now - int (al_window l) \<le> t) (times_of ip hist)"
  have upd: "auth_rep ips now (l\<lparr>al_failures := hput ip ?kept (al_failures l)\<rparr>) hist"
    using rep ip by (intro auth_rep_update [where c = "now - int (al_window l)"]) (auto simp: auth_rep_def)
  have pos: "0 < unat (al_max_failures l)" using mx by (simp add: unat_gt_0)
  have "fst (auth_check now ip l) = (if unat (al_max_failures l) \<le> length ?kept then Err AuRateLimited else Ok ())
    \<and> auth_rep ips now (snd (auth_check now ip l)) hist"
  proof (cases "hget (al_failures l) ip")
    case None
    with auth_pruned [OF rep, of ip] have "?kept = []" by simp
    then show ?thesis using pos mx rep by (simp add: auth_check_def None)
  next
    case (Some ts)
    with auth_pruned [OF rep, of ip] show ?thesis using upd mx by (simp add: auth_check_def Some Let_def)
  qed
  then show "fst (auth_check now ip l) =
      (if unat (al_max_failures l) \<le> count_of (\<lambda>(i, t). i = ip \<and> now - t \<le> int (al_window l)) hist then Err AuRateLimited else Ok ())"
    and "auth_rep ips now (snd (auth_check now ip l)) hist" by (simp_all add: count_of_times)
qed

lemma tracked_room:
  assumes "auth_rep ips now l hist" "finite ips" "card ips \<le> max_tracked_ips" "ip \<in> ips" "\<not> hhas (al_failures l) ip"
  shows "length (al_failures l) < max_tracked_ips"
proof -
  have "fst ` set (al_failures l) \<subseteq> ips - {ip}" using assms(1,5) hget_None_iff [of "al_failures l" ip]
    by (auto simp: auth_rep_def hhas_def)
  then have "card (fst ` set (al_failures l)) \<le> card (ips - {ip})" using assms(2) by (intro card_mono) auto
  also have "\<dots> < card ips" using assms(2,4) by (rule card_Diff1_less)
  finally show ?thesis using assms(1,3) distinct_card [of "map fst (al_failures l)"]
    by (simp add: auth_rep_def hmap_ok_def)
qed

lemma auth_record_rep:
  assumes rep: "auth_rep ips now l hist" and "finite ips" "card ips \<le> max_tracked_ips" "ip \<in> ips" "al_max_failures l \<noteq> 0"
  shows "auth_rep ips now (auth_record_failure now ip l) (hist @ [(ip, now)])"
proof -
  obtain c where c: "c \<le> now - int (al_window l)"
    and ts: "(case hget (al_failures l) ip of Some ts \<Rightarrow> ts | None \<Rightarrow> []) = filter (\<lambda>t. c \<le> t) (times_of ip hist)"
    using auth_rep_at [OF rep] by blast
  have eq: "auth_record_failure now ip l = l\<lparr>al_failures :=
      hput ip ((case hget (al_failures l) ip of Some ts \<Rightarrow> ts | None \<Rightarrow> []) @ [now]) (al_failures l)\<rparr>"
    using tracked_room [OF rep assms(2-4)] assms(5) by (auto simp: auth_record_failure_def Let_def)
  show ?thesis unfolding eq ts
    by (rule auth_rep_update [OF rep assms(4) _ _ c]) (use rep c in \<open>auto simp: auth_rep_def sorted_append times_of_def\<close>)
qed

lemma attempts_run_spec:
  assumes "auth_rep ips t0 l hist" "al_max_failures l \<noteq> 0" "finite ips" "card ips \<le> max_tracked_ips"
    and "sorted (t0 # map fst cs)" "attempt_ip ` snd ` set cs \<subseteq> ips"
  shows "fst (attempts_run cs l) = attempts_spec (al_max_failures l) (al_window l) cs hist"
  using assms
proof (induction cs arbitrary: l hist t0)
  case (Cons c cs)
  obtain now a where c: "c = (now, a)" by (cases c)
  have rep: "auth_rep ips now l hist" using Cons.prems(1,5) auth_rep_later by (auto simp: c)
  have srt: "sorted (now # map fst cs)" using Cons.prems(5) by (simp add: c)
  have ips: "attempt_ip a \<in> ips" "attempt_ip ` snd ` set cs \<subseteq> ips" using Cons.prems(6) by (auto simp: c)
  show ?case
  proof (cases a)
    case (AtCheck ip)
    note chk = auth_check_rep [OF rep Cons.prems(2), of ip]
    have "al_max_failures (snd (auth_check now ip l)) = al_max_failures l" "al_window (snd (auth_check now ip l)) = al_window l"
      by (auto simp: auth_check_def Let_def split: option.split)
    moreover obtain r l1 where ac: "auth_check now ip l = (r, l1)" by fastforce
    moreover obtain rs l2 where "attempts_run cs l1 = (rs, l2)" by fastforce
    ultimately show ?thesis using chk Cons.IH [OF chk(2) _ Cons.prems(3,4) srt ips(2)] ips(1) Cons.prems(2)
      by (simp add: c AtCheck attempt_ip_def)
  next
    case (AtFailure ip)
    have "auth_rep ips now (auth_record_failure now ip l) (hist @ [(ip, now)])"
      using auth_record_rep [OF rep Cons.prems(3,4) _ Cons.prems(2)] ips(1) by (simp add: AtFailure attempt_ip_def)
    moreover have "al_max_failures (auth_record_failure now ip l) = al_max_failures l"
      "al_window (auth_record_failure now ip l) = al_window l" by (simp_all add: auth_record_failure_def Let_def)
    ultimately show ?thesis using Cons.IH [OF _ _ Cons.prems(3,4) srt ips(2)] Cons.prems(2) by (simp add: c AtFailure)
  qed
qed simp

text \<open>While at most 10000 addresses are seen, for any sequence of checks and failures at times that do not go back,
  an address is refused exactly when it has at least \<open>max_failures\<close> failures of its own within the window: failures
  of other addresses never count against it, and none of its own is forgotten while it is in the window. With a limit
  of 0 nobody is refused.\<close>
theorem auth_limiter_exact:
  assumes "sorted (map fst cs)" "card (attempt_ip ` snd ` set cs) \<le> max_tracked_ips"
  shows "fst (attempts_run cs (auth_limiter_new mx secs)) = attempts_spec mx (1000 * unat secs) cs []"
proof (cases "mx = 0")
  case True
  have off: "fst (attempts_run cs (auth_limiter_new 0 secs)) = attempts_spec 0 (1000 * unat secs) cs hist" for hist
    by (induction "0::u32" "1000 * unat secs" cs hist rule: attempts_spec.induct)
      (auto simp: auth_limiter_new_def auth_record_failure_def auth_check_def Let_def split: prod.splits)
  then show ?thesis by (simp add: True)
next
  case False
  show ?thesis
  proof (cases cs)
    case (Cons c cs')
    then have "sorted (fst c # map fst cs)" using assms(1) by auto
    moreover have "auth_rep (attempt_ip ` snd ` set cs) (fst c) (auth_limiter_new mx secs) []"
      by (auto simp: auth_rep_def auth_limiter_new_def times_of_def)
    ultimately show ?thesis using attempts_run_spec [of _ _ "auth_limiter_new mx secs" "[]" cs] assms(2) False
      by (auto simp: auth_limiter_new_def)
  qed simp
qed

theorem auth_limiter_exact_witness:
  "fst (attempts_run [(0, AtFailure ''a''), (1, AtFailure ''a''), (2, AtCheck ''a''), (2, AtCheck ''b''), (2000, AtCheck ''a'')]
     (auth_limiter_new 2 1)) = [Err AuRateLimited, Ok (), Ok ()]"
proof -
  let ?cs = "[(0, AtFailure ''a''), (1, AtFailure ''a''), (2, AtCheck ''a''), (2, AtCheck ''b''), (2000, AtCheck ''a'')]"
  have "card (attempt_ip ` snd ` set ?cs) \<le> max_tracked_ips"
    by (simp add: attempt_ip_def max_tracked_ips_def card_insert_if)
  from auth_limiter_exact [OF _ this, of 2 1] show ?thesis by (simp del: attempts_run.simps)
qed

section \<open>Lifetime of sessions\<close>

datatype session_op = SoCreate string user_id | SoValidate string | SoLogout string | SoCleanup

definition session_step :: "(string \<Rightarrow> digest) \<Rightarrow> instant \<times> session_op \<Rightarrow> session_authenticator \<Rightarrow> session_authenticator" where
  "session_step dg c a = (case c of (now, ope) \<Rightarrow> (case ope of
       SoCreate token uid \<Rightarrow> snd (create_session dg now token uid a)
     | SoValidate token \<Rightarrow> snd (validate_session dg now token a)
     | SoLogout token \<Rightarrow> invalidate_session dg token a
     | SoCleanup \<Rightarrow> snd (cleanup_expired now a)))"

definition session_run :: "(string \<Rightarrow> digest) \<Rightarrow> (instant \<times> session_op) list \<Rightarrow> session_authenticator \<Rightarrow> session_authenticator" where
  "session_run dg cs a = fold (session_step dg) cs a"

text \<open>The reference: the user and the expiry of every token that was created and not logged out since.\<close>

definition session_note :: "duration \<Rightarrow> instant \<times> session_op \<Rightarrow> (string \<Rightarrow> (user_id \<times> instant) option) \<Rightarrow> string \<Rightarrow> (user_id \<times> instant) option" where
  "session_note ttl c g = (case c of (now, ope) \<Rightarrow> (case ope of
       SoCreate token uid \<Rightarrow> g(token := Some (uid, now + int ttl))
     | SoLogout token \<Rightarrow> g(token := None)
     | _ \<Rightarrow> g))"

definition session_tokens :: "(instant \<times> session_op) list \<Rightarrow> string set" where
  "session_tokens cs = {t. \<exists>now u. (now, SoCreate t u) \<in> set cs \<or> (now, SoValidate t) \<in> set cs \<or> (now, SoLogout t) \<in> set cs}"

definition session_ok :: "instant \<Rightarrow> session_entry option \<Rightarrow> (user_id \<times> instant) option \<Rightarrow> bool" where
  "session_ok now eo n = (case eo of
       None \<Rightarrow> (case n of None \<Rightarrow> True | Some (u, x) \<Rightarrow> x \<le> now)
     | Some e \<Rightarrow> n = Some (se_user_id e, se_expires_at e))"

definition session_rep ::
  "(string \<Rightarrow> digest) \<Rightarrow> string set \<Rightarrow> instant \<Rightarrow> duration \<Rightarrow> session_authenticator \<Rightarrow> (string \<Rightarrow> (user_id \<times> instant) option) \<Rightarrow> bool" where
  "session_rep dg T now ttl a g \<longleftrightarrow> hmap_ok (st_sessions a) \<and> st_token_ttl a = ttl
     \<and> (\<forall>t \<in> T. session_ok now (hget (st_sessions a) (dg t)) (g t))"

lemma session_ok_simps [simp]:
  "session_ok now (Some e) n \<longleftrightarrow> n = Some (se_user_id e, se_expires_at e)" "session_ok now None None"
  "session_ok now None (Some (u, x)) \<longleftrightarrow> x \<le> now"
  by (simp_all add: session_ok_def)

lemma session_ok_later: "session_ok t eo n \<Longrightarrow> t \<le> now \<Longrightarrow> session_ok now eo n"
  by (auto simp: session_ok_def split: option.splits)

lemma session_rep_step:
  assumes rep: "session_rep dg T t0 ttl a g" and inj: "inj_on dg T" and now: "t0 \<le> now" and T: "session_tokens [(now, ope)] \<subseteq> T"
  shows "session_rep dg T now ttl (session_step dg (now, ope) a) (session_note ttl (now, ope) g)"
proof -
  have ok: "hmap_ok (st_sessions a)" "st_token_ttl a = ttl" using rep by (simp_all add: session_rep_def)
  have ent: "session_ok now (hget (st_sessions a) (dg t)) (g t)" if "t \<in> T" for t
    using rep that now session_ok_later by (auto simp: session_rep_def)
  have eq: "dg t = dg u \<longleftrightarrow> t = u" if "t \<in> T" "u \<in> T" for t u using inj that by (auto simp: inj_on_def)
  show ?thesis
  proof (cases ope)
    case (SoCreate token uid)
    then have "token \<in> T" using T by (auto simp: session_tokens_def)
    then show ?thesis using ok ent eq
      by (auto simp: session_rep_def session_step_def session_note_def SoCreate create_session_def)
  next
    case (SoValidate token)
    then have tok: "token \<in> T" using T by (auto simp: session_tokens_def)
    show ?thesis
    proof (cases "hget (st_sessions a) (dg token)")
      case None
      then show ?thesis using ok ent
        by (simp add: session_rep_def session_step_def session_note_def SoValidate validate_session_def)
    next
      case (Some e)
      then have "g token = Some (se_user_id e, se_expires_at e)" using ent [OF tok] by simp
      then show ?thesis using ok ent eq tok Some
        by (auto simp: session_rep_def session_step_def session_note_def SoValidate validate_session_def session_expired_now_def)
    qed
  next
    case (SoLogout token)
    then have "token \<in> T" using T by (auto simp: session_tokens_def)
    then show ?thesis using ok ent eq
      by (auto simp: session_rep_def session_step_def session_note_def SoLogout invalidate_session_def)
  next
    case SoCleanup
    have "session_ok now (hget (filter (\<lambda>(_, e). session_still_active (se_expires_at e) now) (st_sessions a)) (dg t)) (g t)"
      if "t \<in> T" for t
      using ent [OF that] by (cases "hget (st_sessions a) (dg t)") (simp_all add: hget_filter [OF ok(1)] session_still_active_def)
    then show ?thesis using ok
      by (simp add: session_rep_def session_step_def session_note_def SoCleanup cleanup_expired_def Let_def hmap_ok_filter)
  qed
qed

lemma session_run_rep:
  assumes "session_rep dg T t0 ttl a g" "inj_on dg T" "sorted (t0 # map fst cs)" "session_tokens cs \<subseteq> T"
  shows "session_rep dg T (last (t0 # map fst cs)) ttl (session_run dg cs a) (fold (session_note ttl) cs g)"
  using assms
proof (induction cs arbitrary: a g t0)
  case Nil
  then show ?case by (simp add: session_run_def)
next
  case (Cons c cs)
  obtain now ope where c: "c = (now, ope)" by (cases c)
  have "session_tokens [(now, ope)] \<subseteq> T" "session_tokens cs \<subseteq> T" using Cons.prems(4) by (auto simp: session_tokens_def c)
  moreover have "t0 \<le> now" "sorted (now # map fst cs)" using Cons.prems(3) by (simp_all add: c)
  ultimately show ?case using Cons.IH [OF session_rep_step [OF Cons.prems(1,2)] Cons.prems(2)]
    by (simp add: c session_run_def)
qed



section \<open>Who is let in\<close>

text \<open>Revoking a workspace locks out exactly its agents.\<close>

lemma psk_revoke_exact:
  assumes "hmap_ok (ps_agent_tokens a)"
  shows "psk_authenticate_agent (psk_revoke_agent wid a) token wid = Err AuInvalidToken
      \<or> psk_authenticate_agent (psk_revoke_agent wid a) token wid = Err AuWorkspaceMismatch"
    and "w \<noteq> wid \<Longrightarrow> psk_authenticate_agent a token w = Ok i \<Longrightarrow> psk_authenticate_agent (psk_revoke_agent wid a) token w = Ok i"
  using assms by (auto simp: psk_authenticate_agent_def psk_revoke_agent_def hget_filter split: option.splits if_splits)

text \<open>
  The rate limiter an API-key authenticator is created with is never consulted. A session token, meant for humans,
  authenticates an agent for any workspace, as a workspace of its own; a valid JWT authenticates an agent for every
  workspace.
\<close>

theorem api_keys_not_limited: "fst (api_authenticate_agent dg now token wid a) \<noteq> Err AuRateLimited"
  by (simp add: api_authenticate_agent_def split: option.split)

theorem session_token_as_agent:
  assumes "fst (validate_session dg now token a) = Ok uid"
  shows "fst (session_authenticate_agent dg now token wid a) = Ok \<lparr>ai_workspace_id = ''session'', ai_role = ''session:'' @ uid\<rparr>"
  using assms by (auto simp: session_authenticate_agent_def split: prod.splits result.splits)

theorem oauth_any_workspace:
  assumes "validate_jwt payload now a token = Ok claims"
  shows "\<exists>r. oauth_authenticate_agent payload now a token wid = Ok \<lparr>ai_workspace_id = wid, ai_role = r\<rparr>"
  using assms by (simp add: oauth_authenticate_agent_def)

end
