(* ===== verification/Wacp_Fsm.thy ===== *)
theory Wacp_Fsm
  imports Wacp_Types
begin

text \<open>
  The state machine engine (crate \<open>wacp-fsm\<close>): the trait \<open>StateMachine\<close> as the locale
  \<open>state_machine\<close>, and its three instances, the workspace (9 states), envelope (5) and task
  (8) lifecycles, as total functions into \<open>Ok\<close> of the next state or \<open>Err\<close> of the
  transition error. The locale's lemmas are about sequences of triggers: a terminal state
  never changes, and every state passed through is reachable by legal transitions.
\<close>

section \<open>Errors and the trait\<close>

datatype transition_error =
  IllegalTransition string string
| TerminalState string

text \<open>
  Feeding a machine a sequence of triggers the way its owners do: a rejected trigger
  leaves the state as it is (\<open>WorkspaceActor::transition\<close>, \<open>TaskGraph::transition\<close>).
\<close>

definition attempt :: "('s \<Rightarrow> 't \<Rightarrow> ('s, 'e) result) \<Rightarrow> 's \<Rightarrow> 't \<Rightarrow> 's" where
  "attempt tr s t = (case tr s t of Ok s' \<Rightarrow> s' | Err _ \<Rightarrow> s)"

definition attempts :: "('s \<Rightarrow> 't \<Rightarrow> ('s, 'e) result) \<Rightarrow> 's \<Rightarrow> 't list \<Rightarrow> 's" where
  "attempts tr s ts = foldl (attempt tr) s ts"

text \<open>The states such a run passes through, the first one included.\<close>

primrec visited :: "('s \<Rightarrow> 't \<Rightarrow> ('s, 'e) result) \<Rightarrow> 's \<Rightarrow> 't list \<Rightarrow> 's list" where
  "visited tr s [] = [s]"
| "visited tr s (t # ts) = s # visited tr (attempt tr s t) ts"

inductive legal_step :: "('s \<Rightarrow> 't \<Rightarrow> ('s, 'e) result) \<Rightarrow> 's \<Rightarrow> 's \<Rightarrow> bool" for tr where
  legal: "tr s t = Ok s' \<Longrightarrow> legal_step tr s s'"

inductive_cases legal_stepE: "legal_step tr s s'"

locale state_machine =
  fixes transition :: "'s \<Rightarrow> 't \<Rightarrow> ('s, transition_error) result"
    and terminal :: "'s \<Rightarrow> bool"
    and show_state :: "'s \<Rightarrow> string"
  assumes terminal_rejects: "terminal s \<Longrightarrow> transition s t = Err (TerminalState (show_state s))"
    and terminal_error_only: "\<not> terminal s \<Longrightarrow> transition s t \<noteq> Err (TerminalState x)"
begin

lemma terminal_stuck: "terminal s \<Longrightarrow> \<not> legal_step transition s s'"
  by (auto elim: legal_stepE simp: terminal_rejects)

lemma attempt_terminal: "terminal s \<Longrightarrow> attempt transition s t = s"
  by (simp add: attempt_def terminal_rejects)

lemma attempts_terminal: "terminal s \<Longrightarrow> attempts transition s ts = s"
  unfolding attempts_def by (induction ts) (simp_all add: attempt_terminal)

lemma attempt_reach: "(legal_step transition)\<^sup>*\<^sup>* s (attempt transition s t)"
  by (auto simp: attempt_def split: result.splits intro: legal_step.intros)

lemma attempts_reach: "(legal_step transition)\<^sup>*\<^sup>* s (attempts transition s ts)"
  unfolding attempts_def
proof (induction ts arbitrary: s)
  case (Cons t ts)
  have "(legal_step transition)\<^sup>*\<^sup>* s (attempt transition s t)" by (rule attempt_reach)
  also have "(legal_step transition)\<^sup>*\<^sup>* \<dots> (foldl (attempt transition) (attempt transition s t) ts)"
    by (rule Cons)
  finally show ?case by simp
qed simp

text \<open>A run that leaves a region whose only exit is the state \<open>m\<close> passes through \<open>m\<close>.\<close>

lemma must_pass:
  assumes exit: "\<And>s t s'. R s \<Longrightarrow> transition s t = Ok s' \<Longrightarrow> R s' \<or> s' = m"
    and "R s" "\<not> R (attempts transition s ts)"
  shows "m \<in> set (visited transition s ts)"
  using assms(2,3)
proof (induction ts arbitrary: s)
  case (Cons t ts)
  have step: "R (attempt transition s t) \<or> attempt transition s t = m"
    using exit [OF Cons.prems(1), of t] Cons.prems(1) by (auto simp: attempt_def split: result.splits)
  have "m \<in> set (visited transition m ts)" by (cases ts) simp_all
  with step Cons.IH [of "attempt transition s t"] Cons.prems(2) show ?case
    by (auto simp: attempts_def)
qed (simp add: attempts_def)

lemma terminal_error_iff: "transition s t = Err (TerminalState (show_state s)) \<longleftrightarrow> terminal s"
  using terminal_rejects terminal_error_only by blast

lemma reach_from_terminal: "(legal_step transition)\<^sup>*\<^sup>* s s' \<Longrightarrow> terminal s \<Longrightarrow> s' = s"
  by (erule converse_rtranclpE) (auto dest: terminal_stuck)

end

section \<open>Envelope lifecycle\<close>

datatype envelope_trigger = Submit | ValidationPassed | ValidationFailed | Deliver | Acknowledge

fun show_envelope_trigger :: "envelope_trigger \<Rightarrow> string" where
  "show_envelope_trigger Submit = ''Submit''"
| "show_envelope_trigger ValidationPassed = ''ValidationPassed''"
| "show_envelope_trigger ValidationFailed = ''ValidationFailed''"
| "show_envelope_trigger Deliver = ''Deliver''"
| "show_envelope_trigger Acknowledge = ''Acknowledge''"

definition envelope_terminal :: "envelope_state \<Rightarrow> bool" where
  "envelope_terminal s = (s \<in> {EsAcknowledged, EsRejected})"

definition envelope_transition ::
  "envelope_state \<Rightarrow> envelope_trigger \<Rightarrow> (envelope_state, transition_error) result" where
  "envelope_transition state trigger =
     (if envelope_terminal state then Err (TerminalState (show_es state))
      else case (state, trigger) of
        (EsCreated, ValidationPassed) \<Rightarrow> Ok EsValidated
      | (EsCreated, ValidationFailed) \<Rightarrow> Ok EsRejected
      | (EsValidated, Deliver) \<Rightarrow> Ok EsDelivered
      | (EsDelivered, Acknowledge) \<Rightarrow> Ok EsAcknowledged
      | _ \<Rightarrow> Err (IllegalTransition (show_es state) (show_envelope_trigger trigger)))"

section \<open>Task lifecycle\<close>

datatype task_trigger =
  TtApprove | TtAssign | TtStart | TtComplete | TtFail | TtIntegrate | TtCancel

fun show_task_trigger :: "task_trigger \<Rightarrow> string" where
  "show_task_trigger TtApprove = ''Approve''"
| "show_task_trigger TtAssign = ''Assign''"
| "show_task_trigger TtStart = ''Start''"
| "show_task_trigger TtComplete = ''Complete''"
| "show_task_trigger TtFail = ''Fail''"
| "show_task_trigger TtIntegrate = ''Integrate''"
| "show_task_trigger TtCancel = ''Cancel''"

definition task_terminal :: "task_status \<Rightarrow> bool" where
  "task_terminal s = (s \<in> {TsIntegrated, TsCancelled})"

definition task_transition ::
  "task_status \<Rightarrow> task_trigger \<Rightarrow> (task_status, transition_error) result" where
  "task_transition state trigger =
     (if task_terminal state then Err (TerminalState (show_ts state))
      else case (state, trigger) of
        (TsDraft, TtApprove) \<Rightarrow> Ok TsPending
      | (TsDraft, TtCancel) \<Rightarrow> Ok TsCancelled
      | (TsPending, TtAssign) \<Rightarrow> Ok TsAssigned
      | (TsPending, TtCancel) \<Rightarrow> Ok TsCancelled
      | (TsAssigned, TtStart) \<Rightarrow> Ok TsInProgress
      | (TsAssigned, TtCancel) \<Rightarrow> Ok TsCancelled
      | (TsInProgress, TtComplete) \<Rightarrow> Ok TsCompleted
      | (TsInProgress, TtFail) \<Rightarrow> Ok TsFailed
      | (TsInProgress, TtCancel) \<Rightarrow> Ok TsCancelled
      | (TsCompleted, TtIntegrate) \<Rightarrow> Ok TsIntegrated
      | (TsCompleted, TtFail) \<Rightarrow> Ok TsFailed
      | (TsFailed, TtAssign) \<Rightarrow> Ok TsAssigned
      | _ \<Rightarrow> Err (IllegalTransition (show_ts state) (show_task_trigger trigger)))"

section \<open>Workspace lifecycle\<close>

datatype workspace_trigger =
  AgentReady | AgentStarted | AgentBlocked | AgentComplete | AgentFailed
| ReceiveFirstEnvelope | CoordinatorAbort | CoordinatorSuspend | CoordinatorResume
| CoordinatorMigrate | MigrationSucceeded | MigrationSucceededBlocked | MigrationFailed
| IntegrationSucceeded | IntegrationFailed | ConflictDetected | ConflictResolved
| ConflictUnresolvable | TimeoutExceeded | BudgetExceeded | CreationError

fun show_workspace_trigger :: "workspace_trigger \<Rightarrow> string" where
  "show_workspace_trigger AgentReady = ''AgentReady''"
| "show_workspace_trigger AgentStarted = ''AgentStarted''"
| "show_workspace_trigger AgentBlocked = ''AgentBlocked''"
| "show_workspace_trigger AgentComplete = ''AgentComplete''"
| "show_workspace_trigger AgentFailed = ''AgentFailed''"
| "show_workspace_trigger ReceiveFirstEnvelope = ''ReceiveFirstEnvelope''"
| "show_workspace_trigger CoordinatorAbort = ''CoordinatorAbort''"
| "show_workspace_trigger CoordinatorSuspend = ''CoordinatorSuspend''"
| "show_workspace_trigger CoordinatorResume = ''CoordinatorResume''"
| "show_workspace_trigger CoordinatorMigrate = ''CoordinatorMigrate''"
| "show_workspace_trigger MigrationSucceeded = ''MigrationSucceeded''"
| "show_workspace_trigger MigrationSucceededBlocked = ''MigrationSucceededBlocked''"
| "show_workspace_trigger MigrationFailed = ''MigrationFailed''"
| "show_workspace_trigger IntegrationSucceeded = ''IntegrationSucceeded''"
| "show_workspace_trigger IntegrationFailed = ''IntegrationFailed''"
| "show_workspace_trigger ConflictDetected = ''ConflictDetected''"
| "show_workspace_trigger ConflictResolved = ''ConflictResolved''"
| "show_workspace_trigger ConflictUnresolvable = ''ConflictUnresolvable''"
| "show_workspace_trigger TimeoutExceeded = ''TimeoutExceeded''"
| "show_workspace_trigger BudgetExceeded = ''BudgetExceeded''"
| "show_workspace_trigger CreationError = ''CreationError''"

definition workspace_transition ::
  "workspace_state \<Rightarrow> workspace_trigger \<Rightarrow> (workspace_state, transition_error) result" where
  "workspace_transition state trigger =
     (let illegal = Err (IllegalTransition (show_ws state) (show_workspace_trigger trigger)) in
      if is_terminal state then Err (TerminalState (show_ws state))
      else case state of
        WsIdle \<Rightarrow>
          (if trigger = ReceiveFirstEnvelope then Ok WsActive
           else if trigger \<in> {CreationError, TimeoutExceeded, CoordinatorAbort, BudgetExceeded}
           then Ok WsFailed else illegal)
      | WsActive \<Rightarrow>
          (if trigger = AgentBlocked then Ok WsBlocked
           else if trigger = CoordinatorMigrate then Ok WsMigrating
           else if trigger = CoordinatorSuspend then Ok WsSuspended
           else if trigger = AgentComplete then Ok WsIntegrating
           else if trigger \<in> {AgentFailed, CoordinatorAbort, TimeoutExceeded, BudgetExceeded}
           then Ok WsFailed else illegal)
      | WsBlocked \<Rightarrow>
          (if trigger = AgentStarted then Ok WsActive
           else if trigger = CoordinatorMigrate then Ok WsMigrating
           else if trigger = CoordinatorSuspend then Ok WsSuspended
           else if trigger \<in> {CoordinatorAbort, TimeoutExceeded, BudgetExceeded}
           then Ok WsFailed else illegal)
      | WsMigrating \<Rightarrow>
          (if trigger = MigrationSucceeded then Ok WsActive
           else if trigger = MigrationSucceededBlocked then Ok WsBlocked
           else if trigger \<in> {MigrationFailed, CoordinatorAbort} then Ok WsFailed else illegal)
      | WsSuspended \<Rightarrow>
          (if trigger = CoordinatorResume then Ok WsActive
           else if trigger = CoordinatorAbort then Ok WsFailed else illegal)
      | WsIntegrating \<Rightarrow>
          (if trigger = IntegrationSucceeded then Ok WsClosed
           else if trigger = ConflictDetected then Ok WsConflicted
           else if trigger = IntegrationFailed then Ok WsFailed else illegal)
      | WsConflicted \<Rightarrow>
          (if trigger = ConflictResolved then Ok WsClosed
           else if trigger = ConflictUnresolvable then Ok WsFailed else illegal)
      | _ \<Rightarrow> illegal)"

section \<open>The three instances\<close>

interpretation env_fsm: state_machine envelope_transition envelope_terminal show_es
  by unfold_locales
    (auto simp: envelope_transition_def envelope_terminal_def
      split: envelope_state.splits envelope_trigger.splits)

interpretation task_fsm: state_machine task_transition task_terminal show_ts
  by unfold_locales
    (auto simp: task_transition_def task_terminal_def
      split: task_status.splits task_trigger.splits)

interpretation ws_fsm: state_machine workspace_transition is_terminal show_ws
proof unfold_locales
  fix s t x
  show "is_terminal s \<Longrightarrow> workspace_transition s t = Err (TerminalState (show_ws s))"
    by (simp add: workspace_transition_def)
  show "\<not> is_terminal s \<Longrightarrow> workspace_transition s t \<noteq> Err (TerminalState x)"
    by (cases s) (simp_all add: workspace_transition_def is_terminal_def)
qed

section \<open>What the lifecycles guarantee\<close>

text \<open>A workspace that ends closed has done its work and been integrated: every run of triggers
  from \<open>Idle\<close> to \<open>Closed\<close>, with rejected triggers in between, passes through \<open>Active\<close> and
  \<open>Integrating\<close>.\<close>

theorem workspace_closed_path:
  assumes "attempts workspace_transition WsIdle ts = WsClosed"
  shows "WsActive \<in> set (visited workspace_transition WsIdle ts)
       \<and> WsIntegrating \<in> set (visited workspace_transition WsIdle ts)"
proof
  show "WsActive \<in> set (visited workspace_transition WsIdle ts)"
    by (rule ws_fsm.must_pass [where R = "\<lambda>s. s \<in> {WsIdle, WsFailed}"])
      (use assms in \<open>auto simp: workspace_transition_def is_terminal_def split: if_splits\<close>)
  show "WsIntegrating \<in> set (visited workspace_transition WsIdle ts)"
    by (rule ws_fsm.must_pass
          [where R = "\<lambda>s. s \<in> {WsIdle, WsFailed, WsActive, WsBlocked, WsSuspended, WsMigrating}"])
      (use assms in \<open>auto simp: workspace_transition_def is_terminal_def split: if_splits\<close>)
qed

theorem workspace_closed_path_witness:
  "attempts workspace_transition WsIdle
     [ReceiveFirstEnvelope, AgentReady, AgentBlocked, AgentStarted, AgentComplete, ConflictDetected, ConflictResolved]
     = WsClosed
   \<and> WsIntegrating \<in> set (visited workspace_transition WsIdle
     [ReceiveFirstEnvelope, AgentReady, AgentBlocked, AgentStarted, AgentComplete, ConflictDetected, ConflictResolved])"
proof -
  have "attempts workspace_transition WsIdle
     [ReceiveFirstEnvelope, AgentReady, AgentBlocked, AgentStarted, AgentComplete, ConflictDetected, ConflictResolved]
     = WsClosed" by (simp add: attempts_def attempt_def workspace_transition_def is_terminal_def)
  with workspace_closed_path show ?thesis by blast
qed

text \<open>A task is integrated only after it was assigned, started and completed: every run of
  triggers from \<open>Draft\<close> that ends in \<open>Integrated\<close> passes through the three states.\<close>

theorem task_integrated_path:
  assumes "attempts task_transition TsDraft ts = TsIntegrated"
  shows "TsAssigned \<in> set (visited task_transition TsDraft ts)
       \<and> TsInProgress \<in> set (visited task_transition TsDraft ts)
       \<and> TsCompleted \<in> set (visited task_transition TsDraft ts)"
proof (intro conjI)
  show "TsAssigned \<in> set (visited task_transition TsDraft ts)"
    by (rule task_fsm.must_pass [where R = "\<lambda>s. s \<in> {TsDraft, TsPending, TsCancelled}"])
      (use assms in \<open>auto simp: task_transition_def task_terminal_def split: task_trigger.splits\<close>)
  show "TsInProgress \<in> set (visited task_transition TsDraft ts)"
    by (rule task_fsm.must_pass [where R = "\<lambda>s. s \<in> {TsDraft, TsPending, TsAssigned, TsCancelled}"])
      (use assms in \<open>auto simp: task_transition_def task_terminal_def split: task_trigger.splits\<close>)
  show "TsCompleted \<in> set (visited task_transition TsDraft ts)"
    by (rule task_fsm.must_pass
          [where R = "\<lambda>s. s \<in> {TsDraft, TsPending, TsAssigned, TsInProgress, TsFailed, TsCancelled}"])
      (use assms in \<open>auto simp: task_transition_def task_terminal_def split: task_trigger.splits\<close>)
qed

theorem task_integrated_path_witness:
  "attempts task_transition TsDraft
     [TtApprove, TtAssign, TtStart, TtFail, TtAssign, TtStart, TtComplete, TtIntegrate] = TsIntegrated
   \<and> TsCompleted \<in> set (visited task_transition TsDraft
     [TtApprove, TtAssign, TtStart, TtFail, TtAssign, TtStart, TtComplete, TtIntegrate])"
proof -
  have "attempts task_transition TsDraft
     [TtApprove, TtAssign, TtStart, TtFail, TtAssign, TtStart, TtComplete, TtIntegrate] = TsIntegrated"
    by (simp add: attempts_def attempt_def task_transition_def task_terminal_def)
  with task_integrated_path show ?thesis by blast
qed

text \<open>C14. No lifecycle has a dead end, and every end is final. From every state of a workspace, task or
  envelope some triggers lead to a terminal state, and from a terminal state no sequence of
  triggers leads anywhere else.\<close>

theorem lifecycles_end:
  "(\<exists>ts. is_terminal (attempts workspace_transition w ts))
   \<and> (\<exists>ts. task_terminal (attempts task_transition t ts))
   \<and> (\<exists>ts. envelope_terminal (attempts envelope_transition e ts))
   \<and> attempts workspace_transition WsClosed wts = WsClosed
   \<and> attempts workspace_transition WsFailed wts = WsFailed
   \<and> attempts task_transition TsIntegrated tts = TsIntegrated
   \<and> attempts task_transition TsCancelled tts = TsCancelled
   \<and> attempts envelope_transition EsAcknowledged ets = EsAcknowledged
   \<and> attempts envelope_transition EsRejected ets = EsRejected"
proof (intro conjI)
  show "\<exists>ts. is_terminal (attempts workspace_transition w ts)"
    by (rule exI [of _ "[IntegrationFailed, ConflictUnresolvable, CoordinatorAbort]"], cases w)
      (simp_all add: attempts_def attempt_def workspace_transition_def is_terminal_def)
  show "\<exists>ts. task_terminal (attempts task_transition t ts)"
    by (rule exI [of _ "[TtIntegrate, TtAssign, TtCancel]"], cases t)
      (simp_all add: attempts_def attempt_def task_transition_def task_terminal_def)
  show "\<exists>ts. envelope_terminal (attempts envelope_transition e ts)"
    by (rule exI [of _ "[ValidationPassed, Deliver, Acknowledge]"], cases e)
      (simp_all add: attempts_def attempt_def envelope_transition_def envelope_terminal_def)
qed (simp_all add: ws_fsm.attempts_terminal task_fsm.attempts_terminal env_fsm.attempts_terminal
      is_terminal_def task_terminal_def envelope_terminal_def)

end
