(* ===== verification/Wacp_Tree.thy ===== *)
theory Wacp_Tree
  imports Wacp_Fsm "HOL-Library.Multiset"
begin

text \<open>
  The workspace tree of the coordinator (\<open>wacp-coordinator/src/tree.rs\<close>): a flat table of
  nodes with parent and child links and two derived indices, by originator and by owner.
  An operation that takes \<open>&mut self\<close> returns its result paired with the new tree. The two
  loops that follow links (\<open>descendants\<close>, \<open>parent_chain\<close>) are partial functions, \<open>None\<close>
  meaning that the loop does not return; on a well-formed tree they are shown to return.
\<close>

section \<open>Data\<close>

datatype tree_error =
  ParentNotFound string | DuplicateNode string | NodeNotFound string | SameOwner

record workspace_node =
  n_id :: workspace_id
  n_parent :: "workspace_id option"
  n_children :: "workspace_id list"
  n_owner :: user_id
  n_originator :: originator
  n_status :: workspace_state
  n_task_id :: "task_id option"

type_synonym node_table = "(workspace_id, workspace_node) hmap"

record workspace_tree =
  tr_nodes :: node_table
  tr_root :: workspace_id
  tr_originator_index :: "(originator, workspace_id list) hmap"
  tr_owner_index :: "(user_id, workspace_id list) hmap"

section \<open>Operations\<close>

definition tree_new :: "workspace_id \<Rightarrow> user_id \<Rightarrow> workspace_tree" where
  "tree_new root_id owner =
     (let node = \<lparr>n_id = root_id, n_parent = None, n_children = [], n_owner = owner,
                  n_originator = System, n_status = WsActive, n_task_id = None\<rparr>
      in \<lparr>tr_nodes = hput root_id node [], tr_root = root_id,
          tr_originator_index = hpush System root_id [],
          tr_owner_index = hpush owner root_id []\<rparr>)"

definition tree_insert ::
  "workspace_node \<Rightarrow> workspace_tree \<Rightarrow> (unit, tree_error) result \<times> workspace_tree" where
  "tree_insert node t =
     (if hhas (tr_nodes t) (n_id node) then (Err (DuplicateNode (n_id node)), t)
      else case n_parent node of
        None \<Rightarrow> (Err (ParentNotFound ''None''), t)
      | Some p \<Rightarrow>
          if \<not> hhas (tr_nodes t) p then (Err (ParentNotFound p), t)
          else (Ok (), t\<lparr>
            tr_nodes := hupd p (\<lambda>n. n\<lparr>n_children := n_children n @ [n_id node]\<rparr>)
                          (hput (n_id node) node (tr_nodes t)),
            tr_originator_index := hpush (n_originator node) (n_id node) (tr_originator_index t),
            tr_owner_index := hpush (n_owner node) (n_id node) (tr_owner_index t)\<rparr>))"

definition tree_get :: "workspace_tree \<Rightarrow> workspace_id \<Rightarrow> workspace_node option" where
  "tree_get t wid = hget (tr_nodes t) wid"

definition children :: "workspace_tree \<Rightarrow> workspace_id \<Rightarrow> workspace_id list" where
  "children t wid = (case hget (tr_nodes t) wid of None \<Rightarrow> [] | Some n \<Rightarrow> n_children n)"

definition siblings :: "workspace_tree \<Rightarrow> workspace_id \<Rightarrow> workspace_id list" where
  "siblings t wid =
     (case hget (tr_nodes t) wid of
        None \<Rightarrow> []
      | Some node \<Rightarrow> (case n_parent node of
          None \<Rightarrow> []
        | Some p \<Rightarrow> (case hget (tr_nodes t) p of
            None \<Rightarrow> []
          | Some pn \<Rightarrow> filter (\<lambda>c. c \<noteq> wid) (n_children pn))))"

partial_function (option) descendants_loop ::
  "node_table \<Rightarrow> workspace_id list \<Rightarrow> workspace_id list \<Rightarrow> workspace_id list option" where
  "descendants_loop m queue result =
     (case queue of
        [] \<Rightarrow> Some result
      | current # queue' \<Rightarrow>
          (case hget m current of
             None \<Rightarrow> descendants_loop m queue' result
           | Some node \<Rightarrow>
               descendants_loop m (queue' @ n_children node) (result @ n_children node)))"

definition descendants :: "workspace_tree \<Rightarrow> workspace_id \<Rightarrow> workspace_id list option" where
  "descendants t wid = descendants_loop (tr_nodes t) [wid] []"

partial_function (option) parent_chain_loop ::
  "node_table \<Rightarrow> workspace_id \<Rightarrow> workspace_id list \<Rightarrow> workspace_id list option" where
  "parent_chain_loop m current chain =
     (case hget m current of
        None \<Rightarrow> Some chain
      | Some node \<Rightarrow>
          (case n_parent node of
             None \<Rightarrow> Some chain
           | Some p \<Rightarrow> parent_chain_loop m p (chain @ [p])))"

definition parent_chain :: "workspace_tree \<Rightarrow> workspace_id \<Rightarrow> workspace_id list option" where
  "parent_chain t wid = parent_chain_loop (tr_nodes t) wid []"

definition by_originator :: "workspace_tree \<Rightarrow> originator \<Rightarrow> workspace_id list" where
  "by_originator t og = hlist (tr_originator_index t) og"

definition by_owner :: "workspace_tree \<Rightarrow> user_id \<Rightarrow> workspace_id list" where
  "by_owner t u = hlist (tr_owner_index t) u"

definition causal_descendants ::
  "workspace_tree \<Rightarrow> workspace_id \<Rightarrow> originator \<Rightarrow> workspace_id list option" where
  "causal_descendants t wid og =
     map_option (filter (\<lambda>d. d \<in> set (by_originator t og))) (descendants t wid)"

definition transfer_owner ::
  "workspace_id \<Rightarrow> user_id \<Rightarrow> workspace_tree \<Rightarrow> (user_id, tree_error) result \<times> workspace_tree"
where
  "transfer_owner wid new_owner t =
     (case hget (tr_nodes t) wid of
        None \<Rightarrow> (Err (NodeNotFound wid), t)
      | Some node \<Rightarrow>
          if n_owner node = new_owner then (Err SameOwner, t)
          else (Ok (n_owner node), t\<lparr>
            tr_nodes := hput wid (node\<lparr>n_owner := new_owner\<rparr>) (tr_nodes t),
            tr_owner_index :=
              hpush new_owner wid (hupd (n_owner node) (filter (\<lambda>w. w \<noteq> wid)) (tr_owner_index t))\<rparr>))"

definition update_status :: "workspace_id \<Rightarrow> workspace_state \<Rightarrow> workspace_tree \<Rightarrow> workspace_tree"
where
  "update_status wid s t = t\<lparr>tr_nodes := hupd wid (\<lambda>n. n\<lparr>n_status := s\<rparr>) (tr_nodes t)\<rparr>"

definition reparent :: "workspace_id \<Rightarrow> workspace_id \<Rightarrow> workspace_tree \<Rightarrow> workspace_tree" where
  "reparent child new_parent t =
     (let m0 = tr_nodes t;
          m1 = (case hget m0 child of
                  None \<Rightarrow> m0
                | Some node \<Rightarrow> (case n_parent node of
                    None \<Rightarrow> m0
                  | Some old_parent \<Rightarrow>
                      hupd old_parent (\<lambda>pn. pn\<lparr>n_children := filter (\<lambda>c. c \<noteq> child) (n_children pn)\<rparr>) m0));
          m2 = hupd child (\<lambda>n. n\<lparr>n_parent := Some new_parent\<rparr>) m1;
          m3 = hupd new_parent (\<lambda>pn. if child \<in> set (n_children pn) then pn
                                      else pn\<lparr>n_children := n_children pn @ [child]\<rparr>) m2
      in t\<lparr>tr_nodes := m3\<rparr>)"

primrec cascade_loop ::
  "user_id \<Rightarrow> workspace_id list \<Rightarrow> workspace_id list \<Rightarrow> workspace_tree
     \<Rightarrow> workspace_id list \<times> workspace_tree" where
  "cascade_loop owner [] reparented t = (reparented, t)"
| "cascade_loop owner (c # cs) reparented t =
     (case hget (tr_nodes t) c of
        None \<Rightarrow> cascade_loop owner cs reparented t
      | Some n \<Rightarrow>
          if n_owner n = owner then cascade_loop owner cs reparented (update_status c WsFailed t)
          else cascade_loop owner cs (reparented @ [c]) (reparent c (tr_root t) t))"

definition cascade_failure ::
  "workspace_id \<Rightarrow> workspace_tree \<Rightarrow> (workspace_id list \<times> workspace_tree) option" where
  "cascade_failure wid t =
     (case hget (tr_nodes t) wid of
        None \<Rightarrow> Some ([], t)
      | Some n \<Rightarrow>
          let t1 = update_status wid WsFailed t
          in case descendants t1 wid of
               None \<Rightarrow> None
             | Some desc \<Rightarrow> Some (cascade_loop (n_owner n) desc [] t1))"

definition causal_impact :: "workspace_tree \<Rightarrow> user_id \<Rightarrow> workspace_id list" where
  "causal_impact t u =
     filter (\<lambda>wid. case hget (tr_nodes t) wid of None \<Rightarrow> False | Some n \<Rightarrow> \<not> is_terminal (n_status n))
       (by_originator t (User u))"

definition is_causal_boundary :: "workspace_tree \<Rightarrow> workspace_id \<Rightarrow> bool" where
  "is_causal_boundary t wid =
     (case hget (tr_nodes t) wid of
        None \<Rightarrow> False
      | Some node \<Rightarrow> (case n_parent node of
          None \<Rightarrow> False
        | Some p \<Rightarrow> (case hget (tr_nodes t) p of
            None \<Rightarrow> False
          | Some pn \<Rightarrow> n_originator node \<noteq> n_originator pn)))"

definition active_workspaces :: "workspace_tree \<Rightarrow> workspace_id list" where
  "active_workspaces t = map n_id (filter (\<lambda>n. \<not> is_terminal (n_status n)) (hvals (tr_nodes t)))"

section \<open>The tree invariant\<close>

definition par :: "workspace_tree \<Rightarrow> workspace_id \<Rightarrow> workspace_id option" where
  "par t wid = (case hget (tr_nodes t) wid of None \<Rightarrow> None | Some n \<Rightarrow> n_parent n)"

text \<open>
  Links: the root has no parent, every other node has one in the table, parent and child
  links mirror each other, a child is listed once, and ranks increase from parent to child
  (so there is no cycle). Indices: each lists exactly the nodes with that key, once.
\<close>

definition links_ok :: "workspace_tree \<Rightarrow> bool" where
  "links_ok t \<longleftrightarrow>
     hmap_ok (tr_nodes t)
   \<and> (\<forall>k n. hget (tr_nodes t) k = Some n \<longrightarrow> n_id n = k)
   \<and> hhas (tr_nodes t) (tr_root t) \<and> par t (tr_root t) = None
   \<and> (\<forall>k. hhas (tr_nodes t) k \<longrightarrow> k \<noteq> tr_root t \<longrightarrow> par t k \<noteq> None)
   \<and> (\<forall>p c. c \<in> set (children t p) \<longleftrightarrow> par t c = Some p)
   \<and> (\<forall>p. distinct (children t p))
   \<and> (\<exists>rank :: workspace_id \<Rightarrow> nat. \<forall>c p. par t c = Some p \<longrightarrow> rank p < rank c)"

definition indices_ok :: "workspace_tree \<Rightarrow> bool" where
  "indices_ok t \<longleftrightarrow> mirrors (tr_owner_index t) (tr_nodes t) n_owner
                \<and> mirrors (tr_originator_index t) (tr_nodes t) n_originator"

definition tree_inv :: "workspace_tree \<Rightarrow> bool" where
  "tree_inv t \<longleftrightarrow> links_ok t \<and> indices_ok t"

lemma links_okD:
  assumes "links_ok t"
  shows "hmap_ok (tr_nodes t)"
    and "hget (tr_nodes t) k = Some n \<Longrightarrow> n_id n = k"
    and "hhas (tr_nodes t) (tr_root t)" and "par t (tr_root t) = None"
    and "hhas (tr_nodes t) k \<Longrightarrow> k \<noteq> tr_root t \<Longrightarrow> par t k \<noteq> None"
    and "c \<in> set (children t p) \<longleftrightarrow> par t c = Some p"
    and "distinct (children t p)"
  using assms by (auto simp: links_ok_def)

lemma links_okI:
  assumes "hmap_ok (tr_nodes t)" "\<And>k n. hget (tr_nodes t) k = Some n \<Longrightarrow> n_id n = k"
    and "hhas (tr_nodes t) (tr_root t)" "par t (tr_root t) = None"
    and "\<And>k. hhas (tr_nodes t) k \<Longrightarrow> k \<noteq> tr_root t \<Longrightarrow> par t k \<noteq> None"
    and "\<And>p c. c \<in> set (children t p) \<longleftrightarrow> par t c = Some p" "\<And>p. distinct (children t p)"
    and "\<And>c p. par t c = Some p \<Longrightarrow> rank p < (rank c :: nat)"
  shows "links_ok t"
  unfolding links_ok_def by (intro conjI allI impI exI [of _ rank]; use assms in blast)

lemma par_in_table:
  assumes "links_ok t" "par t c = Some p"
  shows "hhas (tr_nodes t) c" and "hhas (tr_nodes t) p" and "c \<noteq> tr_root t"
proof -
  show "hhas (tr_nodes t) c" using assms(2) by (auto simp: par_def hhas_def split: option.splits)
  have "c \<in> set (children t p)" using assms links_okD(6) by blast
  then show "hhas (tr_nodes t) p"
    by (cases "hget (tr_nodes t) p") (auto simp: children_def hhas_def)
  show "c \<noteq> tr_root t" using assms links_okD(4) by auto
qed

lemma rank_exists:
  "links_ok t \<Longrightarrow> \<exists>rank :: workspace_id \<Rightarrow> nat. \<forall>c p. par t c = Some p \<longrightarrow> rank p < rank c"
  by (simp add: links_ok_def)

subsection \<open>The descendant relation\<close>

abbreviation child_rel :: "workspace_tree \<Rightarrow> workspace_id \<Rightarrow> workspace_id \<Rightarrow> bool" where
  "child_rel t p c \<equiv> par t c = Some p"

abbreviation desc_rel :: "workspace_tree \<Rightarrow> workspace_id \<Rightarrow> workspace_id \<Rightarrow> bool" where
  "desc_rel t \<equiv> (child_rel t)\<^sup>+\<^sup>+"

lemma desc_rank:
  assumes "\<And>c p. par t c = Some p \<Longrightarrow> rank p < (rank c :: nat)" "desc_rel t a b"
  shows "rank a < rank b"
  using assms(2)
proof (induction rule: tranclp_induct)
  case (step b c)
  then show ?case using assms(1) [OF step.hyps(2)] by simp
qed (rule assms(1))

lemma desc_irrefl:
  assumes "links_ok t"
  shows "\<not> desc_rel t a a"
proof -
  obtain rank :: "workspace_id \<Rightarrow> nat" where "\<And>c p. par t c = Some p \<Longrightarrow> rank p < rank c"
    using rank_exists [OF assms] by blast
  then show ?thesis using desc_rank [of t rank a a] by blast
qed

lemma desc_via_parent: "desc_rel t a c \<Longrightarrow> par t c = Some p \<Longrightarrow> a = p \<or> desc_rel t a p"
  by (erule tranclp.cases) auto

lemma desc_step: "desc_rel t a b \<longleftrightarrow> (\<exists>c. par t c = Some a \<and> (c = b \<or> desc_rel t c b))"
proof
  assume "desc_rel t a b"
  then obtain c where "par t c = Some a" "(child_rel t)\<^sup>*\<^sup>* c b" by (blast dest: tranclpD)
  then show "\<exists>c. par t c = Some a \<and> (c = b \<or> desc_rel t c b)" by (auto dest: rtranclpD)
next
  assume "\<exists>c. par t c = Some a \<and> (c = b \<or> desc_rel t c b)"
  then show "desc_rel t a b" by (auto intro: tranclp_into_tranclp2)
qed

subsection \<open>The traversals return\<close>

lemma rank_bound:
  fixes rank :: "workspace_id \<Rightarrow> nat"
  obtains B where "\<And>k. hhas m k \<Longrightarrow> rank k \<le> B"
proof
  fix k assume "hhas m k"
  then have "k \<in> fst ` set m" unfolding hhas_def hget_None_iff by simp
  then show "rank k \<le> Max (rank ` fst ` set m)" by (intro Max_ge) auto
qed

definition antichain :: "workspace_tree \<Rightarrow> workspace_id list \<Rightarrow> bool" where
  "antichain t q \<longleftrightarrow> distinct q \<and> (\<forall>x \<in> set q. \<forall>y \<in> set q. \<not> desc_rel t x y)"

lemma antichain_advance:
  assumes wf: "links_ok t" and anti: "antichain t (c # q)"
  shows "antichain t (q @ children t c)"
    and "d \<in> set (children t c) \<Longrightarrow> x \<in> set (q @ children t c) \<Longrightarrow> \<not> desc_rel t x d"
proof -
  have kids: "par t d = Some c \<longleftrightarrow> d \<in> set (children t c)" for d using wf by (simp add: links_okD)
  have below: "desc_rel t c d" if "d \<in> set (children t c)" for d
    using that kids by blast
  have c_q: "\<not> desc_rel t x c" "\<not> desc_rel t c x" "x \<noteq> c" if "x \<in> set q" for x
    using anti that by (auto simp: antichain_def)
  show up: "\<not> desc_rel t x d" if d: "d \<in> set (children t c)" and x: "x \<in> set (q @ children t c)" for x d
  proof
    assume "desc_rel t x d"
    with d kids have "x = c \<or> desc_rel t x c" by (blast dest: desc_via_parent)
    moreover have "\<not> (x = c \<or> desc_rel t x c)"
    proof (cases "x \<in> set q")
      case True
      then show ?thesis using c_q by blast
    next
      case False
      with x have "desc_rel t c x" using below by simp
      then show ?thesis using desc_irrefl [OF wf, of c] by (blast intro: tranclp_trans)
    qed
    ultimately show False by blast
  qed
  have down: "\<not> desc_rel t d x" if "d \<in> set (children t c)" "x \<in> set q" for d x
    using that below c_q by (blast intro: tranclp_trans)
  have "distinct (q @ children t c)"
    using anti links_okD(7) [OF wf, of c] c_q below by (auto simp: antichain_def)
  with up down anti show "antichain t (q @ children t c)" by (auto simp: antichain_def)
qed

lemma descendants_loop_spec:
  assumes wf: "links_ok t"
  shows "\<exists>ds. descendants_loop (tr_nodes t) q r = Some (r @ ds)
              \<and> set ds = {d. \<exists>x \<in> set q. desc_rel t x d} \<and> (antichain t q \<longrightarrow> distinct ds)"
proof -
  obtain rank :: "workspace_id \<Rightarrow> nat" where rank: "\<And>c p. par t c = Some p \<Longrightarrow> rank p < rank c"
    using rank_exists [OF wf] by blast
  obtain B where B: "\<And>k. hhas (tr_nodes t) k \<Longrightarrow> rank k \<le> B" using rank_bound by blast
  define g where "g x = B - rank x" for x
  have g: "g c < g p" if "c \<in> set (children t p)" for c p
  proof -
    from that wf have p: "par t c = Some p" by (simp add: links_okD)
    then have "rank c \<le> B" using B par_in_table(1) [OF wf p] by blast
    with rank [OF p] show ?thesis by (simp add: g_def)
  qed
  let ?R = "inv_image (mult less_than) (\<lambda>q. image_mset g (mset q))"
  have "wf ?R" by (intro wf_inv_image wf_mult wf_less_than)
  then show ?thesis
  proof (induction q arbitrary: r rule: wf_induct_rule)
    case (less q)
    show ?case
    proof (cases q)
      case Nil
      then show ?thesis by (simp add: descendants_loop.simps)
    next
      case (Cons c q')
      have "(image_mset g (mset q') + image_mset g (mset (children t c)),
             image_mset g (mset q') + {#g c#}) \<in> mult less_than"
        by (rule one_step_implies_mult) (use g in auto)
      then have smaller: "(q' @ children t c, q) \<in> ?R" by (simp add: Cons)
      have kids: "par t d = Some c \<longleftrightarrow> d \<in> set (children t c)" for d
        using wf by (simp add: links_okD)
      from less [OF smaller, of "r @ children t c"] obtain ds where
        ds: "descendants_loop (tr_nodes t) (q' @ children t c) (r @ children t c)
               = Some ((r @ children t c) @ ds)"
            "set ds = {d. \<exists>x \<in> set (q' @ children t c). desc_rel t x d}"
            "antichain t (q' @ children t c) \<longrightarrow> distinct ds" by blast
      have "descendants_loop (tr_nodes t) q r = Some (r @ (children t c @ ds))"
        using ds(1) Cons
        by (subst descendants_loop.simps) (simp add: children_def split: option.splits)
      moreover have "set (children t c @ ds) = {d. \<exists>x \<in> set q. desc_rel t x d}"
        using Cons ds(2) desc_step [of t c] kids by auto
      moreover have "distinct (children t c @ ds)" if "antichain t q"
        using antichain_advance [OF wf, of c q'] that Cons ds(2,3) links_okD(7) [OF wf, of c]
        by auto
      ultimately show ?thesis by blast
    qed
  qed
qed

lemma descendants_spec:
  assumes "links_ok t"
  shows "\<exists>ds. descendants t wid = Some ds \<and> set ds = {d. desc_rel t wid d} \<and> distinct ds"
proof -
  have "antichain t [wid]" using desc_irrefl [OF assms] by (simp add: antichain_def)
  with descendants_loop_spec [OF assms, of "[wid]" "[]"] show ?thesis
    by (auto simp: descendants_def)
qed

lemma parent_chain_loop_spec:
  assumes wf: "links_ok t" and "hhas (tr_nodes t) cur"
  shows "\<exists>ps. parent_chain_loop (tr_nodes t) cur ch = Some (ch @ ps)
              \<and> set ps = {a. desc_rel t a cur} \<and> last (cur # ps) = tr_root t"
proof -
  obtain rank :: "workspace_id \<Rightarrow> nat" where rank: "\<And>c p. par t c = Some p \<Longrightarrow> rank p < rank c"
    using rank_exists [OF wf] by blast
  from assms(2) show ?thesis
  proof (induction "rank cur" arbitrary: cur ch rule: less_induct)
    case less
    show ?case
    proof (cases "par t cur")
      case None
      then have "cur = tr_root t" using less.prems links_okD(5) [OF wf] by blast
      moreover have "\<not> desc_rel t a cur" for a using None by (auto elim: tranclp.cases)
      ultimately show ?thesis
        using None less.prems
        by (subst parent_chain_loop.simps) (auto simp: par_def hhas_def split: option.splits)
    next
      case (Some p)
      from less.hyps [OF rank [OF Some] par_in_table(2) [OF wf Some], of "ch @ [p]"] obtain ps where
        ps: "parent_chain_loop (tr_nodes t) p (ch @ [p]) = Some ((ch @ [p]) @ ps)"
            "set ps = {a. desc_rel t a p}" "last (p # ps) = tr_root t" by blast
      have "parent_chain_loop (tr_nodes t) cur ch = Some (ch @ (p # ps))"
        using ps(1) Some
        by (subst parent_chain_loop.simps) (auto simp: par_def split: option.splits)
      moreover have "set (p # ps) = {a. desc_rel t a cur}"
        using ps(2) Some desc_via_parent [OF _ Some] by (auto intro: tranclp.intros)
      ultimately show ?thesis using ps(3) by force
    qed
  qed
qed

section \<open>The operations keep the invariant\<close>

lemma links_ok_cong:
  assumes "links_ok t" "hmap_ok (tr_nodes t')" "tr_root t' = tr_root t"
    and "\<And>k n. hget (tr_nodes t') k = Some n \<Longrightarrow> n_id n = k"
    and "\<And>k. hhas (tr_nodes t') k = hhas (tr_nodes t) k"
    and "par t' = par t" and "children t' = children t"
  shows "links_ok t'"
  using assms(1,2,4) unfolding links_ok_def assms(3,5,6,7) by simp

lemma update_status_frame [simp]:
  "tr_root (update_status w s t) = tr_root t"
  "par (update_status w s t) = par t"
  "children (update_status w s t) = children t"
  "by_owner (update_status w s t) = by_owner t"
  "by_originator (update_status w s t) = by_originator t"
  "hhas (tr_nodes (update_status w s t)) = hhas (tr_nodes t)"
  by (auto simp: update_status_def par_def children_def by_owner_def by_originator_def fun_eq_iff
      split: option.splits)

lemma hget_update_status:
  "hget (tr_nodes (update_status w s t)) k
     = (if k = w then map_option (\<lambda>n. n\<lparr>n_status := s\<rparr>) (hget (tr_nodes t) k) else hget (tr_nodes t) k)"
  by (auto simp: update_status_def)

lemma tree_inv_update_status [keeps]:
  assumes "tree_inv t"
  shows "tree_inv (update_status w s t)"
proof -
  have l: "links_ok t" and i: "indices_ok t" using assms by (auto simp: tree_inv_def)
  have "links_ok (update_status w s t)"
    by (rule links_ok_cong [OF l])
      (use l in \<open>auto simp: hget_update_status links_okD split: if_splits\<close>,
       simp add: update_status_def links_okD(1) [OF l])
  moreover have "indices_ok (update_status w s t)"
    using i by (auto simp: indices_ok_def update_status_def intro: mirrors_hupd)
  ultimately show ?thesis by (simp add: tree_inv_def)
qed

subsection \<open>Reparenting\<close>

definition node_core ::
  "workspace_node \<Rightarrow> workspace_id \<times> user_id \<times> originator \<times> workspace_state \<times> task_id option" where
  "node_core n = (n_id n, n_owner n, n_originator n, n_status n, n_task_id n)"

lemma reparent_core:
  "map_option node_core (hget (tr_nodes (reparent c p t)) k) = map_option node_core (hget (tr_nodes t) k)"
proof -
  have upd: "map_option node_core (hget (hupd x (\<lambda>n. n\<lparr>n_children := f n\<rparr>) m) k') = map_option node_core (hget m k')"
    "map_option node_core (hget (hupd x (\<lambda>n. n\<lparr>n_parent := q\<rparr>) m) k') = map_option node_core (hget m k')"
    "map_option node_core (hget (hupd x (\<lambda>n. if P n then n else n\<lparr>n_children := f n\<rparr>) m) k') = map_option node_core (hget m k')"
    for x f q P m k'
    by (rule map_option_hupd, simp add: node_core_def)+
  show ?thesis by (simp add: reparent_def Let_def upd del: hget_hupd split: option.split)
qed

lemma reparent_field:
  assumes "\<And>n. f n = g (node_core n)"
  shows "map_option f (hget (tr_nodes (reparent c p t)) k) = map_option f (hget (tr_nodes t) k)"
proof -
  have "map_option f x = map_option g (map_option node_core x)" for x
    by (cases x) (simp_all add: assms)
  then show ?thesis by (simp add: reparent_core)
qed

lemma reparent_frame [simp]:
  "tr_owner_index (reparent c p t) = tr_owner_index t"
  "tr_originator_index (reparent c p t) = tr_originator_index t"
  "tr_root (reparent c p t) = tr_root t"
  "by_owner (reparent c p t) = by_owner t"
  "by_originator (reparent c p t) = by_originator t"
  by (simp_all add: reparent_def Let_def by_owner_def by_originator_def fun_eq_iff)

lemma hhas_reparent [simp]: "hhas (tr_nodes (reparent c p t)) k = hhas (tr_nodes t) k"
  using reparent_core [of c p t k] by (auto simp: hhas_def map_option_eq)

lemma hmap_ok_reparent: "hmap_ok (tr_nodes t) \<Longrightarrow> hmap_ok (tr_nodes (reparent c p t))"
  by (simp add: reparent_def Let_def split: option.splits)

lemma par_reparent:
  "par (reparent c p t) k = (if k = c \<and> hhas (tr_nodes t) c then Some p else par t k)"
  by (auto simp: par_def reparent_def Let_def hhas_def split: option.splits)

lemma children_reparent:
  "children (reparent c p t) k =
     (let xs = (if par t c = Some k then filter (\<lambda>x. x \<noteq> c) (children t k) else children t k)
      in if k = p \<and> hhas (tr_nodes t) p \<and> c \<notin> set xs then xs @ [c] else xs)"
  by (auto simp: children_def par_def reparent_def Let_def hhas_def split: option.splits)

lemma tree_inv_reparent_root [keeps]:
  assumes inv: "tree_inv t" and c: "hhas (tr_nodes t) c" "c \<noteq> tr_root t"
  shows "tree_inv (reparent c (tr_root t) t)" (is "tree_inv ?t")
proof -
  have l: "links_ok t" and i: "indices_ok t" using inv by (auto simp: tree_inv_def)
  have core: "map_option node_core (hget (tr_nodes ?t) k) = map_option node_core (hget (tr_nodes t) k)"
    for k by (rule reparent_core)
  have root: "hhas (tr_nodes t) (tr_root t)" using l by (rule links_okD)
  have par: "par ?t = (par t)(c := Some (tr_root t))"
    using c by (auto simp: par_reparent)
  have kids: "set (children ?t k) = (if k = tr_root t then insert c (set (children t k)) else set (children t k) - {c})"
    and dist: "distinct (children ?t k)" for k
    using links_okD(6) [OF l, of c k] links_okD(7) [OF l, of k] root
    by (auto simp: children_reparent Let_def)
  obtain rank :: "workspace_id \<Rightarrow> nat" where rank: "\<And>c p. par t c = Some p \<Longrightarrow> rank p < rank c"
    using rank_exists [OF l] by blast
  have "rank (tr_root t) < rank c"
  proof -
    have "desc_rel t (tr_root t) c"
      using parent_chain_loop_spec [OF l c(1), of "[]"] c(2)
      by (metis last_in_set last_ConsL list.discI mem_Collect_eq last_ConsR)
    with desc_rank [of t rank, OF rank] show ?thesis by blast
  qed
  then have rank': "\<exists>rank :: workspace_id \<Rightarrow> nat. \<forall>k p. par ?t k = Some p \<longrightarrow> rank p < rank k"
    using rank by (intro exI [of _ rank]) (auto simp: par)
  have "n_id n = k" if "hget (tr_nodes ?t) k = Some n" for k n
    using core [of k, unfolded map_option_eq] that links_okD(2) [OF l] by (auto simp: node_core_def)
  then have "links_ok ?t"
    using l rank' kids dist hmap_ok_reparent c root
    unfolding links_ok_def by (auto simp: par links_okD(6) [OF l])
  moreover have "indices_ok ?t"
    using i mirrors_cong [OF _ reparent_field [where g = "fst \<circ> snd"]]
      mirrors_cong [OF _ reparent_field [where g = "fst \<circ> snd \<circ> snd"]]
    by (simp add: indices_ok_def node_core_def)
  ultimately show ?thesis by (simp add: tree_inv_def)
qed

subsection \<open>Creation, insertion, transfer\<close>

lemma tree_inv_new [keeps]: "tree_inv (tree_new root owner)"
  by (auto simp: mirrors_def hlist_def tree_inv_def links_ok_def indices_ok_def tree_new_def par_def children_def
      by_owner_def by_originator_def hhas_def hmap_ok_def hlist_def hpush_def)

lemma tree_insert_error: "fst (tree_insert n t) = Err e \<Longrightarrow> snd (tree_insert n t) = t"
  by (auto simp: tree_insert_def split: if_splits option.splits)

lemma tree_insert_Ok:
  assumes "fst (tree_insert n t) = Ok ()"
  obtains p where "n_parent n = Some p" "hhas (tr_nodes t) p" "\<not> hhas (tr_nodes t) (n_id n)"
    "snd (tree_insert n t) = t\<lparr>
       tr_nodes := hupd p (\<lambda>m. m\<lparr>n_children := n_children m @ [n_id n]\<rparr>) (hput (n_id n) n (tr_nodes t)),
       tr_originator_index := hpush (n_originator n) (n_id n) (tr_originator_index t),
       tr_owner_index := hpush (n_owner n) (n_id n) (tr_owner_index t)\<rparr>"
  using assms that by (auto simp: tree_insert_def split: if_splits option.splits)

lemma tree_inv_insert [keeps]:
  assumes inv: "tree_inv t" and ok: "fst (tree_insert n t) = Ok ()" and leaf: "n_children n = []"
  shows "tree_inv (snd (tree_insert n t))" (is "tree_inv ?t")
proof -
  have l: "links_ok t" and i: "indices_ok t" using inv by (auto simp: tree_inv_def)
  from ok obtain p where p: "n_parent n = Some p" "hhas (tr_nodes t) p" "\<not> hhas (tr_nodes t) (n_id n)"
    and t': "?t = t\<lparr>
       tr_nodes := hupd p (\<lambda>m. m\<lparr>n_children := n_children m @ [n_id n]\<rparr>) (hput (n_id n) n (tr_nodes t)),
       tr_originator_index := hpush (n_originator n) (n_id n) (tr_originator_index t),
       tr_owner_index := hpush (n_owner n) (n_id n) (tr_owner_index t)\<rparr>"
    by (rule tree_insert_Ok)
  have new: "hget (tr_nodes t) (n_id n) = None" and pn: "p \<noteq> n_id n" using p by (auto simp: hhas_def)
  have par: "par ?t = (par t)(n_id n := Some p)"
    using p pn by (auto simp: t' par_def fun_eq_iff split: option.splits)
  have kids: "children ?t = (children t)(p := children t p @ [n_id n])"
    using p pn new leaf by (auto simp: t' children_def fun_eq_iff hhas_def split: option.splits)
  have fresh: "par t c \<noteq> Some (n_id n)" "par t (n_id n) = None" for c
    using par_in_table(2) [OF l] p(3) new by (auto simp: par_def)
  obtain rank :: "workspace_id \<Rightarrow> nat" where rank: "\<And>c q. par t c = Some q \<Longrightarrow> rank q < rank c"
    using rank_exists [OF l] by blast
  have "links_ok ?t"
  proof (rule links_okI [of _ "rank(n_id n := Suc (rank p))"])
    show "hmap_ok (tr_nodes ?t)" using links_okD(1) [OF l] by (simp add: t')
    show "n_id m = k" if "hget (tr_nodes ?t) k = Some m" for k m
      using links_okD(2) [OF l] pn that by (auto simp: t' split: if_splits)
    have root: "hhas (tr_nodes t) (tr_root t)" and nroot: "tr_root t \<noteq> n_id n"
      using links_okD(3) [OF l] p(3) by auto
    then show "hhas (tr_nodes ?t) (tr_root ?t)" by (simp add: t')
    show "par ?t (tr_root ?t) = None" using links_okD(4) [OF l] nroot by (simp add: par) (simp add: t')
    show "par ?t k \<noteq> None" if k: "hhas (tr_nodes ?t) k" and "k \<noteq> tr_root ?t" for k
    proof -
      have "k = n_id n \<or> hhas (tr_nodes t) k" using k by (simp add: t')
      moreover have "tr_root ?t = tr_root t" by (simp add: t')
      ultimately show ?thesis using links_okD(5) [OF l, of k] that(2) by (auto simp: par)
    qed
    show "c \<in> set (children ?t q) \<longleftrightarrow> par ?t c = Some q" "distinct (children ?t q)" for c q
      using links_okD(6,7) [OF l] fresh by (auto simp: par kids)
    show "(rank(n_id n := Suc (rank p))) q < (rank(n_id n := Suc (rank p))) c" if "par ?t c = Some q" for c q
      using that rank fresh pn by (auto simp: par split: if_splits)
  qed
  moreover have "indices_ok ?t"
    using i new by (auto simp: t' indices_ok_def intro: mirrors_hupd mirrors_insert)
  ultimately show ?thesis by (simp add: tree_inv_def)
qed

lemma transfer_owner_error: "fst (transfer_owner w u t) = Err e \<Longrightarrow> snd (transfer_owner w u t) = t"
  by (auto simp: transfer_owner_def split: if_splits option.splits)

lemma tree_inv_transfer_owner [keeps]:
  assumes inv: "tree_inv t"
  shows "tree_inv (snd (transfer_owner w u t))" (is "tree_inv ?t")
proof (cases "fst (transfer_owner w u t)")
  case (Err e)
  then show ?thesis using inv transfer_owner_error by metis
next
  case (Ok old)
  have l: "links_ok t" and i: "indices_ok t" using inv by (auto simp: tree_inv_def)
  from Ok obtain n where n: "hget (tr_nodes t) w = Some n" "n_owner n = old" "old \<noteq> u"
    and t': "?t = t\<lparr>tr_nodes := hput w (n\<lparr>n_owner := u\<rparr>) (tr_nodes t),
                  tr_owner_index := hpush u w (hupd old (filter (\<lambda>x. x \<noteq> w)) (tr_owner_index t))\<rparr>"
    by (auto simp: transfer_owner_def split: if_splits option.splits)
  have "links_ok ?t"
    by (rule links_ok_cong [OF l])
      (use n l in \<open>auto simp: t' links_okD par_def children_def fun_eq_iff hhas_def split: if_splits\<close>)
  moreover have "indices_ok ?t"
    using i n by (auto simp: t' indices_ok_def intro: mirrors_move mirrors_cong)
  ultimately show ?thesis by (simp add: tree_inv_def)
qed

section \<open>The failure cascade\<close>

definition owner_of :: "workspace_tree \<Rightarrow> workspace_id \<Rightarrow> user_id option" where
  "owner_of t k = map_option n_owner (hget (tr_nodes t) k)"

definition status_of :: "workspace_tree \<Rightarrow> workspace_id \<Rightarrow> workspace_state option" where
  "status_of t k = map_option n_status (hget (tr_nodes t) k)"

lemma owner_status_update [simp]:
  "owner_of (update_status w s t) = owner_of t"
  "status_of (update_status w s t) k = (if k = w then map_option (\<lambda>_. s) (status_of t k) else status_of t k)"
  by (auto simp: owner_of_def status_of_def hget_update_status fun_eq_iff option.map_comp o_def)

lemma owner_status_reparent [simp]:
  "owner_of (reparent c p t) = owner_of t" "status_of (reparent c p t) = status_of t"
  using reparent_field [where f = n_owner and g = "fst \<circ> snd"]
    reparent_field [where f = n_status and g = "fst \<circ> snd \<circ> snd \<circ> snd"]
  by (simp_all add: owner_of_def status_of_def fun_eq_iff node_core_def)

lemma cascade_loop_spec:
  assumes "tree_inv t" "distinct ds" "tr_root t \<notin> set ds" "\<And>d. d \<in> set ds \<Longrightarrow> hhas (tr_nodes t) d"
    and "cascade_loop owner ds rep t = (rep', t')"
  shows "tree_inv t' \<and> tr_root t' = tr_root t \<and> owner_of t' = owner_of t
    \<and> rep' = rep @ filter (\<lambda>d. owner_of t d \<noteq> Some owner) ds
    \<and> (\<forall>k. status_of t' k = (if k \<in> set ds \<and> owner_of t k = Some owner then Some WsFailed else status_of t k))
    \<and> (\<forall>k. par t' k = (if k \<in> set ds \<and> owner_of t k \<noteq> Some owner then Some (tr_root t) else par t k))"
  using assms
proof (induction ds arbitrary: rep t)
  case (Cons d ds)
  from Cons.prems(4) [of d] obtain n where n: "hget (tr_nodes t) d = Some n" by (auto simp: hhas_def)
  show ?case
  proof (cases "n_owner n = owner")
    case True
    have run: "cascade_loop owner ds rep (update_status d WsFailed t) = (rep', t')"
      using Cons.prems(5) n True by simp
    have own: "owner_of t d = Some owner" using n True by (simp add: owner_of_def)
    have "status_of t d = Some (n_status n)" using n by (simp add: status_of_def)
    with Cons.IH [OF tree_inv_update_status [OF Cons.prems(1)] _ _ _ run] Cons.prems own
    show ?thesis by auto
  next
    case False
    have run: "cascade_loop owner ds (rep @ [d]) (reparent d (tr_root t) t) = (rep', t')"
      using Cons.prems(5) n False by simp
    have own: "owner_of t d \<noteq> Some owner" using n False by (simp add: owner_of_def)
    have "tree_inv (reparent d (tr_root t) t)"
      using Cons.prems by (intro tree_inv_reparent_root) auto
    from Cons.IH [OF this _ _ _ run] Cons.prems own
    show ?thesis by (auto simp: par_reparent)
  qed
qed simp

lemma cascade_failure_spec:
  assumes inv: "tree_inv t" and n: "hget (tr_nodes t) w = Some n"
  shows "\<exists>rep t'. cascade_failure w t = Some (rep, t')
    \<and> distinct rep \<and> set rep = {d. desc_rel t w d \<and> owner_of t d \<noteq> Some (n_owner n)}
    \<and> tree_inv t' \<and> tr_root t' = tr_root t \<and> owner_of t' = owner_of t
    \<and> (\<forall>k. status_of t' k =
          (if k = w \<or> desc_rel t w k \<and> owner_of t k = Some (n_owner n) then Some WsFailed else status_of t k))
    \<and> (\<forall>k. par t' k =
          (if desc_rel t w k \<and> owner_of t k \<noteq> Some (n_owner n) then Some (tr_root t) else par t k))"
proof -
  let ?t1 = "update_status w WsFailed t"
  have inv1: "tree_inv ?t1" using inv by (rule tree_inv_update_status)
  then have l1: "links_ok ?t1" by (simp add: tree_inv_def)
  have l: "links_ok t" using inv by (simp add: tree_inv_def)
  obtain ds where ds: "descendants ?t1 w = Some ds" "set ds = {d. desc_rel t w d}" "distinct ds"
    using descendants_spec [OF l1, of w] by auto
  have in_table: "hhas (tr_nodes t) d" "d \<noteq> tr_root t" if "desc_rel t w d" for d
  proof -
    from that obtain q where "par t d = Some q" by (auto elim: tranclp.cases)
    from par_in_table [OF l this] show "hhas (tr_nodes t) d" "d \<noteq> tr_root t" by auto
  qed
  obtain rep t' where run: "cascade_loop (n_owner n) ds [] ?t1 = (rep, t')" by fastforce
  have spec: "tree_inv t' \<and> tr_root t' = tr_root ?t1 \<and> owner_of t' = owner_of ?t1
    \<and> rep = [] @ filter (\<lambda>d. owner_of ?t1 d \<noteq> Some (n_owner n)) ds
    \<and> (\<forall>k. status_of t' k = (if k \<in> set ds \<and> owner_of ?t1 k = Some (n_owner n) then Some WsFailed else status_of ?t1 k))
    \<and> (\<forall>k. par t' k = (if k \<in> set ds \<and> owner_of ?t1 k \<noteq> Some (n_owner n) then Some (tr_root ?t1) else par ?t1 k))"
    by (rule cascade_loop_spec [OF inv1 ds(3) _ _ run]) (use ds(2) in_table in auto)
  have st: "status_of t w = Some (n_status n)" using n by (simp add: status_of_def)
  have "cascade_failure w t = Some (rep, t')" using n ds(1) run by (simp add: cascade_failure_def)
  moreover have "distinct rep" using spec ds(3) by simp
  ultimately show ?thesis using spec ds(2) st by (intro exI [of _ rep] exI [of _ t']) auto
qed

section \<open>Effect of an insertion\<close>

lemma tree_insert_root [simp]: "tr_root (snd (tree_insert n t)) = tr_root t"
  by (simp add: tree_insert_def split: option.split)

lemma tree_insert_node:
  assumes "fst (tree_insert n t) = Ok ()"
  shows "owner_of (snd (tree_insert n t)) k = (if k = n_id n then Some (n_owner n) else owner_of t k)"
    and "status_of (snd (tree_insert n t)) k = (if k = n_id n then Some (n_status n) else status_of t k)"
    and "hhas (tr_nodes (snd (tree_insert n t))) k \<longleftrightarrow> k = n_id n \<or> hhas (tr_nodes t) k"
  using assms
  by (auto simp: tree_insert_def owner_of_def status_of_def option.map_comp o_def
      split: option.splits if_splits)

end
