(* ===== verification/Wacp_Visibility.thy ===== *)
theory Wacp_Visibility
  imports Wacp_Types
begin

text \<open>
  Who sees whom (\<open>wacp-coordinator/src/visibility.rs\<close>) and who is asked on escalation
  (\<open>wacp-coordinator/src/ownership.rs\<close>). The visibility graph is kept in both directions;
  shown: the directions agree, grants are additive, a workspace always sees itself, and a
  checked grant cannot create sight out of nothing.
\<close>

section \<open>The visibility graph\<close>

datatype visibility_error = GrantorCannotSee workspace_id

record visibility_graph =
  vg_can_see :: "(string, workspace_id set) hmap"
  vg_seen_by :: "(string, workspace_id set) hmap"

definition hset :: "('k, 'v set) hmap \<Rightarrow> 'k \<Rightarrow> 'v set" where
  "hset m k = (case hget m k of None \<Rightarrow> {} | Some s \<Rightarrow> s)"

text \<open>\<open>entry(k).or_default()\<close>\<close>

definition hdefault :: "'k \<Rightarrow> 'v \<Rightarrow> ('k, 'v) hmap \<Rightarrow> ('k, 'v) hmap" where
  "hdefault k d m = (case hget m k of None \<Rightarrow> hput k d m | Some _ \<Rightarrow> m)"

definition vis_new :: visibility_graph where
  "vis_new = \<lparr>vg_can_see = [], vg_seen_by = []\<rparr>"

definition vis_register :: "workspace_id \<Rightarrow> visibility_graph \<Rightarrow> visibility_graph" where
  "vis_register wid g =
     g\<lparr>vg_can_see := hdefault wid {} (vg_can_see g), vg_seen_by := hdefault wid {} (vg_seen_by g)\<rparr>"

definition grant :: "workspace_id \<Rightarrow> workspace_id \<Rightarrow> visibility_graph \<Rightarrow> bool \<times> visibility_graph" where
  "grant viewer target g =
     (if viewer = target then (False, g)
      else let seen = hset (vg_can_see g) viewer;
               newly_inserted = target \<notin> seen;
               g1 = g\<lparr>vg_can_see := hput viewer (insert target seen) (vg_can_see g)\<rparr>;
               g2 = (if newly_inserted
                     then g1\<lparr>vg_seen_by :=
                            hput target (insert viewer (hset (vg_seen_by g1) target)) (vg_seen_by g1)\<rparr>
                     else g1)
           in (newly_inserted, g2))"

definition can_see :: "visibility_graph \<Rightarrow> workspace_id \<Rightarrow> workspace_id \<Rightarrow> bool" where
  "can_see g viewer target =
     (viewer = target \<or> (case hget (vg_can_see g) viewer of None \<Rightarrow> False | Some s \<Rightarrow> target \<in> s))"

definition grant_checked ::
  "workspace_id \<Rightarrow> workspace_id \<Rightarrow> workspace_id \<Rightarrow> visibility_graph
     \<Rightarrow> (bool, visibility_error) result \<times> visibility_graph" where
  "grant_checked viewer target grantor g =
     (if \<not> can_see g grantor target then (Err (GrantorCannotSee target), g)
      else let (r, g') = grant viewer target g in (Ok r, g'))"

definition visible_to :: "visibility_graph \<Rightarrow> workspace_id \<Rightarrow> workspace_id set" where
  "visible_to g viewer = insert viewer (hset (vg_can_see g) viewer)"

definition who_can_see :: "visibility_graph \<Rightarrow> workspace_id \<Rightarrow> workspace_id set" where
  "who_can_see g target = insert target (hset (vg_seen_by g) target)"

definition grant_count :: "visibility_graph \<Rightarrow> nat" where
  "grant_count g = sum_list (map card (hvals (vg_can_see g)))"

subsection \<open>The two directions agree\<close>

lemma hset_simps [simp]:
  "hset [] k = {}"
  "hset (hput k s m) k' = (if k' = k then s else hset m k')"
  "hset (hdefault k {} m) k' = hset m k'"
  by (auto simp: hset_def hdefault_def split: option.splits)

lemma hmap_ok_hdefault [simp]: "hmap_ok m \<Longrightarrow> hmap_ok (hdefault k d m)"
  by (simp add: hdefault_def split: option.splits)

lemma can_see_hset: "can_see g v t \<longleftrightarrow> v = t \<or> t \<in> hset (vg_can_see g) v"
  by (auto simp: can_see_def hset_def split: option.splits)

definition vis_inv :: "visibility_graph \<Rightarrow> bool" where
  "vis_inv g \<longleftrightarrow> hmap_ok (vg_can_see g) \<and> hmap_ok (vg_seen_by g)
     \<and> (\<forall>v t. t \<in> hset (vg_can_see g) v \<longleftrightarrow> v \<in> hset (vg_seen_by g) t)
     \<and> (\<forall>v. v \<notin> hset (vg_can_see g) v)"

lemma vis_inv_new [keeps]: "vis_inv vis_new"
  by (simp add: vis_inv_def vis_new_def)

lemma vis_inv_register [keeps]: "vis_inv g \<Longrightarrow> vis_inv (vis_register wid g)"
  unfolding vis_inv_def vis_register_def by auto

lemma vis_inv_grant [keeps]: "vis_inv g \<Longrightarrow> vis_inv (snd (grant v t g))"
  by (auto simp: vis_inv_def grant_def Let_def)

lemma vis_inv_grant_checked [keeps]: "vis_inv g \<Longrightarrow> vis_inv (snd (grant_checked v t gr g))"
  by (simp add: grant_checked_def case_prod_beta vis_inv_grant)

lemma can_see_register [simp]: "can_see (vis_register wid g) v t = can_see g v t"
  by (simp add: can_see_hset vis_register_def)

lemma can_see_grant [simp]:
  "can_see (snd (grant v t g)) v' t' \<longleftrightarrow> can_see g v' t' \<or> v' = v \<and> t' = t"
  by (auto simp: can_see_hset grant_def Let_def)

lemma can_see_grant_checked:
  "can_see (snd (grant_checked v t gr g)) v' t'
     \<longleftrightarrow> can_see g v' t' \<or> v' = v \<and> t' = t \<and> can_see g gr t"
  by (auto simp: grant_checked_def case_prod_beta)

subsection \<open>Sequences of operations\<close>

datatype vis_op =
  VisRegister workspace_id
| VisGrant workspace_id workspace_id
| VisGrantChecked workspace_id workspace_id workspace_id

fun vis_step :: "vis_op \<Rightarrow> visibility_graph \<Rightarrow> visibility_graph" where
  "vis_step (VisRegister w) g = vis_register w g"
| "vis_step (VisGrant v t) g = snd (grant v t g)"
| "vis_step (VisGrantChecked v t gr) g = snd (grant_checked v t gr g)"

lemma vis_inv_step: "vis_inv g \<Longrightarrow> vis_inv (vis_step op g)"
  by (cases op) (simp_all add: keeps)

lemma vis_inv_run: "vis_inv g \<Longrightarrow> vis_inv (fold vis_step ops g)"
  by (induction ops arbitrary: g) (simp_all add: vis_inv_step)

lemma can_see_step_mono: "can_see g v t \<Longrightarrow> can_see (vis_step op g) v t"
  by (cases op) (simp_all add: can_see_grant_checked)

lemma can_see_run_mono: "can_see g v t \<Longrightarrow> can_see (fold vis_step ops g) v t"
  by (induction ops arbitrary: g) (simp_all add: can_see_step_mono)

text \<open>After any sequence of registrations and grants from the empty graph the forward and the
  reverse query agree with \<open>can_see\<close>, every workspace sees itself, and whatever was visible
  after a first part of the sequence is visible after all of it (grants are additive only).\<close>

theorem visibility_run:
  "vis_inv (fold vis_step (ops @ ops') vis_new)
   \<and> visible_to (fold vis_step ops vis_new) v = {t. can_see (fold vis_step ops vis_new) v t}
   \<and> who_can_see (fold vis_step ops vis_new) t = {v. can_see (fold vis_step ops vis_new) v t}
   \<and> can_see (fold vis_step ops vis_new) v v
   \<and> visible_to (fold vis_step ops vis_new) v \<subseteq> visible_to (fold vis_step (ops @ ops') vis_new) v"
proof -
  let ?g = "fold vis_step ops vis_new"
  have inv: "vis_inv ?g" by (rule vis_inv_run [OF vis_inv_new])
  have fwd: "visible_to g v = {t. can_see g v t}" for g
    by (auto simp: visible_to_def can_see_hset)
  have "who_can_see ?g t = {v. can_see ?g v t}"
    using inv by (auto simp: who_can_see_def can_see_hset vis_inv_def)
  then show ?thesis
    using can_see_run_mono [of ?g v _ ops'] inv vis_inv_run [of ?g ops']
    by (auto simp: fwd can_see_hset)
qed

text \<open>Checked grants confine sight: if a sequence of checked grants makes a target visible to a
  workspace that could not see it before, then some grantor in the sequence could already see
  the target at the start.\<close>

theorem grant_checked_confined:
  assumes "can_see (fold (\<lambda>(v, t, gr) g. snd (grant_checked v t gr g)) ops g) v t" "\<not> can_see g v t"
  shows "\<exists>(v', t', gr) \<in> set ops. t' = t \<and> can_see g gr t"
  using assms
proof (induction ops arbitrary: g)
  case (Cons op ops)
  obtain v1 t1 gr1 where op: "op = (v1, t1, gr1)" by (cases op) auto
  let ?g = "snd (grant_checked v1 t1 gr1 g)"
  show ?case
  proof (cases "t1 = t \<and> can_see g gr1 t")
    case True
    then show ?thesis by (simp add: op)
  next
    case False
    then have same: "can_see ?g w t \<longleftrightarrow> can_see g w t" for w
      by (auto simp: can_see_grant_checked)
    with Cons.prems Cons.IH [of ?g] show ?thesis by (auto simp: op)
  qed
qed simp

theorem grant_checked_confined_witness:
  "\<not> can_see vis_new ''v'' ''t''
   \<and> can_see (fold (\<lambda>(v, t, gr) g. snd (grant_checked v t gr g)) [(''v'', ''t'', ''t'')] vis_new) ''v'' ''t''
   \<and> (\<exists>(v', t', gr) \<in> set [(''v'', ''t'', ''t'')]. t' = ''t'' \<and> can_see vis_new gr ''t'')"
proof -
  have "\<not> can_see vis_new ''v'' ''t''"
    "can_see (fold (\<lambda>(v, t, gr) g. snd (grant_checked v t gr g)) [(''v'', ''t'', ''t'')] vis_new) ''v'' ''t''"
    by (simp_all add: vis_new_def can_see_grant_checked) (simp_all add: can_see_def)
  with grant_checked_confined show ?thesis by blast
qed

section \<open>Escalation routing and inheritance\<close>

type_synonym escalation_router = "(string, user_id) hmap"

definition router_new :: escalation_router where
  "router_new = []"

definition router_register :: "workspace_id \<Rightarrow> user_id \<Rightarrow> escalation_router \<Rightarrow> escalation_router" where
  "router_register wid owner r = hput wid owner r"

definition router_update :: "workspace_id \<Rightarrow> user_id \<Rightarrow> escalation_router \<Rightarrow> escalation_router" where
  "router_update wid new_owner r = hput wid new_owner r"

definition route :: "escalation_router \<Rightarrow> workspace_id \<Rightarrow> user_id option" where
  "route r wid = hget r wid"

definition router_remove :: "workspace_id \<Rightarrow> escalation_router \<Rightarrow> escalation_router" where
  "router_remove wid r = hdel wid r"

definition resolve_owner :: "user_id \<Rightarrow> user_id option \<Rightarrow> user_id" where
  "resolve_owner parent_owner explicit = (case explicit of Some u \<Rightarrow> u | None \<Rightarrow> parent_owner)"

text \<open>\<open>resolve_originator\<close>: \<open>None\<close> is the panic of \<open>expect\<close>.\<close>

definition resolve_originator :: "originator \<Rightarrow> bool \<Rightarrow> user_id option \<Rightarrow> originator option" where
  "resolve_originator parent_originator is_injection injector =
     (if is_injection then map_option User injector else Some parent_originator)"

lemma route_simps [simp]:
  "route router_new k = None"
  "route (router_register w u r) k = (if k = w then Some u else route r k)"
  "route (router_update w u r) k = (if k = w then Some u else route r k)"
  "route (router_remove w r) k = (if k = w then None else route r k)"
  by (simp_all add: route_def router_new_def router_register_def router_update_def router_remove_def)

end
