(* ===== verification/Wacp_Port_Rights.thy ===== *)
theory Wacp_Port_Rights
  imports Wacp_Types
begin

text \<open>
  Port rights between workspaces (\<open>wacp-coordinator/src/port_rights.rs\<close>): the capability
  table that decides who may send to whom, with its two indices. A right is created active
  and leaves that status at most once. Shown: the indices stay exact, a send is validated
  exactly when an active send right exists, and a right that was consumed, revoked or expired
  is never active again.
\<close>

section \<open>Data\<close>

datatype port_right_status = PrActive | PrConsumed | PrRevoked | PrExpired

record port_right_entry =
  pe_id :: string
  pe_holder :: workspace_id
  pe_target :: workspace_id
  pe_kind :: port_right_type
  pe_status :: port_right_status

datatype port_right_error =
  PrNotFound | PrNotActive | NotSendOnce | ReceiveNotTransferable | NoRights
| NoRightToTarget workspace_id

record port_rights_graph =
  pg_by_holder :: "(string, string list) hmap"
  pg_by_target :: "(string, string list) hmap"
  pg_by_id :: "(string, port_right_entry) hmap"
  pg_next_id :: u64

section \<open>Operations\<close>

definition pr_new :: port_rights_graph where
  "pr_new = \<lparr>pg_by_holder = [], pg_by_target = [], pg_by_id = [], pg_next_id = 1\<rparr>"

definition pr_create ::
  "workspace_id \<Rightarrow> workspace_id \<Rightarrow> port_right_type \<Rightarrow> port_rights_graph \<Rightarrow> string \<times> port_rights_graph"
where
  "pr_create holder target kind g =
     (let rid = mk_id ''pr-'' (pg_next_id g);
          entry = \<lparr>pe_id = rid, pe_holder = holder, pe_target = target, pe_kind = kind,
                   pe_status = PrActive\<rparr>
      in (rid, g\<lparr>pg_next_id := pg_next_id g + 1,
                 pg_by_holder := hpush holder rid (pg_by_holder g),
                 pg_by_target := hpush target rid (pg_by_target g),
                 pg_by_id := hput rid entry (pg_by_id g)\<rparr>))"

definition pr_transfer ::
  "string \<Rightarrow> workspace_id \<Rightarrow> port_rights_graph \<Rightarrow>
     (workspace_id, port_right_error) result \<times> port_rights_graph" where
  "pr_transfer rid new_holder g =
     (case hget (pg_by_id g) rid of
        None \<Rightarrow> (Err PrNotFound, g)
      | Some entry \<Rightarrow>
          if pe_status entry \<noteq> PrActive then (Err PrNotActive, g)
          else if pe_kind entry = Receive then (Err ReceiveNotTransferable, g)
          else let old_holder = pe_holder entry
               in (Ok old_holder, g\<lparr>
                    pg_by_holder := hpush new_holder rid
                      (hupd old_holder (filter (\<lambda>x. x \<noteq> rid)) (pg_by_holder g)),
                    pg_by_id := hput rid (entry\<lparr>pe_holder := new_holder\<rparr>) (pg_by_id g)\<rparr>))"

definition set_right_status :: "string \<Rightarrow> port_right_status \<Rightarrow> port_rights_graph \<Rightarrow> port_rights_graph"
where
  "set_right_status rid s g = g\<lparr>pg_by_id := hupd rid (\<lambda>e. e\<lparr>pe_status := s\<rparr>) (pg_by_id g)\<rparr>"

definition pr_consume ::
  "string \<Rightarrow> port_rights_graph \<Rightarrow> (unit, port_right_error) result \<times> port_rights_graph" where
  "pr_consume rid g =
     (case hget (pg_by_id g) rid of
        None \<Rightarrow> (Err PrNotFound, g)
      | Some entry \<Rightarrow>
          if pe_kind entry \<noteq> SendOnce then (Err NotSendOnce, g)
          else if pe_status entry \<noteq> PrActive then (Err PrNotActive, g)
          else (Ok (), set_right_status rid PrConsumed g))"

definition pr_revoke ::
  "string \<Rightarrow> port_rights_graph \<Rightarrow> (unit, port_right_error) result \<times> port_rights_graph" where
  "pr_revoke rid g =
     (case hget (pg_by_id g) rid of
        None \<Rightarrow> (Err PrNotFound, g)
      | Some entry \<Rightarrow>
          if pe_status entry \<noteq> PrActive then (Err PrNotActive, g)
          else (Ok (), set_right_status rid PrRevoked g))"

definition expire_right :: "string \<Rightarrow> port_rights_graph \<Rightarrow> port_rights_graph" where
  "expire_right rid g =
     (case hget (pg_by_id g) rid of
        None \<Rightarrow> g
      | Some entry \<Rightarrow> if pe_status entry = PrActive then set_right_status rid PrExpired g else g)"

definition expire_workspace :: "workspace_id \<Rightarrow> port_rights_graph \<Rightarrow> port_rights_graph" where
  "expire_workspace wid g =
     (let g1 = fold expire_right (hlist (pg_by_holder g) wid) g
      in fold expire_right (hlist (pg_by_target g1) wid) g1)"

text \<open>The filter of \<open>validate_send\<close>, and its loop over the ids held by the sender.\<close>

definition send_right_to :: "port_rights_graph \<Rightarrow> workspace_id \<Rightarrow> string \<Rightarrow> bool" where
  "send_right_to g target rid =
     (case hget (pg_by_id g) rid of
        None \<Rightarrow> False
      | Some entry \<Rightarrow> pe_target entry = target \<and> pe_status entry = PrActive
                    \<and> (pe_kind entry = Send \<or> pe_kind entry = SendOnce))"

definition validate_send ::
  "port_rights_graph \<Rightarrow> workspace_id \<Rightarrow> workspace_id \<Rightarrow> (string, port_right_error) result" where
  "validate_send g sender target =
     (case hget (pg_by_holder g) sender of
        None \<Rightarrow> Err NoRights
      | Some rids \<Rightarrow> (case find (send_right_to g target) rids of
            Some rid \<Rightarrow> Ok rid
          | None \<Rightarrow> Err (NoRightToTarget target)))"

definition pr_get :: "port_rights_graph \<Rightarrow> string \<Rightarrow> port_right_entry option" where
  "pr_get g rid = hget (pg_by_id g) rid"

definition rights_held_by :: "port_rights_graph \<Rightarrow> workspace_id \<Rightarrow> port_right_entry list" where
  "rights_held_by g holder =
     (case hget (pg_by_holder g) holder of
        None \<Rightarrow> []
      | Some rids \<Rightarrow> List.map_filter (\<lambda>rid. case hget (pg_by_id g) rid of
            None \<Rightarrow> None
          | Some entry \<Rightarrow> if pe_status entry = PrActive then Some entry else None) rids)"

definition active_count :: "port_rights_graph \<Rightarrow> nat" where
  "active_count g = length (filter (\<lambda>e. pe_status e = PrActive) (hvals (pg_by_id g)))"

section \<open>The invariant\<close>

interpretation pr_ids: id_source "mk_id ''pr-''"
  by unfold_locales simp

definition pr_inv :: "port_rights_graph \<Rightarrow> bool" where
  "pr_inv g \<longleftrightarrow> hmap_ok (pg_by_id g)
     \<and> (\<forall>k e. hget (pg_by_id g) k = Some e \<longrightarrow> pe_id e = k \<and> issued (mk_id ''pr-'') (pg_next_id g) k)
     \<and> mirrors (pg_by_holder g) (pg_by_id g) pe_holder
     \<and> mirrors (pg_by_target g) (pg_by_id g) pe_target"

lemma pr_inv_new [keeps]: "pr_inv pr_new"
  by (simp add: pr_inv_def pr_new_def)

lemma pr_create_fresh: "pr_inv g \<Longrightarrow> hget (pg_by_id g) (mk_id ''pr-'' (pg_next_id g)) = None"
  by (rule pr_ids.fresh_key) (auto simp: pr_inv_def)

lemma pr_inv_create [keeps]:
  assumes inv: "pr_inv g" and nx: "pg_next_id g \<noteq> - 1"
  shows "pr_inv (snd (pr_create h t k g))"
  using inv pr_create_fresh [OF inv] pr_ids.issued_succ [OF nx]
  by (auto simp: pr_inv_def pr_create_def Let_def intro: mirrors_insert)

lemma pr_inv_set_status: "pr_inv g \<Longrightarrow> pr_inv (set_right_status rid s g)"
  by (auto simp: pr_inv_def set_right_status_def intro: mirrors_hupd)

lemma pr_inv_consume [keeps]: "pr_inv g \<Longrightarrow> pr_inv (snd (pr_consume rid g))"
  and pr_inv_revoke [keeps]: "pr_inv g \<Longrightarrow> pr_inv (snd (pr_revoke rid g))"
  and pr_inv_expire_right: "pr_inv g \<Longrightarrow> pr_inv (expire_right rid g)"
  by (simp_all add: pr_consume_def pr_revoke_def expire_right_def pr_inv_set_status split: option.splits)

lemma pr_inv_transfer [keeps]: "pr_inv g \<Longrightarrow> pr_inv (snd (pr_transfer rid h g))"
  by (auto simp: pr_transfer_def pr_inv_def Let_def intro: mirrors_move mirrors_cong split: option.split)

lemma pr_inv_fold_expire: "pr_inv g \<Longrightarrow> pr_inv (fold expire_right rids g)"
  by (induction rids arbitrary: g) (simp_all add: pr_inv_expire_right)

lemma pr_inv_expire [keeps]: "pr_inv g \<Longrightarrow> pr_inv (expire_workspace wid g)"
  by (simp add: expire_workspace_def Let_def pr_inv_fold_expire)

section \<open>What the operations do to a right\<close>

lemma expire_right_frame [simp]:
  "pg_by_holder (expire_right rid g) = pg_by_holder g"
  "pg_by_target (expire_right rid g) = pg_by_target g"
  "pg_next_id (expire_right rid g) = pg_next_id g"
  by (simp_all add: expire_right_def set_right_status_def split: option.splits)

lemma fold_expire_frame [simp]:
  "pg_by_holder (fold expire_right rids g) = pg_by_holder g"
  "pg_by_target (fold expire_right rids g) = pg_by_target g"
  "pg_next_id (fold expire_right rids g) = pg_next_id g"
  by (induction rids arbitrary: g) simp_all

definition expire_entry :: "bool \<Rightarrow> port_right_entry \<Rightarrow> port_right_entry" where
  "expire_entry b e = (if b \<and> pe_status e = PrActive then e\<lparr>pe_status := PrExpired\<rparr> else e)"

lemma expire_entry_simps [simp]:
  "pe_holder (expire_entry b e) = pe_holder e" "pe_target (expire_entry b e) = pe_target e"
  "expire_entry c (expire_entry b e) = expire_entry (b \<or> c) e"
  "map_option (expire_entry False) x = x"
  by (auto simp: expire_entry_def) (cases x; simp add: expire_entry_def)

lemma expire_entry_status:
  "pe_status (expire_entry b e) = (if b \<and> pe_status e = PrActive then PrExpired else pe_status e)"
  by (simp add: expire_entry_def)

lemma hget_expire_right:
  "hget (pg_by_id (expire_right rid g)) k = map_option (expire_entry (k = rid)) (hget (pg_by_id g) k)"
  by (auto simp: expire_right_def set_right_status_def expire_entry_def fun_eq_iff
      split: option.splits)

lemma hget_fold_expire:
  "hget (pg_by_id (fold expire_right rids g)) k
     = map_option (expire_entry (k \<in> set rids)) (hget (pg_by_id g) k)"
  by (induction rids arbitrary: g) (simp_all add: hget_expire_right option.map_comp o_def)

lemma hget_expire_workspace:
  assumes "pr_inv g"
  shows "hget (pg_by_id (expire_workspace wid g)) k
     = map_option (\<lambda>e. expire_entry (pe_holder e = wid \<or> pe_target e = wid) e) (hget (pg_by_id g) k)"
proof -
  have "mirrors (pg_by_holder g) (pg_by_id g) pe_holder" "mirrors (pg_by_target g) (pg_by_id g) pe_target"
    using assms by (auto simp: pr_inv_def)
  from mirrorsD(2) [OF this(1), of k wid] mirrorsD(2) [OF this(2), of k wid]
  show ?thesis
    by (cases "hget (pg_by_id g) k")
      (simp_all add: expire_workspace_def Let_def hget_fold_expire option.map_comp o_def)
qed

definition may_send :: "port_rights_graph \<Rightarrow> workspace_id \<Rightarrow> workspace_id \<Rightarrow> string \<Rightarrow> bool" where
  "may_send g sender target rid \<longleftrightarrow>
     (\<exists>e. hget (pg_by_id g) rid = Some e \<and> pe_holder e = sender \<and> pe_target e = target
        \<and> pe_status e = PrActive \<and> pe_kind e \<in> {Send, SendOnce})"

lemma may_send_iff:
  assumes "pr_inv g"
  shows "may_send g sender target rid
    \<longleftrightarrow> rid \<in> set (hlist (pg_by_holder g) sender) \<and> send_right_to g target rid"
proof -
  have "rid \<in> set (hlist (pg_by_holder g) sender)
          \<longleftrightarrow> (\<exists>e. hget (pg_by_id g) rid = Some e \<and> pe_holder e = sender)"
    using assms mirrorsD(2) [of "pg_by_holder g" "pg_by_id g" pe_holder] by (simp add: pr_inv_def)
  then show ?thesis by (auto simp: may_send_def send_right_to_def split: option.splits)
qed

lemma validate_send_sound:
  assumes "pr_inv g" "validate_send g sender target = Ok rid"
  shows "may_send g sender target rid"
  using assms(2) find_Some may_send_iff [OF assms(1)]
  by (fastforce simp: validate_send_def hlist_def split: option.splits)

lemma validate_send_iff:
  assumes "pr_inv g"
  shows "(\<forall>rid. validate_send g sender target = Ok rid \<longrightarrow> may_send g sender target rid)
       \<and> (is_ok (validate_send g sender target) \<longleftrightarrow> (\<exists>rid. may_send g sender target rid))"
proof (cases "find (send_right_to g target) (hlist (pg_by_holder g) sender)")
  case None
  then have "\<not> may_send g sender target rid" for rid
    using may_send_iff [OF assms] by (auto simp: find_None_iff)
  moreover have "\<exists>e. validate_send g sender target = Err e"
    using None by (auto simp: validate_send_def hlist_def split: option.splits)
  ultimately show ?thesis by auto
next
  case (Some rid)
  then have "may_send g sender target rid"
    using may_send_iff [OF assms, of sender target rid] by (auto simp: find_Some_iff in_set_conv_nth)
  moreover have "validate_send g sender target = Ok rid"
    using Some by (auto simp: validate_send_def hlist_def split: option.splits)
  ultimately show ?thesis by auto
qed

text \<open>A send is validated exactly when the sender holds an active \<open>Send\<close> or \<open>SendOnce\<close>
  right to the target, and the id returned names such a right: no right, no delivery.\<close>

theorem validate_send_exact:
  assumes "pr_inv g"
  shows "(\<forall>rid. validate_send g sender target = Ok rid \<longrightarrow> may_send g sender target rid)
       \<and> (is_ok (validate_send g sender target) \<longleftrightarrow> (\<exists>rid. may_send g sender target rid))"
  using assms by (rule validate_send_iff)

text \<open>When a workspace reaches a terminal state its rights expire: afterwards no active
  right is held by it or targets it, so it can neither send nor be sent to, and every right
  that does not involve it is unchanged.\<close>

theorem expire_workspace_isolates:
  assumes "pr_inv g"
  shows "\<not> may_send (expire_workspace wid g) wid target rid
       \<and> \<not> may_send (expire_workspace wid g) sender wid rid
       \<and> (\<forall>e. pr_get g rid = Some e \<and> pe_holder e \<noteq> wid \<and> pe_target e \<noteq> wid
              \<longrightarrow> pr_get (expire_workspace wid g) rid = Some e)"
proof (intro conjI)
  have cut: "pe_holder e \<noteq> wid \<and> pe_target e \<noteq> wid"
    if "hget (pg_by_id (expire_workspace wid g)) rid = Some e" "pe_status e = PrActive" for e
    using that by (auto simp: hget_expire_workspace [OF assms] expire_entry_status split: if_splits)
  then show "\<not> may_send (expire_workspace wid g) wid target rid"
    "\<not> may_send (expire_workspace wid g) sender wid rid"
    unfolding may_send_def by blast+
  show "\<forall>e. pr_get g rid = Some e \<and> pe_holder e \<noteq> wid \<and> pe_target e \<noteq> wid
              \<longrightarrow> pr_get (expire_workspace wid g) rid = Some e"
    by (simp add: pr_get_def hget_expire_workspace [OF assms] expire_entry_def)
qed

section \<open>Sequences of operations\<close>

datatype pr_op =
  PrCreate workspace_id workspace_id port_right_type | PrTransfer string workspace_id
| PrConsume string | PrRevoke string | PrExpire workspace_id

fun pr_step :: "pr_op \<Rightarrow> port_rights_graph \<Rightarrow> port_rights_graph" where
  "pr_step (PrCreate h t k) g = snd (pr_create h t k g)"
| "pr_step (PrTransfer rid h) g = snd (pr_transfer rid h g)"
| "pr_step (PrConsume rid) g = snd (pr_consume rid g)"
| "pr_step (PrRevoke rid) g = snd (pr_revoke rid g)"
| "pr_step (PrExpire wid) g = expire_workspace wid g"

definition pr_run :: "pr_op list \<Rightarrow> port_rights_graph \<Rightarrow> port_rights_graph" where
  "pr_run ops g = fold pr_step ops g"

text \<open>Enough counter values are left for the operations to come.\<close>

definition pr_room :: "pr_op list \<Rightarrow> port_rights_graph \<Rightarrow> bool" where
  "pr_room ops g \<longleftrightarrow> room (pg_next_id g) (length ops)"

lemma pr_room_Cons:
  assumes "pr_room (op # ops) g"
  shows "pg_next_id g \<noteq> - 1" and "pr_room ops (pr_step op g)"
proof -
  have "pg_next_id (pr_step op g) = pg_next_id g \<or> pg_next_id (pr_step op g) = pg_next_id g + 1"
    by (cases op) (auto simp: pr_create_def pr_transfer_def pr_consume_def pr_revoke_def
        set_right_status_def expire_workspace_def Let_def split: option.splits)
  then show "pg_next_id g \<noteq> - 1" "pr_room ops (pr_step op g)"
    using assms room_Suc [of "pg_next_id g" "length ops"] by (auto simp: pr_room_def)
qed

lemma pr_inv_step: "pr_inv g \<Longrightarrow> pg_next_id g \<noteq> - 1 \<Longrightarrow> pr_inv (pr_step op g)"
  by (cases op) (simp_all add: keeps)

lemma pr_inv_run: "pr_inv g \<Longrightarrow> pr_room ops g \<Longrightarrow> pr_inv (pr_run ops g)"
proof (induction ops arbitrary: g)
  case (Cons op ops)
  then show ?case using pr_room_Cons [OF Cons.prems(2)] by (simp add: pr_run_def pr_inv_step)
qed (simp add: pr_run_def)

lemma pr_step_frozen:
  assumes "pr_inv g" "hget (pg_by_id g) k = Some e" "pe_status e \<noteq> PrActive"
  shows "hget (pg_by_id (pr_step op g)) k = Some e"
proof (cases op)
  case (PrCreate h t kd)
  then show ?thesis using assms pr_create_fresh [OF assms(1)] by (auto simp: pr_create_def Let_def)
next
  case (PrExpire wid)
  then show ?thesis using assms by (simp add: hget_expire_workspace expire_entry_def)
qed (use assms in \<open>auto simp: pr_transfer_def pr_consume_def pr_revoke_def set_right_status_def Let_def
      split: option.split\<close>)

lemma pr_run_frozen_entry:
  assumes "pr_inv g" "pr_room ops g" "hget (pg_by_id g) rid = Some e" "pe_status e \<noteq> PrActive"
  shows "hget (pg_by_id (pr_run ops g)) rid = Some e"
  using assms
proof (induction ops arbitrary: g)
  case (Cons op ops)
  from pr_room_Cons [OF Cons.prems(2)] have "pr_inv (pr_step op g)" "pr_room ops (pr_step op g)"
    using Cons.prems(1) by (simp_all add: pr_inv_step)
  moreover have "hget (pg_by_id (pr_step op g)) rid = Some e"
    using Cons.prems pr_step_frozen by simp
  ultimately show ?case using Cons.IH Cons.prems(4) by (simp add: pr_run_def)
qed (simp add: pr_run_def)

text \<open>Starting from the empty graph, every sequence of fewer than \<open>2^64 - 1\<close> operations keeps
  the holder and target indices exact and the right ids unique.\<close>

theorem pr_run_inv: "length ops < 2 ^ 64 - 1 \<Longrightarrow> pr_inv (pr_run ops pr_new)"
  by (rule pr_inv_run) (simp_all add: pr_inv_new, simp add: pr_room_def room_def pr_new_def)

text \<open>A right that is no longer active (consumed, revoked or expired) is frozen: no later
  sequence of operations changes it, in particular none makes it active again.\<close>

theorem pr_run_frozen:
  assumes "pr_inv g" "pr_room ops g" "pr_get g rid = Some e" "pe_status e \<noteq> PrActive"
  shows "pr_get (pr_run ops g) rid = Some e"
  using pr_run_frozen_entry assms by (simp add: pr_get_def)

text \<open>A send-once right is consumed at most once, whatever happens in between, and after its
  consumption no send is validated by it.\<close>

theorem consume_once:
  assumes inv: "pr_inv g" and ok: "fst (pr_consume rid g) = Ok ()"
    and room: "pr_room ops (snd (pr_consume rid g))"
  shows "fst (pr_consume rid (pr_run ops (snd (pr_consume rid g)))) = Err PrNotActive
       \<and> validate_send (pr_run ops (snd (pr_consume rid g))) sender target \<noteq> Ok rid"
proof -
  let ?g = "snd (pr_consume rid g)"
  from ok obtain e where e: "hget (pg_by_id ?g) rid = Some e" "pe_kind e = SendOnce" "pe_status e = PrConsumed"
    by (auto simp: pr_consume_def set_right_status_def split: option.splits if_splits)
  have "pr_inv ?g" using inv by (rule keeps)
  from pr_run_frozen_entry [OF this room e(1)] e have "hget (pg_by_id (pr_run ops ?g)) rid = Some e" by simp
  then have "fst (pr_consume rid (pr_run ops ?g)) = Err PrNotActive"
      "\<not> may_send (pr_run ops ?g) sender target rid"
    using e by (simp_all add: pr_consume_def [of rid "pr_run ops ?g"] may_send_def)
  then show ?thesis using validate_send_sound [OF pr_inv_run [OF \<open>pr_inv ?g\<close> room]] by blast
qed

section \<open>Concrete instances\<close>

definition sample_rights :: port_rights_graph where
  "sample_rights = pr_run [PrCreate ''a'' ''b'' SendOnce, PrCreate ''b'' ''c'' Send] pr_new"

lemma sample_rights_inv: "pr_inv sample_rights"
  unfolding sample_rights_def by (rule pr_inv_run) (simp_all add: pr_inv_new, simp add: pr_room_def room_def pr_new_def)

lemmas sample_rights_simps =
  sample_rights_def pr_run_def pr_new_def pr_create_def pr_consume_def set_right_status_def
  pr_room_def room_def pr_get_def hpush_def hlist_def hupd_def Let_def

theorem validate_send_exact_witness:
  "pr_inv sample_rights \<and> is_ok (validate_send sample_rights ''a'' ''b'')
   \<and> \<not> is_ok (validate_send sample_rights ''a'' ''c'')
   \<and> (\<exists>rid. may_send sample_rights ''a'' ''b'' rid)"
proof -
  have "is_ok (validate_send sample_rights ''a'' ''b'')" "\<not> is_ok (validate_send sample_rights ''a'' ''c'')"
    by (simp_all add: sample_rights_simps validate_send_def send_right_to_def)
  then show ?thesis
    using validate_send_exact [OF sample_rights_inv, of "''a''" "''b''"] sample_rights_inv by simp
qed

theorem expire_workspace_isolates_witness:
  "pr_inv sample_rights \<and> may_send sample_rights ''a'' ''b'' (mk_id ''pr-'' 1)
   \<and> \<not> may_send (expire_workspace ''b'' sample_rights) ''a'' ''b'' (mk_id ''pr-'' 1)"
  using expire_workspace_isolates [OF sample_rights_inv, of "''b''" "''c''" "mk_id ''pr-'' 1" "''a''"]
    sample_rights_inv
  by (simp add: may_send_def sample_rights_simps)

theorem pr_run_inv_witness:
  "pr_inv (pr_run [PrCreate ''a'' ''b'' SendOnce, PrConsume (mk_id ''pr-'' 1), PrExpire ''b''] pr_new)"
  by (rule pr_run_inv) simp

theorem pr_run_frozen_witness:
  "\<exists>e. pr_get (pr_run [PrTransfer (mk_id ''pr-'' 1) ''c'', PrRevoke (mk_id ''pr-'' 1)]
          (snd (pr_consume (mk_id ''pr-'' 1) sample_rights))) (mk_id ''pr-'' 1) = Some e
     \<and> pe_status e = PrConsumed"
proof -
  let ?g = "snd (pr_consume (mk_id ''pr-'' 1) sample_rights)"
  have "pr_inv ?g" using sample_rights_inv by (rule keeps)
  moreover have "pr_room [PrTransfer (mk_id ''pr-'' 1) ''c'', PrRevoke (mk_id ''pr-'' 1)] ?g"
    by (simp add: sample_rights_simps)
  moreover have "pr_get ?g (mk_id ''pr-'' 1) =
      Some \<lparr>pe_id = mk_id ''pr-'' 1, pe_holder = ''a'', pe_target = ''b'', pe_kind = SendOnce, pe_status = PrConsumed\<rparr>"
    by (simp add: sample_rights_simps)
  ultimately show ?thesis by (auto dest: pr_run_frozen)
qed

theorem consume_once_witness:
  "fst (pr_consume (mk_id ''pr-'' 1) sample_rights) = Ok ()
   \<and> fst (pr_consume (mk_id ''pr-'' 1) (pr_run [PrExpire ''c''] (snd (pr_consume (mk_id ''pr-'' 1) sample_rights))))
       = Err PrNotActive"
proof -
  have "fst (pr_consume (mk_id ''pr-'' 1) sample_rights) = Ok ()"
    "pr_room [PrExpire ''c''] (snd (pr_consume (mk_id ''pr-'' 1) sample_rights))"
    by (simp_all add: sample_rights_simps)
  with consume_once [OF sample_rights_inv] show ?thesis by blast
qed

end
