(* ===== verification/Wacp_Topology.thy ===== *)
theory Wacp_Topology
  imports Wacp_Tree Wacp_Visibility Wacp_Port_Rights
begin

text \<open>
  The topology set of the coordinator (\<open>wacp-coordinator/src/topology.rs\<close>): tree, visibility,
  escalation routing and port rights, with the compound operations that update them together.
  Shown: every reachable topology set is consistent across the four structures, creation is all
  or nothing and wires the new workspace, termination always returns and isolates.
\<close>

section \<open>Operations\<close>

record create_workspace_params =
  cw_id :: workspace_id
  cw_parent :: workspace_id
  cw_owner :: user_id
  cw_originator :: originator
  cw_status :: workspace_state
  cw_task_id :: "task_id option"

record cascade_effect =
  ce_failed :: "workspace_id list"
  ce_reparented :: "workspace_id list"
  ce_rights_expired :: nat

record topology_set =
  ts_tree :: workspace_tree
  ts_visibility :: visibility_graph
  ts_escalation :: escalation_router
  ts_port_rights :: port_rights_graph

definition topology_new :: "workspace_id \<Rightarrow> user_id \<Rightarrow> topology_set" where
  "topology_new root_id root_owner =
     \<lparr>ts_tree = tree_new root_id root_owner,
      ts_visibility = vis_register root_id vis_new,
      ts_escalation = router_register root_id root_owner router_new,
      ts_port_rights = pr_new\<rparr>"

definition params_node :: "create_workspace_params \<Rightarrow> workspace_node" where
  "params_node p =
     \<lparr>n_id = cw_id p, n_parent = Some (cw_parent p), n_children = [], n_owner = cw_owner p,
      n_originator = cw_originator p, n_status = cw_status p, n_task_id = cw_task_id p\<rparr>"

definition create_workspace ::
  "create_workspace_params \<Rightarrow> topology_set \<Rightarrow> (unit, tree_error) result \<times> topology_set" where
  "create_workspace p s =
     (case tree_insert (params_node p) (ts_tree s) of
        (Err e, t) \<Rightarrow> (Err e, s\<lparr>ts_tree := t\<rparr>)
      | (Ok _, t) \<Rightarrow>
          let v1 = vis_register (cw_id p) (ts_visibility s);
              v2 = snd (grant (tr_root t) (cw_id p) v1);
              es = router_register (cw_id p) (cw_owner p) (ts_escalation s);
              g1 = snd (pr_create (cw_parent p) (cw_id p) Send (ts_port_rights s));
              g2 = snd (pr_create (cw_id p) (cw_parent p) Send g1);
              g3 = snd (pr_create (cw_id p) (cw_id p) Receive g2)
          in (Ok (), s\<lparr>ts_tree := t, ts_visibility := v2, ts_escalation := es,
                       ts_port_rights := g3\<rparr>))"

text \<open>The loop over the descendants after a cascade: those that are failed lose their rights.\<close>

primrec expire_failed ::
  "workspace_tree \<Rightarrow> workspace_id list \<Rightarrow> cascade_effect \<times> port_rights_graph
     \<Rightarrow> cascade_effect \<times> port_rights_graph" where
  "expire_failed t [] st = st"
| "expire_failed t (d # ds) st =
     (case st of (eff, g) \<Rightarrow>
        (case tree_get t d of
           None \<Rightarrow> expire_failed t ds (eff, g)
         | Some node \<Rightarrow>
             if n_status node = WsFailed then
               let before = active_count g;
                   g' = expire_workspace d g
               in expire_failed t ds
                    (eff\<lparr>ce_rights_expired := ce_rights_expired eff + (before - active_count g'),
                         ce_failed := ce_failed eff @ [d]\<rparr>, g')
             else expire_failed t ds (eff, g)))"

definition terminate_workspace ::
  "workspace_id \<Rightarrow> workspace_state \<Rightarrow> topology_set \<Rightarrow> (cascade_effect \<times> topology_set) option" where
  "terminate_workspace wid status s =
     (let t1 = update_status wid status (ts_tree s);
          before = active_count (ts_port_rights s);
          g1 = expire_workspace wid (ts_port_rights s);
          eff = \<lparr>ce_failed = [], ce_reparented = [], ce_rights_expired = before - active_count g1\<rparr>
      in if status = WsFailed then
           (case cascade_failure wid t1 of
              None \<Rightarrow> None
            | Some (reparented, t2) \<Rightarrow>
                (case descendants t2 wid of
                   None \<Rightarrow> None
                 | Some ds \<Rightarrow>
                     let (eff', g2) = expire_failed t2 ds (eff, g1)
                     in Some (eff'\<lparr>ce_reparented := reparented\<rparr>,
                              s\<lparr>ts_tree := t2, ts_port_rights := g2\<rparr>)))
         else Some (eff, s\<lparr>ts_tree := t1, ts_port_rights := g1\<rparr>))"

definition transfer_ownership ::
  "workspace_id \<Rightarrow> user_id \<Rightarrow> topology_set \<Rightarrow> (user_id, tree_error) result \<times> topology_set" where
  "transfer_ownership wid new_owner s =
     (case transfer_owner wid new_owner (ts_tree s) of
        (Err e, t) \<Rightarrow> (Err e, s\<lparr>ts_tree := t\<rparr>)
      | (Ok old_owner, t) \<Rightarrow>
          (Ok old_owner, s\<lparr>ts_tree := t,
             ts_escalation := router_update wid new_owner (ts_escalation s)\<rparr>))"

section \<open>Consistency across the four structures\<close>

definition topo_inv :: "topology_set \<Rightarrow> bool" where
  "topo_inv s \<longleftrightarrow> tree_inv (ts_tree s) \<and> vis_inv (ts_visibility s) \<and> pr_inv (ts_port_rights s)
     \<and> (\<forall>k. route (ts_escalation s) k = owner_of (ts_tree s) k)
     \<and> (\<forall>k. hhas (tr_nodes (ts_tree s)) k \<longrightarrow> can_see (ts_visibility s) (tr_root (ts_tree s)) k)"

lemma topo_inv_new [keeps]: "topo_inv (topology_new root owner)"
  using tree_inv_new vis_inv_register [OF vis_inv_new] pr_inv_new
  by (auto simp: topo_inv_def topology_new_def)
    (auto simp: tree_new_def Let_def owner_of_def can_see_def hhas_def split: if_splits)

definition rights_room :: "topology_set \<Rightarrow> bool" where
  "rights_room s \<longleftrightarrow> room (pg_next_id (ts_port_rights s)) 3"

lemma create_workspace_error:
  assumes "fst (create_workspace p s) = Err e"
  shows "snd (create_workspace p s) = s"
proof -
  have "t = ts_tree s" if "tree_insert n (ts_tree s) = (Err e', t)" for n e' t
    using tree_insert_error [of n "ts_tree s" e'] that by simp
  with assms show ?thesis
    by (auto simp: create_workspace_def Let_def split: result.splits prod.splits)
qed

definition wiring :: "create_workspace_params \<Rightarrow> pr_op list" where
  "wiring p = [PrCreate (cw_parent p) (cw_id p) Send, PrCreate (cw_id p) (cw_parent p) Send,
               PrCreate (cw_id p) (cw_id p) Receive]"

lemma create_workspace_Ok:
  assumes "fst (create_workspace p s) = Ok ()"
  shows "fst (tree_insert (params_node p) (ts_tree s)) = Ok ()"
    and "snd (create_workspace p s) =
      \<lparr>ts_tree = snd (tree_insert (params_node p) (ts_tree s)),
       ts_visibility = snd (grant (tr_root (ts_tree s)) (cw_id p) (vis_register (cw_id p) (ts_visibility s))),
       ts_escalation = router_register (cw_id p) (cw_owner p) (ts_escalation s),
       ts_port_rights = pr_run (wiring p) (ts_port_rights s)\<rparr>"
proof -
  have root: "tr_root t = tr_root (ts_tree s)" if "tree_insert n (ts_tree s) = (r, t)" for n r t
    using tree_insert_root [of n "ts_tree s"] that by simp
  show "fst (tree_insert (params_node p) (ts_tree s)) = Ok ()"
    using assms by (auto simp: create_workspace_def Let_def split: result.splits prod.splits)
  then show "snd (create_workspace p s) =
      \<lparr>ts_tree = snd (tree_insert (params_node p) (ts_tree s)),
       ts_visibility = snd (grant (tr_root (ts_tree s)) (cw_id p) (vis_register (cw_id p) (ts_visibility s))),
       ts_escalation = router_register (cw_id p) (cw_owner p) (ts_escalation s),
       ts_port_rights = pr_run (wiring p) (ts_port_rights s)\<rparr>"
    by (auto simp: create_workspace_def Let_def wiring_def pr_run_def dest: root
        split: result.splits prod.splits)
qed

lemma wiring_room: "rights_room s \<Longrightarrow> pr_room (wiring p) (ts_port_rights s)"
  by (simp add: rights_room_def pr_room_def wiring_def numeral_3_eq_3)

lemma params_node_simps [simp]:
  "n_id (params_node p) = cw_id p" "n_owner (params_node p) = cw_owner p"
  "n_parent (params_node p) = Some (cw_parent p)" "n_children (params_node p) = []"
  by (simp_all add: params_node_def)

lemma topo_inv_create [keeps]:
  assumes inv: "topo_inv s" and room: "rights_room s"
  shows "topo_inv (snd (create_workspace p s))"
proof (cases "fst (create_workspace p s)")
  case (Err e)
  then show ?thesis using inv create_workspace_error by metis
next
  case (Ok u)
  then have ok: "fst (create_workspace p s) = Ok ()" by simp
  note s' = create_workspace_Ok [OF ok]
  have "tree_inv (snd (tree_insert (params_node p) (ts_tree s)))"
    using inv s'(1) by (intro keeps) (simp_all add: topo_inv_def)
  moreover have "vis_inv (snd (grant (tr_root (ts_tree s)) (cw_id p) (vis_register (cw_id p) (ts_visibility s))))"
    using inv by (intro keeps) (simp add: topo_inv_def)
  moreover have "pr_inv (pr_run (wiring p) (ts_port_rights s))"
    using inv wiring_room [OF room] by (intro pr_inv_run) (simp_all add: topo_inv_def)
  ultimately show ?thesis
    using inv tree_insert_node [OF s'(1)] by (auto simp: topo_inv_def s'(2) tree_insert_root)
qed

subsection \<open>Creation\<close>

lemma pr_create_entry:
  "hget (pg_by_id (snd (pr_create h t k g))) (fst (pr_create h t k g))
     = Some \<lparr>pe_id = fst (pr_create h t k g), pe_holder = h, pe_target = t, pe_kind = k, pe_status = PrActive\<rparr>"
  by (simp add: pr_create_def Let_def)

lemma pr_create_keeps_entry:
  "pr_inv g \<Longrightarrow> hget (pg_by_id g) r = Some e \<Longrightarrow> hget (pg_by_id (snd (pr_create h t k g))) r = Some e"
  using pr_create_fresh [of g] by (auto simp: pr_create_def Let_def)

lemma pr_create_may_send:
  "k \<in> {Send, SendOnce} \<Longrightarrow> may_send (snd (pr_create h t k g)) h t (fst (pr_create h t k g))"
  by (auto simp: may_send_def pr_create_entry)

lemma may_send_create: "pr_inv g \<Longrightarrow> may_send g a b r \<Longrightarrow> may_send (snd (pr_create h t k g)) a b r"
  unfolding may_send_def using pr_create_keeps_entry by blast

lemma wiring_may_send:
  assumes inv: "pr_inv g" and room: "pr_room (wiring p) g"
  shows "(\<exists>r. may_send (pr_run (wiring p) g) (cw_parent p) (cw_id p) r)
       \<and> (\<exists>r. may_send (pr_run (wiring p) g) (cw_id p) (cw_parent p) r)"
proof -
  let ?g1 = "snd (pr_create (cw_parent p) (cw_id p) Send g)"
  let ?g2 = "snd (pr_create (cw_id p) (cw_parent p) Send ?g1)"
  have run: "pr_run (wiring p) g = snd (pr_create (cw_id p) (cw_id p) Receive ?g2)"
    by (simp add: pr_run_def wiring_def)
  have room1: "pr_room (tl (wiring p)) ?g1" and g1: "pr_inv ?g1"
    using pr_room_Cons [of "hd (wiring p)" "tl (wiring p)" g] room inv
    by (auto simp: wiring_def intro: keeps)
  have g2: "pr_inv ?g2"
    using pr_room_Cons(1) [of "hd (tl (wiring p))" "tl (tl (wiring p))" ?g1] room1 g1
    by (auto simp: wiring_def intro: keeps)
  have "\<exists>r. may_send ?g1 (cw_parent p) (cw_id p) r" using pr_create_may_send by blast
  then have "\<exists>r. may_send ?g2 (cw_parent p) (cw_id p) r" using may_send_create [OF g1] by blast
  moreover have "\<exists>r. may_send ?g2 (cw_id p) (cw_parent p) r" using pr_create_may_send by blast
  ultimately show ?thesis unfolding run using may_send_create [OF g2] by blast
qed

lemma create_workspace_ok_iff:
  "is_ok (fst (create_workspace p s))
   \<longleftrightarrow> hhas (tr_nodes (ts_tree s)) (cw_parent p) \<and> \<not> hhas (tr_nodes (ts_tree s)) (cw_id p)"
  by (auto simp: create_workspace_def tree_insert_def Let_def)


section \<open>Termination\<close>

text \<open>A workspace is isolated when no active right is held by it or targets it.\<close>

definition isolated :: "port_rights_graph \<Rightarrow> workspace_id \<Rightarrow> bool" where
  "isolated g w \<longleftrightarrow>
     (\<forall>rid e. hget (pg_by_id g) rid = Some e \<longrightarrow> pe_status e = PrActive
        \<longrightarrow> pe_holder e \<noteq> w \<and> pe_target e \<noteq> w)"

lemma isolated_expire: "pr_inv g \<Longrightarrow> isolated (expire_workspace w g) w"
  by (auto simp: isolated_def hget_expire_workspace expire_entry_status split: if_splits)

lemma isolated_expire_mono: "pr_inv g \<Longrightarrow> isolated g v \<Longrightarrow> isolated (expire_workspace w g) v"
  unfolding isolated_def
  by (auto simp: hget_expire_workspace expire_entry_status split: if_splits) blast+

lemma active_count_expire_right: "active_count (expire_right rid g) \<le> active_count g"
proof (cases "hget (pg_by_id g) rid")
  case (Some e)
  from length_filter_hvals_hput [OF Some, of "\<lambda>e. pe_status e = PrActive" "e\<lparr>pe_status := PrExpired\<rparr>"] Some
  show ?thesis
    by (auto simp: active_count_def expire_right_def set_right_status_def hupd_def split: if_splits)
qed (simp add: expire_right_def)

lemma active_count_fold_expire: "active_count (fold expire_right rids g) \<le> active_count g"
  by (induction rids arbitrary: g) (auto intro: order_trans active_count_expire_right)

lemma active_count_expire: "active_count (expire_workspace w g) \<le> active_count g"
  unfolding expire_workspace_def Let_def by (meson active_count_fold_expire order_trans)

lemma expire_failed_spec:
  assumes "pr_inv g" "expire_failed t ds (eff, g) = (eff', g')"
  shows "pr_inv g' \<and> ce_failed eff' = ce_failed eff @ filter (\<lambda>d. status_of t d = Some WsFailed) ds
    \<and> (\<forall>v. isolated g v \<longrightarrow> isolated g' v)
    \<and> (\<forall>d. d \<in> set ds \<longrightarrow> status_of t d = Some WsFailed \<longrightarrow> isolated g' d)
    \<and> ce_rights_expired eff' + active_count g' = ce_rights_expired eff + active_count g"
  using assms
proof (induction ds arbitrary: eff g)
  case (Cons d ds)
  show ?case
  proof (cases "status_of t d = Some WsFailed")
    case True
    let ?g = "expire_workspace d g"
    let ?eff = "eff\<lparr>ce_rights_expired := ce_rights_expired eff + (active_count g - active_count ?g),
                    ce_failed := ce_failed eff @ [d]\<rparr>"
    have "expire_failed t ds (?eff, ?g) = (eff', g')"
      using Cons.prems(2) True by (auto simp: status_of_def tree_get_def Let_def)
    from Cons.IH [OF pr_inv_expire [OF Cons.prems(1)] this] True
      isolated_expire [OF Cons.prems(1), of d] isolated_expire_mono [OF Cons.prems(1), of _ d]
      active_count_expire [of d g]
    show ?thesis by auto
  next
    case False
    then have "expire_failed t ds (eff, g) = (eff', g')"
      using Cons.prems(2) by (auto simp: status_of_def tree_get_def split: option.splits)
    from Cons.IH [OF Cons.prems(1) this] False show ?thesis by auto
  qed
qed simp

lemma topo_inv_with_tree:
  assumes "topo_inv s" "tree_inv t" "pr_inv g" "tr_root t = tr_root (ts_tree s)" "owner_of t = owner_of (ts_tree s)"
  shows "topo_inv (s\<lparr>ts_tree := t, ts_port_rights := g\<rparr>)"
proof -
  have "hhas (tr_nodes t) k \<longleftrightarrow> hhas (tr_nodes (ts_tree s)) k" for k
    using fun_cong [OF assms(5), of k]
    by (cases "hget (tr_nodes t) k"; cases "hget (tr_nodes (ts_tree s)) k") (simp_all add: owner_of_def hhas_def)
  with assms show ?thesis by (simp add: topo_inv_def)
qed

lemma cascade_failure_total:
  assumes "tree_inv t"
  obtains rep t' where "cascade_failure w t = Some (rep, t')" "tree_inv t'" "tr_root t' = tr_root t"
    "owner_of t' = owner_of t" "status_of t' w = map_option (\<lambda>_. WsFailed) (status_of t w)"
proof (cases "hget (tr_nodes t) w")
  case None
  then show ?thesis using that [of "[]" t] assms by (simp add: cascade_failure_def status_of_def)
next
  case (Some n)
  from cascade_failure_spec [OF assms Some] obtain rep t' where
    c: "cascade_failure w t = Some (rep, t')" "tree_inv t'" "tr_root t' = tr_root t" "owner_of t' = owner_of t"
    and "status_of t' w = Some WsFailed" by auto
  then have "status_of t' w = map_option (\<lambda>_. WsFailed) (status_of t w)"
    using Some by (simp add: status_of_def)
  with c that show ?thesis by blast
qed

lemma terminate_spec:
  assumes inv: "topo_inv s"
  obtains eff s' where "terminate_workspace w st s = Some (eff, s')" "topo_inv s'"
    "isolated (ts_port_rights s') w"
    "status_of (ts_tree s') w = map_option (\<lambda>_. st) (status_of (ts_tree s) w)"
    "\<And>d. d \<in> set (ce_failed eff) \<Longrightarrow> isolated (ts_port_rights s') d \<and> status_of (ts_tree s') d = Some WsFailed"
    "ce_rights_expired eff + active_count (ts_port_rights s') = active_count (ts_port_rights s)"
proof -
  let ?t1 = "update_status w st (ts_tree s)" and ?g1 = "expire_workspace w (ts_port_rights s)"
  let ?eff = "\<lparr>ce_failed = [], ce_reparented = [],
               ce_rights_expired = active_count (ts_port_rights s) - active_count ?g1\<rparr>"
  have t1: "tree_inv ?t1" and g: "pr_inv (ts_port_rights s)" and g1: "pr_inv ?g1"
    using inv by (auto simp: topo_inv_def intro: keeps)
  note iso = isolated_expire [OF g, of w] and cnt = active_count_expire [of w "ts_port_rights s"]
  show ?thesis
  proof (cases "st = WsFailed")
    case False
    have "topo_inv (s\<lparr>ts_tree := ?t1, ts_port_rights := ?g1\<rparr>)"
      by (rule topo_inv_with_tree [OF inv t1 g1]) simp_all
    with False iso cnt show ?thesis by (intro that) (auto simp: terminate_workspace_def Let_def)
  next
    case True
    obtain rep t2 where c: "cascade_failure w ?t1 = Some (rep, t2)" "tree_inv t2" "tr_root t2 = tr_root ?t1"
      "owner_of t2 = owner_of ?t1" "status_of t2 w = map_option (\<lambda>_. WsFailed) (status_of ?t1 w)"
      by (rule cascade_failure_total [OF t1])
    obtain ds where ds: "descendants t2 w = Some ds"
      using descendants_spec [of t2 w] c(2) by (auto simp: tree_inv_def)
    obtain eff' g2 where e: "expire_failed t2 ds (?eff, ?g1) = (eff', g2)" by fastforce
    note spec = expire_failed_spec [OF g1 e]
    have "topo_inv (s\<lparr>ts_tree := t2, ts_port_rights := g2\<rparr>)"
      using spec c(3,4) by (intro topo_inv_with_tree [OF inv c(2)]) simp_all
    moreover have "terminate_workspace w st s
        = Some (eff'\<lparr>ce_reparented := rep\<rparr>, s\<lparr>ts_tree := t2, ts_port_rights := g2\<rparr>)"
      using True c(1) ds e by (simp add: terminate_workspace_def Let_def)
    ultimately show ?thesis
      using spec iso cnt c(5) True by (intro that) (auto simp: option.map_comp o_def)
  qed
qed

text \<open>C1. Terminating a workspace always returns, whatever the shape of the tree. The four
  structures stay consistent, the workspace (if known) has the requested status, no active port
  right involves it or any workspace reported as failed with it, and the number of expired rights
  reported is the exact drop of the active rights.\<close>

theorem terminate_workspace_correct:
  assumes "topo_inv s"
  shows "\<exists>eff s'. terminate_workspace w st s = Some (eff, s') \<and> topo_inv s'
    \<and> status_of (ts_tree s') w = map_option (\<lambda>_. st) (status_of (ts_tree s) w)
    \<and> isolated (ts_port_rights s') w
    \<and> (\<forall>d. d \<in> set (ce_failed eff)
          \<longrightarrow> isolated (ts_port_rights s') d \<and> status_of (ts_tree s') d = Some WsFailed)
    \<and> ce_rights_expired eff + active_count (ts_port_rights s') = active_count (ts_port_rights s)"
  by (rule terminate_spec [OF assms, of w st]) blast


section \<open>Reachable topology sets\<close>

text \<open>One step is one compound operation, with any arguments; the step for creation needs three
  more values of the right counter.\<close>

inductive topo_step :: "topology_set \<Rightarrow> topology_set \<Rightarrow> bool" where
  Create: "rights_room s \<Longrightarrow> create_workspace p s = (r, s') \<Longrightarrow> topo_step s s'"
| Terminate: "terminate_workspace w st s = Some (eff, s') \<Longrightarrow> topo_step s s'"
| Transfer: "transfer_ownership w u s = (r, s') \<Longrightarrow> topo_step s s'"

lemma topo_inv_transfer [keeps]:
  assumes inv: "topo_inv s"
  shows "topo_inv (snd (transfer_ownership w u s))"
proof (cases "fst (transfer_owner w u (ts_tree s))")
  case (Err e)
  then show ?thesis
    using inv transfer_owner_error [OF Err]
    by (auto simp: transfer_ownership_def split: prod.splits)
next
  case (Ok old)
  let ?t = "snd (transfer_owner w u (ts_tree s))"
  from Ok obtain n where n: "hget (tr_nodes (ts_tree s)) w = Some n"
    and t: "tr_nodes ?t = hput w (n\<lparr>n_owner := u\<rparr>) (tr_nodes (ts_tree s))" "tr_root ?t = tr_root (ts_tree s)"
    by (auto simp: transfer_owner_def split: if_splits option.splits)
  have "tree_inv ?t" using inv by (auto simp: topo_inv_def intro: keeps)
  moreover have "hhas (tr_nodes (ts_tree s)) w" using n by (simp add: hhas_def)
  ultimately show ?thesis
    using inv Ok t by (auto simp: topo_inv_def transfer_ownership_def owner_of_def split: prod.splits)
qed

lemma topo_inv_step:
  assumes "topo_step s s'" "topo_inv s"
  shows "topo_inv s'"
  using assms
proof cases
  case (Create p r)
  then show ?thesis using topo_inv_create [OF assms(2), of p] by simp
next
  case (Terminate w st eff)
  then show ?thesis using terminate_spec [OF assms(2), of w st] by (metis option.inject prod.inject)
next
  case (Transfer w u r)
  then show ?thesis using topo_inv_transfer [OF assms(2), of w u] by simp
qed

text \<open>C8. Every topology set reachable from a fresh one is consistent: the tree is a tree with exact
  indices, both directions of visibility agree, right ids are unique and indexed exactly, the
  escalation route of every workspace is its owner, and the root sees every workspace.\<close>

theorem topo_reachable_inv: "topo_step\<^sup>*\<^sup>* (topology_new root owner) s \<Longrightarrow> topo_inv s"
  by (induction rule: rtranclp_induct) (auto intro: keeps topo_inv_step)

section \<open>Concrete instances\<close>

definition mk_params :: "workspace_id \<Rightarrow> workspace_id \<Rightarrow> user_id \<Rightarrow> create_workspace_params" where
  "mk_params w p u = \<lparr>cw_id = w, cw_parent = p, cw_owner = u, cw_originator = System,
                      cw_status = WsActive, cw_task_id = None\<rparr>"

definition sample_topology :: topology_set where
  "sample_topology = snd (create_workspace (mk_params ''y'' ''x'' ''u'')
     (snd (create_workspace (mk_params ''x'' ''a'' ''v'')
     (snd (create_workspace (mk_params ''a'' ''r'' ''u'') (topology_new ''r'' ''o''))))))"

lemmas sample_topology_simps =
  sample_topology_def mk_params_def create_workspace_def params_node_def topology_new_def tree_new_def
  tree_insert_def hpush_def hlist_def hupd_def hhas_def vis_register_def vis_new_def hdefault_def hset_def
  grant_def router_register_def router_new_def pr_create_def pr_new_def Let_def rights_room_def room_def

lemma sample_topology_inv: "topo_inv sample_topology" "rights_room sample_topology"
proof -
  show "topo_inv sample_topology"
    unfolding sample_topology_def
    by (intro keeps) (simp_all add: sample_topology_simps)
  show "rights_room sample_topology" by (simp add: sample_topology_simps)
qed


theorem terminate_workspace_correct_witness:
  "topo_inv sample_topology
   \<and> (\<exists>eff s'. terminate_workspace ''a'' WsClosed sample_topology = Some (eff, s') \<and> topo_inv s'
        \<and> status_of (ts_tree s') ''a'' = Some WsClosed \<and> isolated (ts_port_rights s') ''a'')"
proof -
  have "status_of (ts_tree sample_topology) ''a'' = Some WsActive"
    by (simp add: sample_topology_simps status_of_def)
  then show ?thesis
    using terminate_workspace_correct [OF sample_topology_inv(1), of "''a''" WsClosed] sample_topology_inv(1)
    by auto
qed

lemma sample_topology_below: "desc_rel (ts_tree sample_topology) ''a'' ''x''" "desc_rel (ts_tree sample_topology) ''a'' ''y''"
proof -
  have "par (ts_tree sample_topology) ''x'' = Some ''a''" "par (ts_tree sample_topology) ''y'' = Some ''x''"
    by (simp_all add: sample_topology_simps par_def)
  then show "desc_rel (ts_tree sample_topology) ''a'' ''x''" "desc_rel (ts_tree sample_topology) ''a'' ''y''"
    by (auto intro: tranclp.intros)
qed


theorem topo_reachable_inv_witness:
  "topo_step\<^sup>*\<^sup>* (topology_new ''r'' ''o'') (snd (create_workspace (mk_params ''a'' ''r'' ''u'') (topology_new ''r'' ''o'')))
   \<and> topo_inv (snd (create_workspace (mk_params ''a'' ''r'' ''u'') (topology_new ''r'' ''o'')))"
proof -
  have "rights_room (topology_new ''r'' ''o'')" by (simp add: sample_topology_simps)
  then have "topo_step\<^sup>*\<^sup>* (topology_new ''r'' ''o'')
      (snd (create_workspace (mk_params ''a'' ''r'' ''u'') (topology_new ''r'' ''o'')))"
    by (intro r_into_rtranclp Create [OF _ prod.collapse [symmetric]])
  with topo_reachable_inv show ?thesis by blast
qed

text \<open>
  The descendants whose rights expire are computed after the cascade has moved workspaces of other
  owners below the root. A workspace of the failing owner below such a workspace is marked failed,
  but is no longer a descendant: it keeps active rights and is not reported. The instance below
  has the chain \<open>a\<close> (owner \<open>u\<close>), \<open>x\<close> (owner \<open>v\<close>), \<open>y\<close> (owner \<open>u\<close>).
\<close>

lemmas terminate_simps =
  terminate_workspace_def cascade_failure_def descendants_def descendants_loop.simps update_status_def
  reparent_def expire_workspace_def expire_right_def set_right_status_def active_count_def hvals_def
  status_of_def tree_get_def

theorem cascade_leaves_rights:
  "\<exists>eff s'. terminate_workspace ''a'' WsFailed sample_topology = Some (eff, s')
     \<and> status_of (ts_tree s') ''y'' = Some WsFailed
     \<and> \<not> isolated (ts_port_rights s') ''y'' \<and> ''y'' \<notin> set (ce_failed eff)"
proof -
  let ?res = "the (terminate_workspace ''a'' WsFailed sample_topology)"
  have some: "terminate_workspace ''a'' WsFailed sample_topology \<noteq> None"
    and y: "status_of (ts_tree (snd ?res)) ''y'' = Some WsFailed"
    and rest: "''y'' \<notin> set (ce_failed (fst ?res))"
    and right: "\<exists>e. hget (pg_by_id (ts_port_rights (snd ?res))) (mk_id ''pr-'' 7) = Some e
         \<and> pe_status e = PrActive \<and> pe_target e = ''y''"
    by (simp_all add: sample_topology_simps terminate_simps)
  from right have "\<not> isolated (ts_port_rights (snd ?res)) ''y''" by (auto simp: isolated_def)
  with some y rest show ?thesis by (intro exI [of _ "fst ?res"] exI [of _ "snd ?res"]) auto
qed

end
