(* ===== verification/Wacp_Task_Graph.thy ===== *)
theory Wacp_Task_Graph
  imports Wacp_Fsm
begin

text \<open>
  The task graph (\<open>wacp-coordinator/src/task_graph.rs\<close>) and the operations on it that schedule
  (\<open>wacp-coordinator/src/scheduling.rs\<close>). Readiness is kept by counters; shown: the counter is
  the number of dependencies still open, so the tasks offered for dispatch are exactly the
  pending tasks whose dependencies are all done, and cancellation returns and takes every
  waiting dependent with it.
\<close>

section \<open>The graph and its operations\<close>

datatype graph_error =
  DependencyNotFound string | DuplicateTask string | TaskNotFound string
| Transition transition_error | WorkspaceAlreadyBound workspace_id | TaskAlreadyBound task_id

record task_graph =
  tg_tasks :: "(string, task) hmap"
  tg_remaining_deps :: "(string, u32) hmap"
  tg_forward :: "(string, task_id list) hmap"
  tg_task_workspace :: "(string, workspace_id) hmap"
  tg_workspace_task :: "(string, task_id) hmap"

definition graph_new :: task_graph where
  "graph_new = \<lparr>tg_tasks = [], tg_remaining_deps = [], tg_forward = [], tg_task_workspace = [],
                tg_workspace_task = []\<rparr>"

text \<open>The loop of \<open>add_task\<close> over the dependencies. An unknown dependency ends it with an error; the
  forward edges pushed before stay.\<close>

primrec add_edges ::
  "task_id \<Rightarrow> task_id list \<Rightarrow> u32 \<Rightarrow> task_graph \<Rightarrow> (u32, graph_error) result \<times> task_graph" where
  "add_edges tid [] remaining g = (Ok remaining, g)"
| "add_edges tid (dep # deps) remaining g =
     (case hget (tg_tasks g) dep of
        None \<Rightarrow> (Err (DependencyNotFound dep), g)
      | Some dep_task \<Rightarrow>
          add_edges tid deps
            (if t_status dep_task \<in> {TsIntegrated, TsCancelled} then remaining else remaining + 1)
            (g\<lparr>tg_forward := hpush dep tid (tg_forward g)\<rparr>))"

definition add_task :: "task \<Rightarrow> task_graph \<Rightarrow> (unit, graph_error) result \<times> task_graph" where
  "add_task task g =
     (if hhas (tg_tasks g) (t_id task) then (Err (DuplicateTask (t_id task)), g)
      else case add_edges (t_id task) (t_depends_on task) 0 g of
        (Err e, g') \<Rightarrow> (Err e, g')
      | (Ok remaining, g') \<Rightarrow>
          (Ok (), g'\<lparr>tg_remaining_deps := hput (t_id task) remaining (tg_remaining_deps g'),
                     tg_tasks := hput (t_id task) task (tg_tasks g')\<rparr>))"

definition graph_get :: "task_graph \<Rightarrow> task_id \<Rightarrow> task option" where
  "graph_get g tid = hget (tg_tasks g) tid"

definition graph_transition ::
  "task_id \<Rightarrow> task_trigger \<Rightarrow> task_graph \<Rightarrow> (task_status, graph_error) result \<times> task_graph" where
  "graph_transition tid trigger g =
     (case hget (tg_tasks g) tid of
        None \<Rightarrow> (Err (TaskNotFound tid), g)
      | Some task \<Rightarrow> (case task_transition (t_status task) trigger of
          Err e \<Rightarrow> (Err (Transition e), g)
        | Ok new_status \<Rightarrow>
            (Ok new_status, g\<lparr>tg_tasks := hput tid (task\<lparr>t_status := new_status\<rparr>) (tg_tasks g)\<rparr>)))"

primrec mark_loop :: "task_id list \<Rightarrow> (string, u32) hmap \<Rightarrow> task_id list \<times> (string, u32) hmap" where
  "mark_loop [] m = ([], m)"
| "mark_loop (dep # deps) m =
     (case hget m dep of
        None \<Rightarrow> mark_loop deps m
      | Some count \<Rightarrow>
          let count' = saturating_sub count 1;
              (ready, m') = mark_loop deps (hput dep count' m)
          in (if count' = 0 then dep # ready else ready, m'))"

definition mark_completed :: "task_id \<Rightarrow> task_graph \<Rightarrow> task_id list \<times> task_graph" where
  "mark_completed tid g =
     (let (ready, m) = mark_loop (hlist (tg_forward g) tid) (tg_remaining_deps g)
      in (ready, g\<lparr>tg_remaining_deps := m\<rparr>))"

definition mark_failed :: "task_graph \<Rightarrow> task_id \<Rightarrow> task_id list" where
  "mark_failed g tid = hlist (tg_forward g) tid"

definition bind_task :: "task_id \<Rightarrow> workspace_id \<Rightarrow> task_graph \<Rightarrow> (unit, graph_error) result \<times> task_graph"
where
  "bind_task tid wid g =
     (case hget (tg_tasks g) tid of
        None \<Rightarrow> (Err (TaskNotFound tid), g)
      | Some task \<Rightarrow>
          if t_workspace_ref task \<noteq> None then (Err (TaskAlreadyBound tid), g)
          else if hhas (tg_workspace_task g) wid then (Err (WorkspaceAlreadyBound wid), g)
          else (Ok (), g\<lparr>
            tg_tasks := hput tid (task\<lparr>t_workspace_ref := Some wid,
                                        t_workspace_history := t_workspace_history task @ [wid]\<rparr>)
                          (tg_tasks g),
            tg_task_workspace := hput tid wid (tg_task_workspace g),
            tg_workspace_task := hput wid tid (tg_workspace_task g)\<rparr>))"

definition unbind_task :: "task_id \<Rightarrow> task_graph \<Rightarrow> task_graph" where
  "unbind_task tid g =
     (case hget (tg_tasks g) tid of
        None \<Rightarrow> g
      | Some task \<Rightarrow>
          g\<lparr>tg_tasks := hput tid (task\<lparr>t_workspace_ref := None\<rparr>) (tg_tasks g),
            tg_workspace_task := (case t_workspace_ref task of
                None \<Rightarrow> tg_workspace_task g
              | Some ws \<Rightarrow> hdel ws (tg_workspace_task g)),
            tg_task_workspace := hdel tid (tg_task_workspace g)\<rparr>)"

definition task_for_workspace :: "task_graph \<Rightarrow> workspace_id \<Rightarrow> task_id option" where
  "task_for_workspace g wid = hget (tg_workspace_task g) wid"

definition dispatchable :: "task_graph \<Rightarrow> task_id list" where
  "dispatchable g =
     map t_id (filter (\<lambda>t. t_status t = TsPending
                         \<and> (case hget (tg_remaining_deps g) (t_id t) of None \<Rightarrow> 0 | Some c \<Rightarrow> c) = 0)
                (hvals (tg_tasks g)))"

definition ready_tasks :: "task_graph \<Rightarrow> task_id list" where
  "ready_tasks g = dispatchable g"

definition is_complete :: "task_graph \<Rightarrow> bool" where
  "is_complete g = list_all (\<lambda>t. t_status t \<in> {TsIntegrated, TsCancelled}) (hvals (tg_tasks g))"

definition dependents :: "task_graph \<Rightarrow> task_id \<Rightarrow> task_id list" where
  "dependents g tid = hlist (tg_forward g) tid"

definition roots :: "task_graph \<Rightarrow> task_id list" where
  "roots g = map t_id (filter (\<lambda>t. t_parent_task t = None) (hvals (tg_tasks g)))"

definition remaining_deps :: "task_graph \<Rightarrow> task_id \<Rightarrow> u32 option" where
  "remaining_deps g tid = hget (tg_remaining_deps g) tid"

section \<open>Scheduling operations\<close>

record dependency_output =
  do_task_id :: task_id
  do_task_name :: string
  do_checkpoint_ref :: checkpoint_id

definition assemble_context :: "task_graph \<Rightarrow> task_id \<Rightarrow> dependency_output list" where
  "assemble_context g tid =
     (case graph_get g tid of
        None \<Rightarrow> []
      | Some task \<Rightarrow> List.map_filter (\<lambda>dep_id. case graph_get g dep_id of
            None \<Rightarrow> None
          | Some dep \<Rightarrow>
              if t_status dep \<notin> {TsCompleted, TsIntegrated} then None
              else map_option (\<lambda>cp. \<lparr>do_task_id = dep_id, do_task_name = t_name dep,
                                     do_checkpoint_ref = cp\<rparr>) (t_checkpoint_ref dep))
          (t_depends_on task))"

record retry_policy =
  rp_max_attempts :: u32
  rp_retry_on_timeout :: bool
  rp_retry_on_budget :: bool
  rp_retry_on_agent_failure :: bool

definition default_retry_policy :: retry_policy where
  "default_retry_policy = \<lparr>rp_max_attempts = 1, rp_retry_on_timeout = False,
     rp_retry_on_budget = False, rp_retry_on_agent_failure = True\<rparr>"

definition should_retry :: "retry_policy \<Rightarrow> task \<Rightarrow> string \<Rightarrow> bool" where
  "should_retry policy task reason =
     (if rp_max_attempts policy = 0 then False
      else let attempts = word_of_nat (length (t_workspace_history task)) :: u32
           in if attempts \<ge> rp_max_attempts policy then False
              else if reason = ''timeout'' then rp_retry_on_timeout policy
              else if reason = ''budget_exceeded'' then rp_retry_on_budget policy
              else rp_retry_on_agent_failure policy)"

definition prepare_retry :: "task_id \<Rightarrow> task_graph \<Rightarrow> task_graph" where
  "prepare_retry tid g = unbind_task tid g"

text \<open>
  \<open>cancel_task\<close> calls itself for the waiting dependents. The loop over the dependents is
  \<open>cancel_deps\<close>, with the recursive call (which starts with the same transition) unfolded in it;
  \<open>None\<close> would mean that the recursion does not return.
\<close>

definition waiting :: "task_graph \<Rightarrow> task_id \<Rightarrow> bool" where
  "waiting g tid = (case graph_get g tid of
     None \<Rightarrow> False | Some t \<Rightarrow> t_status t \<in> {TsDraft, TsPending})"

partial_function (option) cancel_deps ::
  "task_id list \<Rightarrow> task_graph \<Rightarrow> (task_id list \<times> task_graph) option" where
  "cancel_deps deps g =
     (case deps of
        [] \<Rightarrow> Some ([], g)
      | d # ds \<Rightarrow>
          if \<not> waiting g d then cancel_deps ds g
          else case graph_transition d TtCancel g of
            (Err e, g') \<Rightarrow> cancel_deps ds g'
          | (Ok s, g1) \<Rightarrow>
              Option.bind (cancel_deps (mark_failed g1 d) g1) (\<lambda>(sub, g2).
                Option.bind (cancel_deps ds g2) (\<lambda>(rest, g3). Some ((d # sub) @ rest, g3))))"

definition cancel_task :: "task_id \<Rightarrow> task_graph \<Rightarrow> (task_id list \<times> task_graph) option" where
  "cancel_task tid g =
     (case graph_transition tid TtCancel g of
        (Err e, g') \<Rightarrow> Some ([], g')
      | (Ok s, g1) \<Rightarrow>
          Option.bind (cancel_deps (mark_failed g1 tid) g1) (\<lambda>(sub, g2). Some (tid # sub, g2)))"

primrec add_subtasks_loop ::
  "task_id \<Rightarrow> task list \<Rightarrow> task_id list \<Rightarrow> task_graph
     \<Rightarrow> (task_id list, graph_error) result \<times> task_graph" where
  "add_subtasks_loop parent [] ids g = (Ok ids, g)"
| "add_subtasks_loop parent (task # tasks) ids g =
     (let task' = task\<lparr>t_parent_task := Some parent\<rparr>
      in case add_task task' g of
           (Err e, g') \<Rightarrow> (Err e, g')
         | (Ok _, g') \<Rightarrow> add_subtasks_loop parent tasks (ids @ [t_id task']) g')"

definition add_subtasks ::
  "task_id \<Rightarrow> task list \<Rightarrow> task_graph \<Rightarrow> (task_id list, graph_error) result \<times> task_graph" where
  "add_subtasks parent subtasks g =
     (if graph_get g parent = None then (Err (TaskNotFound parent), g)
      else add_subtasks_loop parent subtasks [] g)"

section \<open>The readiness invariant\<close>

definition is_done :: "task_graph \<Rightarrow> task_id \<Rightarrow> bool" where
  "is_done g d = (case hget (tg_tasks g) d of None \<Rightarrow> False | Some t \<Rightarrow> task_terminal (t_status t))"

definition deps_of :: "task_graph \<Rightarrow> task_id \<Rightarrow> task_id list" where
  "deps_of g k = (case hget (tg_tasks g) k of None \<Rightarrow> [] | Some t \<Rightarrow> t_depends_on t)"

definition open_deps :: "task_graph \<Rightarrow> task_id \<Rightarrow> nat" where
  "open_deps g k = length (filter (\<lambda>d. \<not> is_done g d) (deps_of g k))"

text \<open>
  Edges: the forward lists are the dependency lists read backwards, with multiplicities. Counters:
  for a task that waits (\<open>Draft\<close> or \<open>Pending\<close>) the counter is the number of its dependencies that
  are not done. Bindings: the two binding maps are inverse to each other and agree with the tasks.
\<close>

definition edges_ok :: "task_graph \<Rightarrow> bool" where
  "edges_ok g \<longleftrightarrow> hmap_ok (tg_tasks g)
     \<and> (\<forall>k t. hget (tg_tasks g) k = Some t \<longrightarrow> t_id t = k)
     \<and> (\<forall>d k. count_list (hlist (tg_forward g) d) k = count_list (deps_of g k) d)
     \<and> (\<forall>k d. d \<in> set (deps_of g k) \<longrightarrow> hhas (tg_tasks g) d)"

definition counters_ok :: "task_graph \<Rightarrow> bool" where
  "counters_ok g \<longleftrightarrow>
     (\<forall>k. waiting g k \<longrightarrow> (\<exists>c. hget (tg_remaining_deps g) k = Some c \<and> unat c = open_deps g k))"

definition bound_to :: "task_graph \<Rightarrow> task_id \<Rightarrow> workspace_id option" where
  "bound_to g k = Option.bind (hget (tg_tasks g) k) t_workspace_ref"

definition bindings_ok :: "task_graph \<Rightarrow> bool" where
  "bindings_ok g \<longleftrightarrow> (\<forall>k. hget (tg_task_workspace g) k = bound_to g k)
   \<and> (\<forall>k w. hget (tg_workspace_task g) w = Some k \<longleftrightarrow> bound_to g k = Some w)"

definition graph_inv :: "task_graph \<Rightarrow> bool" where
  "graph_inv g \<longleftrightarrow> edges_ok g \<and> counters_ok g \<and> bindings_ok g"

lemma graph_inv_new [keeps]: "graph_inv graph_new"
  by (simp add: graph_inv_def edges_ok_def counters_ok_def bindings_ok_def bound_to_def graph_new_def
      deps_of_def waiting_def graph_get_def)

subsection \<open>Adding a task\<close>

lemma add_edges_Ok:
  assumes "add_edges tid deps r g = (Ok r', g')"
  shows "tg_tasks g' = tg_tasks g \<and> tg_remaining_deps g' = tg_remaining_deps g
    \<and> tg_task_workspace g' = tg_task_workspace g \<and> tg_workspace_task g' = tg_workspace_task g
    \<and> (\<forall>d \<in> set deps. hhas (tg_tasks g) d)
    \<and> r' = r + word_of_nat (length (filter (\<lambda>d. \<not> is_done g d) deps))
    \<and> (\<forall>d k. count_list (hlist (tg_forward g') d) k
          = count_list (hlist (tg_forward g) d) k + (if k = tid then count_list deps d else 0))"
  using assms
proof (induction deps arbitrary: r g)
  case (Cons dep deps)
  let ?g = "g\<lparr>tg_forward := hpush dep tid (tg_forward g)\<rparr>"
  from Cons.prems obtain t where t: "hget (tg_tasks g) dep = Some t"
    and run: "add_edges tid deps (if task_terminal (t_status t) then r else r + 1) ?g = (Ok r', g')"
    by (auto simp: task_terminal_def split: option.splits)
  have dn: "is_done ?g d = is_done g d" for d by (simp add: is_done_def)
  have dep: "is_done g dep = task_terminal (t_status t)" by (simp add: is_done_def t)
  from Cons.IH [OF run] t show ?case
    by (auto simp: dn dep hhas_def add.assoc)
qed simp

lemma is_done_add:
  assumes "hget (tg_tasks g) k = None" "d \<noteq> k"
  shows "is_done (g\<lparr>tg_tasks := hput k t (tg_tasks g)\<rparr>) d = is_done g d"
  using assms by (simp add: is_done_def)

lemma graph_inv_add_task [keeps]:
  assumes inv: "graph_inv g" and ok: "add_task task g = (Ok (), g')"
    and small: "length (t_depends_on task) < 2 ^ 32" and unbound: "t_workspace_ref task = None"
  shows "graph_inv g'"
proof -
  let ?k = "t_id task"
  from ok obtain r g1 where new: "hget (tg_tasks g) ?k = None"
    and run: "add_edges ?k (t_depends_on task) 0 g = (Ok r, g1)"
    and g': "g' = g1\<lparr>tg_remaining_deps := hput ?k r (tg_remaining_deps g1),
                     tg_tasks := hput ?k task (tg_tasks g1)\<rparr>"
    by (auto simp: add_task_def hhas_def split: if_splits prod.splits result.splits)
  note e = add_edges_Ok [OF run]
  have fwd: "count_list (hlist (tg_forward g') d) k = count_list (hlist (tg_forward g) d) k
       + (if k = ?k then count_list (t_depends_on task) d else 0)" for d k
    using e by (simp add: g')
  have edges: "edges_ok g" and cnt: "counters_ok g" and bind: "bindings_ok g"
    using inv by (auto simp: graph_inv_def)
  have tasks: "tg_tasks g' = hput ?k task (tg_tasks g)" using e by (simp add: g')
  have deps: "deps_of g' k = (if k = ?k then t_depends_on task else deps_of g k)" for k
    by (simp add: deps_of_def tasks)
  have known: "d \<noteq> ?k" if "d \<in> set (deps_of g k)" for d k
  proof -
    have "hhas (tg_tasks g) d" using edges that unfolding edges_ok_def by blast
    with new show ?thesis by (auto simp: hhas_def)
  qed
  have known': "d \<noteq> ?k" if "d \<in> set (t_depends_on task)" for d
    using e that new by (auto simp: hhas_def)
  have dn: "is_done g' d = is_done g d" if "d \<noteq> ?k" for d using that by (simp add: is_done_def tasks)
  have opn: "open_deps g' k = (if k = ?k then length (filter (\<lambda>d. \<not> is_done g d) (t_depends_on task))
       else open_deps g k)" for k
    using known known' dn by (auto simp: open_deps_def deps intro!: arg_cong [where f = length] filter_cong)
  have r: "unat r = length (filter (\<lambda>d. \<not> is_done g d) (t_depends_on task))"
  proof -
    have "length (filter (\<lambda>d. \<not> is_done g d) (t_depends_on task)) < 2 ^ 32"
      using small length_filter_le order.strict_trans1 by blast
    then show ?thesis using e by (simp add: unat_of_nat)
  qed
  have "count_list (deps_of g ?k) d = 0" for d using new by (simp add: deps_of_def)
  then have "edges_ok g'"
    using edges e unfolding edges_ok_def by (auto simp: fwd deps tasks)
  moreover have "hget (tg_remaining_deps g') k = (if k = ?k then Some r else hget (tg_remaining_deps g) k)"
      "waiting g' k \<Longrightarrow> k = ?k \<or> waiting g k" for k
    using e by (auto simp: g' waiting_def graph_get_def split: if_splits)
  then have "counters_ok g'"
    using cnt r unfolding counters_ok_def opn by (metis (full_types))
  moreover have "bindings_ok g'"
  proof -
    have "bound_to g' = bound_to g" using new unbound by (simp add: bound_to_def tasks fun_eq_iff)
    with bind e show ?thesis by (simp add: bindings_ok_def g')
  qed
  ultimately show ?thesis by (simp add: graph_inv_def)
qed

subsection \<open>Changing one task\<close>

text \<open>An update of a task that keeps id and dependencies keeps the edges.\<close>

lemma edges_ok_upd:
  assumes "edges_ok g" "hget (tg_tasks g) k = Some t" "t_id t' = k" "t_depends_on t' = t_depends_on t"
    and "tg_tasks g' = hput k t' (tg_tasks g)" "tg_forward g' = tg_forward g"
  shows "edges_ok g'" and "deps_of g' = deps_of g"
proof -
  show deps: "deps_of g' = deps_of g"
    using assms(2,4) by (auto simp: deps_of_def assms(5) fun_eq_iff)
  have "hhas (tg_tasks g) k" using assms(2) by (simp add: hhas_def)
  with assms(1,3) show "edges_ok g'" unfolding edges_ok_def deps assms(5,6) by auto
qed

lemma graph_transition_Ok:
  assumes "graph_transition tid tr g = (Ok s, g')"
  obtains t where "hget (tg_tasks g) tid = Some t" "task_transition (t_status t) tr = Ok s"
    "g' = g\<lparr>tg_tasks := hput tid (t\<lparr>t_status := s\<rparr>) (tg_tasks g)\<rparr>"
  using assms by (auto simp: graph_transition_def split: option.splits result.splits)

lemma graph_transition_Err: "graph_transition tid tr g = (Err e, g') \<Longrightarrow> g' = g"
  by (auto simp: graph_transition_def split: option.splits result.splits)

lemma transition_facts:
  assumes "task_transition s tr = Ok s'"
  shows "\<not> task_terminal s" and "s' \<in> {TsDraft, TsPending} \<Longrightarrow> s \<in> {TsDraft, TsPending}"
  using assms by (auto simp: task_transition_def task_terminal_def split: if_splits task_status.splits task_trigger.splits)

lemma transition_frame:
  assumes "edges_ok g" "bindings_ok g" "graph_transition tid tr g = (Ok s, g')"
  shows "edges_ok g'" "bindings_ok g'" "deps_of g' = deps_of g"
    "tg_remaining_deps g' = tg_remaining_deps g" "tg_forward g' = tg_forward g"
    "is_done g' d \<longleftrightarrow> (if d = tid then task_terminal s else is_done g d)" "\<not> is_done g tid"
    "waiting g' k \<Longrightarrow> waiting g k"
proof -
  from assms(3) obtain t where t: "hget (tg_tasks g) tid = Some t" "task_transition (t_status t) tr = Ok s"
    and g': "g' = g\<lparr>tg_tasks := hput tid (t\<lparr>t_status := s\<rparr>) (tg_tasks g)\<rparr>" by (rule graph_transition_Ok)
  have tid: "t_id t = tid" using assms(1) t(1) by (simp add: edges_ok_def)
  from edges_ok_upd [OF assms(1) t(1), of "t\<lparr>t_status := s\<rparr>" g'] tid
  show "edges_ok g'" "deps_of g' = deps_of g" by (simp_all add: g')
  have "bound_to g' = bound_to g" using t(1) by (simp add: bound_to_def g' fun_eq_iff)
  with assms(2) show "bindings_ok g'" by (simp add: bindings_ok_def g')
  show "is_done g' d \<longleftrightarrow> (if d = tid then task_terminal s else is_done g d)" "\<not> is_done g tid"
    using t transition_facts(1) [OF t(2)] by (auto simp: g' is_done_def)
  show "waiting g' k \<Longrightarrow> waiting g k"
    using t transition_facts(2) [OF t(2)] by (auto simp: g' waiting_def graph_get_def split: if_splits)
qed (use assms(3) in \<open>auto elim: graph_transition_Ok\<close>)

lemma graph_inv_transition [keeps]:
  assumes inv: "graph_inv g" and run: "graph_transition tid tr g = (Ok s, g')" and open_: "\<not> task_terminal s"
  shows "graph_inv g'"
proof -
  have parts: "edges_ok g" "counters_ok g" "bindings_ok g" using inv by (auto simp: graph_inv_def)
  note fr = transition_frame [OF parts(1,3) run]
  have "is_done g' = is_done g" using fr(6,7) open_ by (auto simp: fun_eq_iff)
  then have "open_deps g' = open_deps g" by (simp add: open_deps_def fun_eq_iff fr(3))
  then show ?thesis using parts fr by (simp add: graph_inv_def counters_ok_def)
qed

subsection \<open>Announcing completion\<close>

lemma mark_loop_counts:
  "map_option unat (hget (snd (mark_loop ds m)) k) = map_option (\<lambda>c. unat c - count_list ds k) (hget m k)"
proof (induction ds arbitrary: m)
  case (Cons d ds)
  show ?case
  proof (cases "hget m d")
    case None
    then show ?thesis using Cons [of m] by (auto simp: option.map_comp o_def)
  next
    case (Some c)
    have "unat (saturating_sub c (1 :: u32)) = unat c - 1" by (simp add: unat_saturating_sub)
    with Some Cons [of "hput d (saturating_sub c 1) m"] show ?thesis
      by (auto simp: Let_def case_prod_beta)
  qed
qed simp

lemma mark_loop_ready:
  "k \<in> set (fst (mark_loop ds m)) \<longleftrightarrow> k \<in> set ds \<and> (\<exists>c. hget m k = Some c \<and> unat c \<le> count_list ds k)"
proof (induction ds arbitrary: m)
  case (Cons d ds)
  show ?case
  proof (cases "hget m d")
    case None
    then show ?thesis using Cons [of m] by auto
  next
    case (Some c)
    have u: "unat (saturating_sub c (1 :: u32)) = unat c - 1" by (simp add: unat_saturating_sub)
    then have z: "saturating_sub c (1 :: u32) = 0 \<longleftrightarrow> unat c \<le> 1"
      by (simp add: word_unat_eq_iff)
    have "d \<notin> set ds \<Longrightarrow> count_list ds d = 0" by simp
    moreover have "d \<in> set ds \<Longrightarrow> 0 < count_list ds d" by (meson count_list_0_iff gr0I)
    ultimately show ?thesis using Some Cons [of "hput d (saturating_sub c 1) m"] z u
      by (auto simp: Let_def case_prod_beta)
  qed
qed simp

lemma filter_add_done:
  assumes "\<not> P x"
  shows "length (filter (\<lambda>d. \<not> P d) xs) = length (filter (\<lambda>d. \<not> (d = x \<or> P d)) xs) + count_list xs x"
  using assms by (induction xs) auto

lemma mark_completed_frame:
  assumes "mark_completed tid g = (ready, g')"
  shows "tg_tasks g' = tg_tasks g" "tg_forward g' = tg_forward g"
    "tg_task_workspace g' = tg_task_workspace g" "tg_workspace_task g' = tg_workspace_task g"
  using assms by (auto simp: mark_completed_def Let_def split: prod.splits)

lemma finish_spec:
  assumes inv: "graph_inv g" and run: "graph_transition tid tr g = (Ok s, g1)" and fin: "task_terminal s"
    and mark: "mark_completed tid g1 = (ready, g')"
  shows "graph_inv g'"
    and "waiting g' k \<Longrightarrow> k \<in> set ready \<longleftrightarrow> tid \<in> set (deps_of g' k) \<and> open_deps g' k = 0"
proof -
  have parts: "edges_ok g" "counters_ok g" "bindings_ok g" using inv by (auto simp: graph_inv_def)
  note fr = transition_frame [OF parts(1,3) run] and mf = mark_completed_frame [OF mark]
  have same: "deps_of g' = deps_of g" "waiting g' = waiting g1" "is_done g' = is_done g1" "bound_to g' = bound_to g1"
    using fr(3) mf by (simp_all add: deps_of_def waiting_def graph_get_def is_done_def bound_to_def fun_eq_iff)
  have "edges_ok g'" using fr(1) mf same fr(3) by (simp add: edges_ok_def)
  moreover have "bindings_ok g'" using fr(2) mf same by (simp add: bindings_ok_def)
  moreover have key: "(\<exists>c. hget (tg_remaining_deps g') k = Some c \<and> unat c = open_deps g' k)
      \<and> (k \<in> set ready \<longleftrightarrow> tid \<in> set (deps_of g' k) \<and> open_deps g' k = 0)" if w: "waiting g' k" for k
  proof -
    have "waiting g k" using w same(2) fr(8) by simp
    then obtain c where c: "hget (tg_remaining_deps g) k = Some c" "unat c = open_deps g k"
      using parts(2) by (auto simp: counters_ok_def)
    have "is_done g' d \<longleftrightarrow> d = tid \<or> is_done g d" for d using fr(6) [of d] fin same(3) by auto
    then have split: "open_deps g k = open_deps g' k + count_list (deps_of g k) tid"
      using filter_add_done [of "is_done g" tid "deps_of g k"] fr(7)
      by (simp add: open_deps_def same(1))
    let ?ds = "hlist (tg_forward g) tid"
    have n: "count_list ?ds k = count_list (deps_of g k) tid"
      using parts(1) by (simp add: edges_ok_def)
    have res: "tg_remaining_deps g' = snd (mark_loop ?ds (tg_remaining_deps g))"
      "ready = fst (mark_loop ?ds (tg_remaining_deps g))"
      using mark fr(4,5) by (auto simp: mark_completed_def Let_def split: prod.splits)
    have "map_option unat (hget (tg_remaining_deps g') k) = Some (open_deps g' k)"
      using mark_loop_counts [of ?ds "tg_remaining_deps g" k] c split n by (simp add: res)
    moreover have "k \<in> set ready \<longleftrightarrow> tid \<in> set (deps_of g' k) \<and> open_deps g' k = 0"
      using mark_loop_ready [of k ?ds "tg_remaining_deps g"] c split n count_list_0_iff
      by (metis add_leD2 add_le_same_cancel2 le_add2 le_zero_eq option.inject res(2) same(1))
    ultimately show ?thesis by auto
  qed
  then have "counters_ok g'" by (simp add: counters_ok_def)
  ultimately show "graph_inv g'" by (simp add: graph_inv_def)
  show "waiting g' k \<Longrightarrow> k \<in> set ready \<longleftrightarrow> tid \<in> set (deps_of g' k) \<and> open_deps g' k = 0"
    using key by blast
qed

subsection \<open>Bindings\<close>

lemma graph_inv_same_status:
  assumes inv: "graph_inv g" and t: "hget (tg_tasks g) k = Some t" and t': "t_id t' = t_id t"
      "t_depends_on t' = t_depends_on t" "t_status t' = t_status t"
    and g': "tg_tasks g' = hput k t' (tg_tasks g)" "tg_forward g' = tg_forward g"
      "tg_remaining_deps g' = tg_remaining_deps g" "bindings_ok g'"
  shows "graph_inv g'"
proof -
  have parts: "edges_ok g" "counters_ok g" using inv by (auto simp: graph_inv_def)
  have "t_id t = k" using parts(1) t by (simp add: edges_ok_def)
  then have e: "edges_ok g'" "deps_of g' = deps_of g"
    using edges_ok_upd [OF parts(1) t _ t'(2) g'(1,2)] t' by simp_all
  have "is_done g' = is_done g" "waiting g' = waiting g"
    using t t'(3) by (simp_all add: is_done_def waiting_def graph_get_def g'(1) fun_eq_iff)
  with e parts(2) g' show ?thesis
    by (simp add: graph_inv_def counters_ok_def open_deps_def)
qed

lemma graph_inv_bind [keeps]:
  assumes inv: "graph_inv g" and ok: "bind_task tid wid g = (Ok (), g')"
  shows "graph_inv g'"
proof -
  from ok obtain t where t: "hget (tg_tasks g) tid = Some t" "t_workspace_ref t = None"
    "hget (tg_workspace_task g) wid = None"
    and g': "g' = g\<lparr>tg_tasks := hput tid (t\<lparr>t_workspace_ref := Some wid,
                 t_workspace_history := t_workspace_history t @ [wid]\<rparr>) (tg_tasks g),
               tg_task_workspace := hput tid wid (tg_task_workspace g),
               tg_workspace_task := hput wid tid (tg_workspace_task g)\<rparr>"
    by (auto simp: bind_task_def hhas_def split: option.splits if_splits)
  have b: "bindings_ok g" using inv by (simp add: graph_inv_def)
  have bd: "bound_to g' = (bound_to g)(tid := Some wid)" "bound_to g tid = None"
    using t by (auto simp: bound_to_def g' fun_eq_iff)
  have "bound_to g k \<noteq> Some wid" for k
    using b t(3) unfolding bindings_ok_def by (metis option.distinct(1))
  with b bd have "bindings_ok g'" unfolding bindings_ok_def by (auto simp: g' t(3))
  then show ?thesis by (intro graph_inv_same_status [OF inv t(1)]) (auto simp: g')
qed

lemma graph_inv_unbind [keeps]:
  assumes inv: "graph_inv g"
  shows "graph_inv (unbind_task tid g)"
proof (cases "hget (tg_tasks g) tid")
  case None
  then show ?thesis using inv by (simp add: unbind_task_def)
next
  case (Some t)
  let ?g = "unbind_task tid g"
  have b: "bindings_ok g" using inv by (simp add: graph_inv_def)
  have bt: "bound_to g tid = t_workspace_ref t" using Some by (simp add: bound_to_def)
  have bd: "bound_to ?g = (bound_to g)(tid := None)"
    using Some by (auto simp: bound_to_def unbind_task_def fun_eq_iff)
  have tw: "tg_task_workspace ?g = hdel tid (tg_task_workspace g)"
    and wt: "tg_workspace_task ?g = (case t_workspace_ref t of None \<Rightarrow> tg_workspace_task g
               | Some ws \<Rightarrow> hdel ws (tg_workspace_task g))"
    using Some by (simp_all add: unbind_task_def)
  have one: "bound_to g k = Some w \<Longrightarrow> bound_to g k' = Some w \<Longrightarrow> k = k'" for k k' w
    using b unfolding bindings_ok_def by (metis option.inject)
  have "hget (tg_workspace_task ?g) w = Some k \<longleftrightarrow> bound_to ?g k = Some w" for k w
    using b bt one unfolding bindings_ok_def wt bd
    by (cases "t_workspace_ref t") auto
  then have "bindings_ok ?g" using b unfolding bindings_ok_def by (simp add: tw bd)
  then show ?thesis
    by (intro graph_inv_same_status [OF inv Some, of "t\<lparr>t_workspace_ref := None\<rparr>"])
      (auto simp: unbind_task_def Some)
qed

section \<open>Cancellation\<close>

text \<open>The effect of cancelling a set of tasks, and what the loop over the dependents achieves.\<close>

definition cancelled_by :: "task_id list \<Rightarrow> task_graph \<Rightarrow> task_graph \<Rightarrow> bool" where
  "cancelled_by cs g g' \<longleftrightarrow>
     (\<forall>k. hget (tg_tasks g') k
        = map_option (\<lambda>t. if k \<in> set cs then t\<lparr>t_status := TsCancelled\<rparr> else t) (hget (tg_tasks g) k))
   \<and> hmap_ok (tg_tasks g') = hmap_ok (tg_tasks g)
   \<and> tg_forward g' = tg_forward g \<and> tg_remaining_deps g' = tg_remaining_deps g
   \<and> tg_task_workspace g' = tg_task_workspace g \<and> tg_workspace_task g' = tg_workspace_task g"

definition swept :: "task_id list \<Rightarrow> task_id list \<Rightarrow> task_graph \<Rightarrow> task_graph \<Rightarrow> bool" where
  "swept ds cs g g' \<longleftrightarrow> cancelled_by cs g g' \<and> distinct cs
   \<and> (\<forall>c \<in> set cs. waiting g c \<and> (\<exists>d \<in> set ds. (\<lambda>x y. y \<in> set (dependents g x))\<^sup>*\<^sup>* d c))
   \<and> (\<forall>d \<in> set ds. \<not> waiting g' d) \<and> (\<forall>c \<in> set cs. \<forall>d \<in> set (dependents g c). \<not> waiting g' d)"

lemma cancelled_by_Nil: "cancelled_by [] g g"
  by (simp add: cancelled_by_def option.map_ident)

lemma cancelled_by_trans:
  assumes "cancelled_by cs g g1" "cancelled_by cs' g1 g2"
  shows "cancelled_by (cs @ cs') g g2"
proof -
  have "hget (tg_tasks g2) k
      = map_option (\<lambda>t. if k \<in> set (cs @ cs') then t\<lparr>t_status := TsCancelled\<rparr> else t) (hget (tg_tasks g) k)" for k
    using assms unfolding cancelled_by_def by (cases "hget (tg_tasks g) k") simp_all
  with assms show ?thesis unfolding cancelled_by_def by simp
qed

lemma waiting_cancelled: "cancelled_by cs g g' \<Longrightarrow> waiting g' k \<longleftrightarrow> waiting g k \<and> k \<notin> set cs"
  unfolding cancelled_by_def waiting_def graph_get_def by (auto split: option.splits)

lemma dependents_cancelled: "cancelled_by cs g g' \<Longrightarrow> dependents g' = dependents g"
  by (simp add: cancelled_by_def dependents_def fun_eq_iff)

lemma transition_cancel:
  assumes "graph_transition d TtCancel g = (Ok s, g')"
  shows "cancelled_by [d] g g'"
proof -
  from assms obtain t where t: "hget (tg_tasks g) d = Some t" "task_transition (t_status t) TtCancel = Ok s"
    and g': "g' = g\<lparr>tg_tasks := hput d (t\<lparr>t_status := s\<rparr>) (tg_tasks g)\<rparr>" by (rule graph_transition_Ok)
  have "s = TsCancelled"
    using t(2) by (auto simp: task_transition_def split: if_splits task_status.splits)
  moreover have "hmap_ok (hput d x (tg_tasks g)) = hmap_ok (tg_tasks g)" for x
    using t(1) by (simp add: hmap_ok_hput_known)
  ultimately show ?thesis using t(1) by (auto simp: cancelled_by_def g' option.map_ident)
qed

lemma transition_waiting:
  assumes "waiting g d"
  shows "\<exists>s g'. graph_transition d TtCancel g = (Ok s, g')"
  using assms
  by (auto simp: waiting_def graph_get_def graph_transition_def task_transition_def task_terminal_def
      split: option.splits)

definition live :: "task_graph \<Rightarrow> nat" where
  "live g = card {k. waiting g k}"

lemma finite_waiting: "finite {k. waiting g k}"
proof (rule finite_subset)
  have "k \<in> fst ` set (tg_tasks g)" if "waiting g k" for k
    using that hget_None_iff [of "tg_tasks g" k] by (auto simp: waiting_def graph_get_def split: option.splits)
  then show "{k. waiting g k} \<subseteq> fst ` set (tg_tasks g)" by blast
qed simp

lemma live_cancelled:
  assumes "cancelled_by cs g g'"
  shows "live g' \<le> live g" and "waiting g c \<Longrightarrow> c \<in> set cs \<Longrightarrow> live g' < live g"
  using waiting_cancelled [OF assms] unfolding live_def
  by (auto intro!: card_mono psubset_card_mono finite_waiting)

lemma swept_Cons:
  assumes c1: "cancelled_by [d] g g1" and w: "waiting g d"
    and s1: "swept (dependents g d) sub g1 g2" and s2: "swept ds rest g2 g3"
  shows "swept (d # ds) ((d # sub) @ rest) g g3"
proof -
  have c: "cancelled_by sub g1 g2" "cancelled_by rest g2 g3" using s1 s2 by (auto simp: swept_def)
  note w1 = waiting_cancelled [OF c1] and w2 = waiting_cancelled [OF c(1)] and w3 = waiting_cancelled [OF c(2)]
  have dep: "dependents g1 = dependents g" "dependents g2 = dependents g"
    using dependents_cancelled [OF c1] dependents_cancelled [OF c(1)] by simp_all
  have "cancelled_by ((d # sub) @ rest) g g3"
    using cancelled_by_trans [OF cancelled_by_trans [OF c1 c(1)] c(2)] by simp
  moreover have "distinct ((d # sub) @ rest)"
    using s1 s2 w1 w2 unfolding swept_def by auto
  moreover have "\<exists>x \<in> set (d # ds). (\<lambda>x y. y \<in> set (dependents g x))\<^sup>*\<^sup>* x k"
    if k: "k \<in> set ((d # sub) @ rest)" for k
  proof -
    from k consider "k = d" | "k \<in> set sub" | "k \<in> set rest" by auto
    then show ?thesis
    proof cases
      case 2
      then obtain y where "y \<in> set (dependents g d)" "(\<lambda>x y. y \<in> set (dependents g x))\<^sup>*\<^sup>* y k"
        using s1 dep by (auto simp: swept_def)
      then have "(\<lambda>x y. y \<in> set (dependents g x))\<^sup>*\<^sup>* d k" by (rule converse_rtranclp_into_rtranclp)
      then show ?thesis by auto
    next
      case 3
      then show ?thesis using s2 dep by (auto simp: swept_def)
    qed auto
  qed
  moreover have "waiting g k" if "k \<in> set ((d # sub) @ rest)" for k
    using that w s1 s2 w1 w2 by (auto simp: swept_def)
  moreover have "\<forall>x \<in> set (d # ds). \<not> waiting g3 x"
    using s2 w1 w2 w3 by (auto simp: swept_def)
  moreover have "\<forall>c \<in> set ((d # sub) @ rest). \<forall>x \<in> set (dependents g c). \<not> waiting g3 x"
    using s1 s2 w3 dep by (auto simp: swept_def)
  ultimately show ?thesis unfolding swept_def by blast
qed

lemma cancel_deps_total: "\<exists>cs g'. cancel_deps ds g = Some (cs, g') \<and> swept ds cs g g'"
proof (induction "live g" arbitrary: ds g rule: less_induct)
  case less
  note outer = less.hyps
  show ?case
  proof (induction ds)
    case Nil
    show ?case by (simp add: cancel_deps.simps swept_def cancelled_by_Nil)
  next
    case (Cons d ds)
    show ?case
    proof (cases "waiting g d")
      case False
      with Cons show ?thesis by (auto simp: cancel_deps.simps [of "d # ds"] swept_def dest: waiting_cancelled)
    next
      case True
      then obtain s g1 where tr: "graph_transition d TtCancel g = (Ok s, g1)" using transition_waiting by blast
      note c1 = transition_cancel [OF tr]
      have l1: "live g1 < live g" using live_cancelled(2) [OF c1 True] by simp
      have dep: "mark_failed g1 d = dependents g d"
        using c1 by (simp add: mark_failed_def dependents_def cancelled_by_def)
      from outer [OF l1, of "dependents g d"] obtain sub g2 where
        sub: "cancel_deps (dependents g d) g1 = Some (sub, g2)" "swept (dependents g d) sub g1 g2" by blast
      then have "live g2 < live g" using l1 live_cancelled(1) by (fastforce simp: swept_def)
      from outer [OF this, of ds] obtain rest g3 where
        rest: "cancel_deps ds g2 = Some (rest, g3)" "swept ds rest g2 g3" by blast
      have "cancel_deps (d # ds) g = Some ((d # sub) @ rest, g3)"
        using True tr sub(1) rest(1) dep by (simp add: cancel_deps.simps [of "d # ds"])
      with swept_Cons [OF c1 True sub(2) rest(2)] show ?thesis by blast
    qed
  qed
qed

lemma edge_iff:
  assumes "edges_ok g"
  shows "k \<in> set (dependents g d) \<longleftrightarrow> d \<in> set (deps_of g k)"
proof -
  have "count_list (dependents g d) k = count_list (deps_of g k) d"
    using assms by (simp add: edges_ok_def dependents_def)
  then show ?thesis by (metis count_list_0_iff)
qed

lemma graph_inv_cancelled:
  assumes inv: "graph_inv g" and c: "cancelled_by cs g g'"
    and closed: "\<forall>c \<in> set cs. \<forall>d \<in> set (dependents g c). \<not> waiting g' d"
  shows "graph_inv g'"
proof -
  have parts: "edges_ok g" "counters_ok g" "bindings_ok g" using inv by (auto simp: graph_inv_def)
  have get: "hget (tg_tasks g') k
      = map_option (\<lambda>t. if k \<in> set cs then t\<lparr>t_status := TsCancelled\<rparr> else t) (hget (tg_tasks g) k)" for k
    using c by (simp add: cancelled_by_def)
  have "deps_of g' k = deps_of g k \<and> bound_to g' k = bound_to g k \<and> hhas (tg_tasks g') k = hhas (tg_tasks g) k" for k
    by (cases "hget (tg_tasks g) k") (simp_all add: deps_of_def bound_to_def hhas_def get)
  then have deps: "deps_of g' = deps_of g" and bound: "bound_to g' = bound_to g"
    and has: "hhas (tg_tasks g') = hhas (tg_tasks g)" by (simp_all add: fun_eq_iff)
  have tids: "\<forall>k t. hget (tg_tasks g') k = Some t \<longrightarrow> t_id t = k"
    using parts(1) by (auto simp: edges_ok_def get split: if_splits)
  have edges: "edges_ok g'"
    using parts(1) c tids unfolding edges_ok_def cancelled_by_def deps has by metis
  moreover have "bindings_ok g'" using parts(3) c by (simp add: bindings_ok_def bound cancelled_by_def)
  moreover have "open_deps g' k = open_deps g k" if w: "waiting g' k" for k
  proof -
    have "d \<notin> set cs" if "d \<in> set (deps_of g k)" for d
      using that w closed edge_iff [OF parts(1), of k d] by blast
    then have "is_done g' d = is_done g d" if "d \<in> set (deps_of g k)" for d
      using that by (auto simp: is_done_def get split: option.splits)
    then show ?thesis by (auto simp: open_deps_def deps intro!: arg_cong [where f = length] filter_cong)
  qed
  then have "counters_ok g'"
    using parts(2) c waiting_cancelled [OF c] unfolding counters_ok_def cancelled_by_def by metis
  ultimately show ?thesis by (simp add: graph_inv_def)
qed

definition cancellable :: "task_graph \<Rightarrow> task_id \<Rightarrow> bool" where
  "cancellable g tid \<longleftrightarrow> is_ok (fst (graph_transition tid TtCancel g))"

lemma cancellable_iff:
  "cancellable g tid \<longleftrightarrow>
     (\<exists>t. graph_get g tid = Some t \<and> t_status t \<in> {TsDraft, TsPending, TsAssigned, TsInProgress})"
  by (auto simp: cancellable_def graph_transition_def graph_get_def task_transition_def task_terminal_def
      split: option.splits task_status.splits)

lemma cancel_task_spec:
  assumes inv: "graph_inv g"
  shows "\<exists>cs g'. cancel_task tid g = Some (cs, g') \<and> graph_inv g' \<and> cancelled_by cs g g' \<and> distinct cs
    \<and> (cs \<noteq> [] \<longleftrightarrow> cancellable g tid) \<and> (cancellable g tid \<longrightarrow> hd cs = tid)
    \<and> (\<forall>c \<in> set cs. (\<lambda>x y. y \<in> set (dependents g x))\<^sup>*\<^sup>* tid c)
    \<and> (\<forall>c \<in> set cs. \<forall>d \<in> set (dependents g c). \<not> waiting g' d)"
proof (cases "graph_transition tid TtCancel g")
  case (Pair r g1)
  show ?thesis
  proof (cases r)
    case (Err e)
    with Pair graph_transition_Err [of tid TtCancel g e g1] inv cancelled_by_Nil [of g] show ?thesis
      by (simp add: cancel_task_def cancellable_def)
  next
    case (Ok s)
    with Pair have tr: "graph_transition tid TtCancel g = (Ok s, g1)" by simp
    note c1 = transition_cancel [OF tr]
    have dep: "mark_failed g1 tid = dependents g tid" "dependents g1 = dependents g"
      using c1 by (simp_all add: mark_failed_def dependents_def cancelled_by_def fun_eq_iff)
    obtain sub g2 where sub: "cancel_deps (dependents g tid) g1 = Some (sub, g2)"
      "swept (dependents g tid) sub g1 g2" using cancel_deps_total by blast
    have c2: "cancelled_by (tid # sub) g g2"
      using cancelled_by_trans [OF c1] sub(2) by (simp add: swept_def)
    have closed: "\<forall>c \<in> set (tid # sub). \<forall>d \<in> set (dependents g c). \<not> waiting g2 d"
      using sub(2) dep(2) by (auto simp: swept_def)
    have "distinct (tid # sub)"
      using sub(2) waiting_cancelled [OF c1, of tid] by (auto simp: swept_def)
    moreover have "\<forall>c \<in> set (tid # sub). (\<lambda>x y. y \<in> set (dependents g x))\<^sup>*\<^sup>* tid c"
      using sub(2) dep(2) by (auto simp: swept_def intro: converse_rtranclp_into_rtranclp)
    moreover have "cancel_task tid g = Some (tid # sub, g2)" "cancellable g tid"
      using tr dep(1) sub(1) by (simp_all add: cancel_task_def cancellable_def)
    ultimately show ?thesis using graph_inv_cancelled [OF inv c2 closed] c2 closed by auto
  qed
qed

text \<open>C3. Cancelling a task always returns, on any graph. It cancels exactly the tasks it reports (each
  once; none if the task cannot be cancelled), all of them reachable from the task over dependent
  edges; afterwards no dependent of a cancelled task is waiting, so none waits forever, and the
  readiness counters of the remaining waiting tasks are still exact.\<close>

theorem cancel_task_correct:
  assumes "graph_inv g"
  shows "\<exists>cs g'. cancel_task tid g = Some (cs, g') \<and> graph_inv g' \<and> distinct cs
    \<and> (cs \<noteq> [] \<longleftrightarrow> cancellable g tid)
    \<and> (\<forall>k. graph_get g' k = map_option (\<lambda>t. if k \<in> set cs then t\<lparr>t_status := TsCancelled\<rparr> else t) (graph_get g k))
    \<and> (\<forall>c \<in> set cs. (\<lambda>x y. y \<in> set (dependents g x))\<^sup>*\<^sup>* tid c)
    \<and> (\<forall>c \<in> set cs. \<forall>d \<in> set (dependents g c). \<not> waiting g' d)"
  using cancel_task_spec [OF assms, of tid] unfolding cancelled_by_def graph_get_def by blast

section \<open>Reachable graphs\<close>

text \<open>
  One step of a graph's life: a task is added (unbound, with fewer than \<open>2^32\<close> dependencies),
  moves to an open status, ends and is announced, is cancelled with its waiting dependents, or is
  bound to or unbound from a workspace. An operation that returns an error is not a step here:
  apart from \<open>add_task\<close> it changes nothing.
\<close>

inductive graph_step :: "task_graph \<Rightarrow> task_graph \<Rightarrow> bool" where
  Add: "\<lbrakk>add_task task g = (Ok (), g'); length (t_depends_on task) < 2 ^ 32; t_workspace_ref task = None\<rbrakk>
        \<Longrightarrow> graph_step g g'"
| Move: "\<lbrakk>graph_transition tid tr g = (Ok s, g'); \<not> task_terminal s\<rbrakk> \<Longrightarrow> graph_step g g'"
| Finish: "\<lbrakk>graph_transition tid tr g = (Ok s, g1); task_terminal s; mark_completed tid g1 = (ready, g')\<rbrakk>
        \<Longrightarrow> graph_step g g'"
| Cancel: "cancel_task tid g = Some (cs, g') \<Longrightarrow> graph_step g g'"
| Bind: "bind_task tid wid g = (Ok (), g') \<Longrightarrow> graph_step g g'"
| Unbind: "graph_step g (unbind_task tid g)"

lemma graph_inv_step:
  assumes "graph_step g g'" "graph_inv g"
  shows "graph_inv g'"
  using assms
proof cases
  case (Cancel tid cs)
  then show ?thesis using cancel_task_spec [OF assms(2), of tid] by auto
qed (use assms(2) in \<open>auto intro: keeps finish_spec(1)\<close>)

lemma graph_inv_reachable: "graph_step\<^sup>*\<^sup>* graph_new g \<Longrightarrow> graph_inv g"
  by (induction rule: rtranclp_induct) (auto intro: keeps graph_inv_step)

lemma dispatchable_inv:
  assumes "graph_inv g"
  shows "tid \<in> set (dispatchable g) \<longleftrightarrow>
    (\<exists>t. graph_get g tid = Some t \<and> t_status t = TsPending \<and> (\<forall>d \<in> set (t_depends_on t). is_done g d))"
proof -
  have parts: "edges_ok g" "counters_ok g" using assms by (auto simp: graph_inv_def)
  have vals: "t \<in> set (hvals (tg_tasks g)) \<longleftrightarrow> hget (tg_tasks g) (t_id t) = Some t" for t
    using parts(1) hvals_iff [of "tg_tasks g" t] by (auto simp: edges_ok_def)
  have "(case hget (tg_remaining_deps g) (t_id t) of None \<Rightarrow> 0 | Some c \<Rightarrow> c) = 0
      \<longleftrightarrow> (\<forall>d \<in> set (t_depends_on t). is_done g d)"
    if t: "hget (tg_tasks g) (t_id t) = Some t" "t_status t = TsPending" for t
  proof -
    have "waiting g (t_id t)" using t by (simp add: waiting_def graph_get_def)
    then obtain c where c: "hget (tg_remaining_deps g) (t_id t) = Some c" "unat c = open_deps g (t_id t)"
      using parts(2) by (auto simp: counters_ok_def)
    have "c = 0 \<longleftrightarrow> open_deps g (t_id t) = 0" using c(2) by (simp add: word_unat_eq_iff)
    also have "\<dots> \<longleftrightarrow> (\<forall>d \<in> set (t_depends_on t). is_done g d)"
      using t(1) by (auto simp: open_deps_def deps_of_def filter_empty_conv)
    finally show ?thesis using c(1) by simp
  qed
  moreover have "t_id t = tid" if "hget (tg_tasks g) tid = Some t" for t
    using parts(1) that by (simp add: edges_ok_def)
  ultimately show ?thesis
    unfolding dispatchable_def graph_get_def by (auto simp: vals)
qed



text \<open>A task is bound to at most one workspace and a workspace to at most one task, and lookup by
  workspace is the inverse of the task's own reference, on every reachable graph.\<close>

theorem bindings_bijective:
  assumes "graph_step\<^sup>*\<^sup>* graph_new g"
  shows "task_for_workspace g w = Some k \<longleftrightarrow> (\<exists>t. graph_get g k = Some t \<and> t_workspace_ref t = Some w)"
  using graph_inv_reachable [OF assms]
  by (auto simp: graph_inv_def bindings_ok_def task_for_workspace_def bound_to_def graph_get_def
      bind_eq_Some_conv)

section \<open>Concrete instances\<close>

definition mk_task :: "task_id \<Rightarrow> task_id list \<Rightarrow> task_status \<Rightarrow> task" where
  "mk_task tid deps s = \<lparr>t_id = tid, t_name = tid, t_description = [], t_depends_on = deps,
     t_parent_task = None, t_status = s, t_workspace_ref = None, t_workspace_history = [],
     t_checkpoint_ref = None\<rparr>"

definition sample_graph :: task_graph where
  "sample_graph = snd (add_task (mk_task ''b'' [''a''] TsPending) (snd (add_task (mk_task ''a'' [] TsPending) graph_new)))"

lemmas sample_graph_simps =
  sample_graph_def mk_task_def add_task_def graph_new_def hhas_def hpush_def hlist_def
  graph_transition_def task_transition_def task_terminal_def mark_completed_def saturating_sub_def
  dispatchable_def hvals_def graph_get_def is_done_def deps_of_def waiting_def

lemma sample_graph_reachable: "graph_step\<^sup>*\<^sup>* graph_new sample_graph"
proof -
  let ?g1 = "snd (add_task (mk_task ''a'' [] TsPending) graph_new)"
  have "add_task (mk_task ''a'' [] TsPending) graph_new = (Ok (), ?g1)"
    "add_task (mk_task ''b'' [''a''] TsPending) ?g1 = (Ok (), sample_graph)"
    by (simp_all add: sample_graph_simps)
  then have "graph_step graph_new ?g1" "graph_step ?g1 sample_graph"
    by (auto intro!: Add simp: mk_task_def)
  then show ?thesis by auto
qed



theorem cancel_task_correct_witness:
  "graph_inv sample_graph \<and> cancellable sample_graph ''a''
   \<and> (\<exists>cs g'. cancel_task ''a'' sample_graph = Some (cs, g') \<and> cs \<noteq> [] \<and> graph_inv g')"
proof -
  have "cancellable sample_graph ''a''" by (simp add: cancellable_iff sample_graph_simps)
  then show ?thesis
    using cancel_task_correct [OF graph_inv_reachable [OF sample_graph_reachable], of "''a''"]
      graph_inv_reachable [OF sample_graph_reachable] by blast
qed

theorem bindings_bijective_witness:
  "task_for_workspace (snd (bind_task ''a'' ''w'' sample_graph)) ''w'' = Some ''a''"
proof -
  let ?g = "snd (bind_task ''a'' ''w'' sample_graph)"
  have "bind_task ''a'' ''w'' sample_graph = (Ok (), ?g)"
    by (simp add: bind_task_def sample_graph_simps)
  then have "graph_step\<^sup>*\<^sup>* graph_new ?g"
    using sample_graph_reachable by (auto intro: Bind rtranclp.rtrancl_into_rtrancl)
  moreover have "\<exists>t. graph_get ?g ''a'' = Some t \<and> t_workspace_ref t = Some ''w''"
    by (simp add: bind_task_def sample_graph_simps)
  ultimately show ?thesis using bindings_bijective by blast
qed

text \<open>
  The error path of \<open>add_task\<close> keeps the forward edges pushed before the unknown dependency was met.
  If the task is added again once the dependency exists, the edge is there twice, its counter is
  decremented twice, and the task is offered for dispatch with an open dependency: here \<open>x\<close>
  depends on \<open>a\<close> and \<open>b\<close>, and \<open>b\<close> is still pending.
\<close>

definition retried_add :: task_graph where
  "retried_add =
     (let g1 = snd (add_task (mk_task ''a'' [] TsPending) graph_new);
          g2 = snd (add_task (mk_task ''x'' [''a'', ''b''] TsPending) g1);
          g3 = snd (add_task (mk_task ''b'' [] TsPending) g2);
          g4 = snd (add_task (mk_task ''x'' [''a'', ''b''] TsPending) g3);
          g5 = snd (graph_transition ''a'' TtCancel g4)
      in snd (mark_completed ''a'' g5))"

theorem retried_add_dispatches_early:
  "''x'' \<in> set (dispatchable retried_add) \<and> \<not> is_done retried_add ''b''
   \<and> ''b'' \<in> set (deps_of retried_add ''x'')"
  by (simp add: retried_add_def sample_graph_simps)

end
