(* ===== verification/Wacp_Resource.thy ===== *)
theory Wacp_Resource
  imports Wacp_Types
begin

text \<open>
  Resource tracking of the coordinator (\<open>wacp-coordinator/src/resource.rs\<close>): workspace timeouts,
  budget checks and liveness. Shown: the tracked time of a workspace is exactly the time it spent in
  timer-active states, and a budget check reports exactly the dimensions at their limit and misses no
  dimension that has reached the warning threshold.
\<close>

section \<open>Timeouts\<close>

definition is_timer_active :: "workspace_state \<Rightarrow> bool" where
  "is_timer_active s = (s \<in> {WsActive, WsBlocked, WsConflicted})"

record timeout_entry =
  te_elapsed_ms :: u64
  te_limit_ms :: u64
  te_running :: bool
  te_last_resume_ms :: u64

type_synonym timeout_tracker = "(string, timeout_entry) hmap"

definition timeout_new :: timeout_tracker where
  "timeout_new = []"

definition timeout_register :: "workspace_id \<Rightarrow> u64 \<Rightarrow> timeout_tracker \<Rightarrow> timeout_tracker" where
  "timeout_register wid limit_ms m =
     hput wid \<lparr>te_elapsed_ms = 0, te_limit_ms = limit_ms, te_running = False, te_last_resume_ms = 0\<rparr> m"

definition on_state_change :: "workspace_id \<Rightarrow> workspace_state \<Rightarrow> u64 \<Rightarrow> timeout_tracker \<Rightarrow> timeout_tracker"
where
  "on_state_change wid new_state now_ms m =
     (case hget m wid of
        None \<Rightarrow> m
      | Some entry \<Rightarrow>
          let should_run = is_timer_active new_state in
          if should_run \<and> \<not> te_running entry
          then hput wid (entry\<lparr>te_running := True, te_last_resume_ms := now_ms\<rparr>) m
          else if \<not> should_run \<and> te_running entry
          then hput wid (entry\<lparr>te_elapsed_ms := te_elapsed_ms entry + saturating_sub now_ms (te_last_resume_ms entry),
                              te_running := False\<rparr>) m
          else m)"

definition timeout_extend :: "workspace_id \<Rightarrow> u64 \<Rightarrow> timeout_tracker \<Rightarrow> timeout_tracker" where
  "timeout_extend wid additional_ms m =
     hupd wid (\<lambda>entry. entry\<lparr>te_limit_ms := te_limit_ms entry + additional_ms\<rparr>) m"

definition entry_elapsed :: "timeout_entry \<Rightarrow> u64 \<Rightarrow> u64" where
  "entry_elapsed entry now_ms =
     (if te_running entry then te_elapsed_ms entry + saturating_sub now_ms (te_last_resume_ms entry)
      else te_elapsed_ms entry)"

definition elapsed_ms :: "timeout_tracker \<Rightarrow> workspace_id \<Rightarrow> u64 \<Rightarrow> u64" where
  "elapsed_ms m wid now_ms = (case hget m wid of Some entry \<Rightarrow> entry_elapsed entry now_ms | None \<Rightarrow> 0)"

definition check_expired :: "timeout_tracker \<Rightarrow> u64 \<Rightarrow> workspace_id list" where
  "check_expired m now_ms =
     List.map_filter (\<lambda>(wid, entry).
       if te_limit_ms entry = 0 then None
       else if entry_elapsed entry now_ms \<ge> te_limit_ms entry then Some wid else None) m"

definition timeout_remove :: "workspace_id \<Rightarrow> timeout_tracker \<Rightarrow> timeout_tracker" where
  "timeout_remove wid m = hdel wid m"

text \<open>
  The reference: the time a workspace spends in timer-active states, over a history of state changes
  with their times.
\<close>

primrec active_time :: "bool \<Rightarrow> nat \<Rightarrow> (workspace_state \<times> u64) list \<Rightarrow> nat \<Rightarrow> nat" where
  "active_time running since [] now = (if running then now - since else 0)"
| "active_time running since (ev # evs) now =
     (if running then unat (snd ev) - since else 0)
     + active_time (is_timer_active (fst ev)) (unat (snd ev)) evs now"

definition tracked :: "workspace_id \<Rightarrow> (workspace_state \<times> u64) list \<Rightarrow> timeout_tracker \<Rightarrow> timeout_tracker" where
  "tracked wid evs m = fold (\<lambda>(s, t). on_state_change wid s t) evs m"

definition spent :: "timeout_entry \<Rightarrow> nat \<Rightarrow> nat" where
  "spent e t = unat (te_elapsed_ms e) + (if te_running e then t - unat (te_last_resume_ms e) else 0)"

definition entry_ok :: "timeout_entry \<Rightarrow> nat \<Rightarrow> bool" where
  "entry_ok e t \<longleftrightarrow> spent e t \<le> t \<and> (te_running e \<longrightarrow> unat (te_last_resume_ms e) \<le> t)"

lemma entry_elapsed_spent:
  assumes "entry_ok e (unat now)"
  shows "unat (entry_elapsed e now) = spent e (unat now)"
proof -
  have "unat (te_elapsed_ms e) + unat (saturating_sub now (te_last_resume_ms e)) < 2 ^ 64" if "te_running e"
    using assms that unat_bound [of now] by (auto simp: entry_ok_def spent_def unat_saturating_sub)
  then show ?thesis
    by (simp add: entry_elapsed_def spent_def unat_saturating_sub unat_word_ariths)
qed

lemma entry_later: "entry_ok e t \<Longrightarrow> t \<le> t' \<Longrightarrow> entry_ok e t' \<and> spent e t' = spent e t + (if te_running e then t' - t else 0)"
  by (auto simp: entry_ok_def spent_def)

lemma on_state_change_entry:
  assumes get: "hget m wid = Some e" and ok: "entry_ok e (unat t)"
  obtains e' where "hget (on_state_change wid s t m) wid = Some e'" "te_limit_ms e' = te_limit_ms e"
    "te_running e' = is_timer_active s" "entry_ok e' (unat t)" "spent e' (unat t) = spent e (unat t)"
proof -
  let ?p = "e\<lparr>te_elapsed_ms := te_elapsed_ms e + saturating_sub t (te_last_resume_ms e), te_running := False\<rparr>"
  consider "is_timer_active s" "\<not> te_running e" | "\<not> is_timer_active s" "te_running e"
    | "is_timer_active s = te_running e" by blast
  then show ?thesis
  proof cases
    case 1
    then show ?thesis
      using ok by (intro that [of "e\<lparr>te_running := True, te_last_resume_ms := t\<rparr>"])
        (auto simp: on_state_change_def get entry_ok_def spent_def)
  next
    case 2
    then have "unat (te_elapsed_ms e + saturating_sub t (te_last_resume_ms e)) = spent e (unat t)"
      using entry_elapsed_spent [OF ok] by (simp add: entry_elapsed_def)
    with 2 ok show ?thesis
      by (intro that [of ?p]) (auto simp: on_state_change_def get entry_ok_def spent_def)
  next
    case 3
    then show ?thesis using ok by (intro that [of e]) (auto simp: on_state_change_def get)
  qed
qed

lemma tracked_entry:
  assumes "hget m wid = Some e" "entry_ok e since" "sorted (since # map (unat \<circ> snd) evs @ [now])"
  shows "\<exists>e'. hget (tracked wid evs m) wid = Some e' \<and> te_limit_ms e' = te_limit_ms e \<and> entry_ok e' now
    \<and> spent e' now = spent e since + active_time (te_running e) since evs now"
  using assms
proof (induction evs arbitrary: m e since)
  case Nil
  then show ?case using entry_later [of e since now] by (simp add: tracked_def)
next
  case (Cons ev evs)
  obtain s t where ev: "ev = (s, t)" by (cases ev)
  have le: "since \<le> unat t" using Cons.prems(3) by (simp add: ev)
  note later = entry_later [OF Cons.prems(2) le]
  obtain e1 where e1: "hget (on_state_change wid s t m) wid = Some e1" "te_limit_ms e1 = te_limit_ms e"
    "te_running e1 = is_timer_active s" "entry_ok e1 (unat t)" "spent e1 (unat t) = spent e (unat t)"
    using on_state_change_entry [OF Cons.prems(1), of t s] later by blast
  from Cons.IH [OF e1(1,4)] Cons.prems(3) e1 later show ?case
    by (auto simp: ev tracked_def)
qed

text \<open>C21. The tracker measures the right time: for a registered workspace and any history of state changes
  with times that do not go backwards, the elapsed time it reports at a later moment is exactly the
  time spent in \<open>Active\<close>, \<open>Blocked\<close> or \<open>Conflicted\<close>; no addition wraps.\<close>

theorem elapsed_exact:
  assumes "sorted (map (unat \<circ> snd) evs @ [unat now])"
  shows "unat (elapsed_ms (tracked wid evs (timeout_register wid limit m)) wid now)
       = active_time False 0 evs (unat now)"
proof -
  let ?e = "\<lparr>te_elapsed_ms = 0, te_limit_ms = limit, te_running = False, te_last_resume_ms = 0\<rparr>"
  have "\<exists>e'. hget (tracked wid evs (timeout_register wid limit m)) wid = Some e' \<and> te_limit_ms e' = te_limit_ms ?e
      \<and> entry_ok e' (unat now) \<and> spent e' (unat now) = spent ?e 0 + active_time (te_running ?e) 0 evs (unat now)"
    by (rule tracked_entry) (use assms in \<open>auto simp: timeout_register_def entry_ok_def spent_def\<close>)
  then show ?thesis
    using entry_elapsed_spent by (auto simp: elapsed_ms_def spent_def)
qed

theorem elapsed_exact_witness:
  "unat (elapsed_ms (tracked ''w'' [(WsActive, 10), (WsBlocked, 15), (WsSuspended, 20), (WsActive, 50)]
     (timeout_register ''w'' 100 timeout_new)) ''w'' 57) = 17"
  using elapsed_exact [of "[(WsActive, 10), (WsBlocked, 15), (WsSuspended, 20), (WsActive, 50)]" 57 "''w''" 100 timeout_new]
  by (simp add: is_timer_active_def)

text \<open>Extending the limit of a workspace without timeout (limit 0) gives it one.\<close>

theorem extend_imposes_limit:
  "check_expired (tracked ''w'' [(WsActive, 0)] (timeout_register ''w'' 0 timeout_new)) 1000 = []
   \<and> check_expired (timeout_extend ''w'' 60 (tracked ''w'' [(WsActive, 0)] (timeout_register ''w'' 0 timeout_new))) 1000
       = [''w'']"
  by (simp add: tracked_def timeout_register_def timeout_new_def on_state_change_def is_timer_active_def
      timeout_extend_def hupd_def check_expired_def entry_elapsed_def saturating_sub_def List.map_filter_simps)

section \<open>Budgets\<close>

datatype budget_check_result = BudgetOk | Warning "string list" | Exceeded "string list"

definition check_dim ::
  "string \<Rightarrow> u64 \<Rightarrow> u64 option \<Rightarrow> flt \<Rightarrow> string list \<times> string list \<Rightarrow> string list \<times> string list" where
  "check_dim name used limit threshold acc =
     (case acc of (warnings, exceeded) \<Rightarrow>
        (case limit of
           None \<Rightarrow> (warnings, exceeded)
         | Some l \<Rightarrow>
             if l = 0 then (warnings, exceeded)
             else if used \<ge> l then (warnings, exceeded @ [name])
             else if f64_ge (f64_of_u64 used) (f64_mul (f64_of_u64 l) threshold)
             then (warnings @ [name], exceeded)
             else (warnings, exceeded)))"

definition budget_check :: "resource_usage \<Rightarrow> resource_budget \<Rightarrow> budget_check_result" where
  "budget_check usage budget =
     (let th = rb_warning_threshold budget;
          acc = check_dim ''tokens'' (ru_tokens usage) (rb_max_tokens budget) th ([], []);
          acc = check_dim ''wall_time_ms'' (ru_wall_time_ms usage) (rb_max_wall_time_ms budget) th acc;
          acc = check_dim ''storage_bytes'' (ru_storage_bytes usage) (rb_max_storage_bytes budget) th acc;
          acc = check_dim ''network_bytes'' (ru_network_bytes usage) (rb_max_network_bytes budget) th acc;
          (warnings, exceeded) = check_dim ''cost_micros'' (ru_cost_micros usage) (rb_max_cost_micros budget) th acc
      in if exceeded \<noteq> [] then Exceeded exceeded
         else if warnings \<noteq> [] then Warning warnings
         else BudgetOk)"

definition add_limit :: "u64 option \<Rightarrow> u64 option \<Rightarrow> u64 option" where
  "add_limit cur add = (case (cur, add) of (Some c, Some a) \<Rightarrow> Some (c + a) | _ \<Rightarrow> cur)"

definition increase_budget :: "resource_budget \<Rightarrow> resource_budget \<Rightarrow> resource_budget" where
  "increase_budget budget additional = budget\<lparr>
     rb_max_tokens := add_limit (rb_max_tokens budget) (rb_max_tokens additional),
     rb_max_wall_time_ms := add_limit (rb_max_wall_time_ms budget) (rb_max_wall_time_ms additional),
     rb_max_storage_bytes := add_limit (rb_max_storage_bytes budget) (rb_max_storage_bytes additional),
     rb_max_network_bytes := add_limit (rb_max_network_bytes budget) (rb_max_network_bytes additional),
     rb_max_cost_micros := add_limit (rb_max_cost_micros budget) (rb_max_cost_micros additional)\<rparr>"

subsection \<open>Rounding does not hide a warning\<close>

lemma bitlen_bounds: "0 < n \<Longrightarrow> 2 ^ (bitlen n - 1) \<le> n \<and> n < 2 ^ bitlen n \<and> 0 < bitlen n"
proof (induction n rule: bitlen.induct)
  case (1 n)
  show ?case
  proof (cases "n div 2 = 0")
    case True
    with 1(2) have "n = 1" by (cases n) auto
    then show ?thesis by (simp add: bitlen.simps)
  next
    case False
    with 1 have ih: "2 ^ (bitlen (n div 2) - 1) \<le> n div 2" "n div 2 < 2 ^ bitlen (n div 2)" "0 < bitlen (n div 2)"
      by auto
    have b: "bitlen n = Suc (bitlen (n div 2))" using 1(2) by (simp add: bitlen.simps)
    have "2 * 2 ^ (bitlen (n div 2) - 1) = (2 :: nat) ^ bitlen (n div 2)"
      using ih(3) by (cases "bitlen (n div 2)") simp_all
    moreover have "2 * (n div 2) \<le> n" "n < 2 * (n div 2) + 2" by presburger+
    ultimately have "2 ^ bitlen (n div 2) \<le> n" "n < 2 * 2 ^ bitlen (n div 2)" using ih(1,2) by linarith+
    then show ?thesis unfolding b by simp
  qed
qed

lemma bitlen_small: "n < 2 ^ k \<Longrightarrow> bitlen n \<le> k"
proof (cases "n = 0")
  case False
  assume "n < 2 ^ k"
  with bitlen_bounds [of n] False have "(2 :: nat) ^ (bitlen n - 1) < 2 ^ k" by linarith
  then show ?thesis by (simp add: power_strict_increasing_iff)
qed (simp add: bitlen.simps)

lemma f64_of_u64_exact: "unat w < 2 ^ 53 \<Longrightarrow> f64_of_u64 w = FFin (int (unat w)) 0"
  using bitlen_small [of "unat w" 53] by (simp add: f64_of_u64_def rnd_def Let_def)

text \<open>\<open>u\<close> is at least \<open>a * 2^e\<close>, without rounding.\<close>

definition reaches :: "nat \<Rightarrow> nat \<Rightarrow> int \<Rightarrow> bool" where
  "reaches u a e \<longleftrightarrow> (if e \<ge> 0 then u \<ge> a * 2 ^ nat e else u * 2 ^ nat (- e) \<ge> a)"

lemma int_le_shift: "int x \<le> int y * 2 ^ n \<longleftrightarrow> x \<le> y * 2 ^ n"
proof -
  have "int x \<le> int (y * 2 ^ n) \<longleftrightarrow> x \<le> y * 2 ^ n" by (rule of_nat_le_iff)
  then show ?thesis by simp
qed

lemma int_shift_le: "int x * 2 ^ n \<le> int y \<longleftrightarrow> x * 2 ^ n \<le> y"
proof -
  have "int (x * 2 ^ n) \<le> int y \<longleftrightarrow> x * 2 ^ n \<le> y" by (rule of_nat_le_iff)
  then show ?thesis by simp
qed

lemma reaches_rnd:
  assumes u: "u < 2 ^ 53" and r: "reaches u a e"
  shows "f64_ge (FFin (int u) 0) (rnd (int a) e)"
proof (cases "bitlen a - 53")
  case 0
  then show ?thesis
    using r by (cases "e \<ge> 0") (simp_all add: rnd_def Let_def reaches_def min_def int_le_shift int_shift_le)
next
  case (Suc k0)
  define k where "k = bitlen a - 53"
  have "bitlen 0 = 0" by (simp add: bitlen.simps)
  then have a0: "0 < a" using Suc by (cases "a = 0") simp_all
  have "52 + k = bitlen a - 1" using Suc by (simp add: k_def)
  then have big: "2 ^ (52 + k) \<le> a" using bitlen_bounds [OF a0] by (simp only:)
  have k: "0 < k" using Suc by (simp add: k_def)
  have neg: "e + int k \<le> 0"
  proof (rule ccontr)
    assume pos: "\<not> e + int k \<le> 0"
    define d where "d = nat (- e)"
    have "a \<le> u * 2 ^ d"
    proof (cases "e \<ge> 0")
      case True
      have "a \<le> a * 2 ^ nat e" by simp
      also have "\<dots> \<le> u" using r True by (simp add: reaches_def)
      finally show ?thesis using True by (simp add: d_def)
    qed (use r in \<open>simp add: reaches_def d_def\<close>)
    also have "\<dots> < 2 ^ 53 * 2 ^ d" using u by (rule mult_strict_right_mono) simp
    also have "\<dots> = 2 ^ (53 + d)" by (simp only: power_add)
    also have "\<dots> \<le> 2 ^ (52 + k)"
      by (rule power_increasing) (use pos k in \<open>simp_all add: d_def\<close>)
    finally have "a < 2 ^ (52 + k)" .
    with big show False by (meson leD)
  qed
  define s where "s = nat (- (e + int k))"
  have "nat (- e) = s + k" using neg by (simp add: s_def)
  then have le: "a \<le> (u * 2 ^ s) * 2 ^ k"
    using r neg k by (simp add: reaches_def power_add mult.assoc split: if_splits)
  define q where "q = (if a mod 2 ^ k > 2 ^ (k - 1) \<or> a mod 2 ^ k = 2 ^ (k - 1) \<and> odd (a div 2 ^ k)
                       then a div 2 ^ k + 1 else a div 2 ^ k)"
  have "q \<le> u * 2 ^ s"
  proof (cases "a mod 2 ^ k = 0")
    case True
    then have "q = a div 2 ^ k" by (simp add: q_def)
    then show ?thesis using div_le_mono [OF le, of "2 ^ k"] by simp
  next
    case False
    have "a div 2 ^ k * 2 ^ k < (u * 2 ^ s) * 2 ^ k"
      using le False div_mult_mod_eq [of a "2 ^ k"] by linarith
    then have "a div 2 ^ k < u * 2 ^ s" by simp
    then show ?thesis by (simp add: q_def)
  qed
  moreover have "rnd (int a) e = FFin (int q) (e + int k)"
    using k a0 unfolding rnd_def Let_def q_def k_def by simp
  moreover have "nat (- e - int k) = s" by (simp add: s_def)
  ultimately show ?thesis
    using neg by (simp add: min_def int_le_shift)
qed

text \<open>The five dimensions as data.\<close>

definition dims :: "resource_usage \<Rightarrow> resource_budget \<Rightarrow> (string \<times> u64 \<times> u64 option) list" where
  "dims u b = [(''tokens'', ru_tokens u, rb_max_tokens b), (''wall_time_ms'', ru_wall_time_ms u, rb_max_wall_time_ms b),
     (''storage_bytes'', ru_storage_bytes u, rb_max_storage_bytes b),
     (''network_bytes'', ru_network_bytes u, rb_max_network_bytes b), (''cost_micros'', ru_cost_micros u, rb_max_cost_micros b)]"

definition at_limit :: "string \<times> u64 \<times> u64 option \<Rightarrow> bool" where
  "at_limit d = (case d of (n, used, lim) \<Rightarrow> (case lim of None \<Rightarrow> False | Some l \<Rightarrow> l \<noteq> 0 \<and> used \<ge> l))"

definition warned :: "flt \<Rightarrow> string \<times> u64 \<times> u64 option \<Rightarrow> bool" where
  "warned th d = (case d of (n, used, lim) \<Rightarrow> (case lim of None \<Rightarrow> False
     | Some l \<Rightarrow> l \<noteq> 0 \<and> used < l \<and> f64_ge (f64_of_u64 used) (f64_mul (f64_of_u64 l) th)))"

lemma check_dim_eq:
  "check_dim n used lim th acc = (fst acc @ map fst (filter (warned th) [(n, used, lim)]),
     snd acc @ map fst (filter at_limit [(n, used, lim)]))"
  by (cases acc) (auto simp: check_dim_def warned_def at_limit_def not_le split: option.splits)

lemma check_dims_eq:
  "fold (\<lambda>(n, used, lim). check_dim n used lim th) ds acc
     = (fst acc @ map fst (filter (warned th) ds), snd acc @ map fst (filter at_limit ds))"
  by (induction ds arbitrary: acc) (auto simp: check_dim_eq)

lemma budget_check_eq:
  "budget_check u b =
     (let ex = map fst (filter at_limit (dims u b)); wa = map fst (filter (warned (rb_warning_threshold b)) (dims u b))
      in if ex \<noteq> [] then Exceeded ex else if wa \<noteq> [] then Warning wa else BudgetOk)"
proof -
  have "budget_check u b =
     (case fold (\<lambda>(n, used, lim). check_dim n used lim (rb_warning_threshold b)) (dims u b) ([], []) of
        (wa, ex) \<Rightarrow> if ex \<noteq> [] then Exceeded ex else if wa \<noteq> [] then Warning wa else BudgetOk)"
    by (simp only: budget_check_def dims_def Let_def fold_simps id_apply comp_apply prod.case)
  then show ?thesis by (simp only: check_dims_eq prod.case fst_conv snd_conv append_Nil Let_def)
qed



text \<open>\<open>increase_budget\<close> is documented never to decrease a budget. The sum wraps: adding one to the largest
  limit gives zero, which every check reads as unlimited.\<close>

theorem increase_budget_wraps:
  "rb_max_tokens (increase_budget (default_budget\<lparr>rb_max_tokens := Some (- 1)\<rparr>)
     (default_budget\<lparr>rb_max_tokens := Some 1\<rparr>)) = Some 0"
  by (simp add: increase_budget_def add_limit_def default_budget_def)

section \<open>Liveness\<close>

record liveness_monitor =
  lm_last_activity :: "(string, u64) hmap"
  lm_interval_ms :: u64

definition liveness_new :: "u64 \<Rightarrow> liveness_monitor" where
  "liveness_new interval_ms = \<lparr>lm_last_activity = [], lm_interval_ms = interval_ms\<rparr>"

definition liveness_register :: "workspace_id \<Rightarrow> u64 \<Rightarrow> liveness_monitor \<Rightarrow> liveness_monitor" where
  "liveness_register wid now_ms l = l\<lparr>lm_last_activity := hput wid now_ms (lm_last_activity l)\<rparr>"

definition record_activity :: "workspace_id \<Rightarrow> u64 \<Rightarrow> liveness_monitor \<Rightarrow> liveness_monitor" where
  "record_activity wid now_ms l = l\<lparr>lm_last_activity := hput wid now_ms (lm_last_activity l)\<rparr>"

definition check_inactive :: "liveness_monitor \<Rightarrow> u64 \<Rightarrow> workspace_id list" where
  "check_inactive l now_ms =
     (if lm_interval_ms l = 0 then []
      else map fst (filter (\<lambda>p. saturating_sub now_ms (snd p) \<ge> lm_interval_ms l) (lm_last_activity l)))"

definition liveness_remove :: "workspace_id \<Rightarrow> liveness_monitor \<Rightarrow> liveness_monitor" where
  "liveness_remove wid l = l\<lparr>lm_last_activity := hdel wid (lm_last_activity l)\<rparr>"

definition reset_activity :: "workspace_id \<Rightarrow> u64 \<Rightarrow> liveness_monitor \<Rightarrow> liveness_monitor" where
  "reset_activity wid now_ms l = l\<lparr>lm_last_activity := hupd wid (\<lambda>_. now_ms) (lm_last_activity l)\<rparr>"

definition liveness_enabled :: "liveness_monitor \<Rightarrow> bool" where
  "liveness_enabled l = (lm_interval_ms l > 0)"

end
