(* ===== verification/Wacp_Dispatch.thy ===== *)
theory Wacp_Dispatch
  imports Wacp_Topology Wacp_Task_Graph Wacp_Resource "HOL-Library.Sublist"
begin

text \<open>
  The dispatcher (\<open>wacp-coordinator/src/dispatch.rs\<close>): it takes dispatchable tasks in the order of the
  task table, creates a workspace for each while there is capacity, and binds the two. Budgets are
  scaled in double precision.
\<close>

section \<open>Model\<close>

record dispatch_config =
  dc_max_concurrent_workspaces :: "nat option"
  dc_default_budget :: resource_budget
  dc_budget_margin :: flt

definition default_dispatch_config :: dispatch_config where
  "default_dispatch_config =
     \<lparr>dc_max_concurrent_workspaces = None, dc_default_budget = default_budget, dc_budget_margin = f_0_2\<rparr>"

record dispatch_action =
  da_task_id :: task_id
  da_workspace_id :: workspace_id
  da_parent :: workspace_id
  da_budget :: resource_budget

record dispatcher =
  dp_config :: dispatch_config
  dp_next_ws_id :: u64

definition dispatcher_new :: "dispatch_config \<Rightarrow> dispatcher" where
  "dispatcher_new config = \<lparr>dp_config = config, dp_next_ws_id = 1\<rparr>"

definition select_parent :: "task_graph \<Rightarrow> task \<Rightarrow> workspace_id \<Rightarrow> workspace_id" where
  "select_parent g task root =
     (case t_parent_task task of
        None \<Rightarrow> root
      | Some p \<Rightarrow> (case graph_get g p of
          None \<Rightarrow> root
        | Some pt \<Rightarrow> (case t_workspace_ref pt of None \<Rightarrow> root | Some ws \<Rightarrow> ws)))"

definition scale_limit :: "flt \<Rightarrow> u64 \<Rightarrow> u64" where
  "scale_limit scale v = u64_of_f64 (f64_mul (f64_of_u64 v) scale)"

definition allocate_budget :: "dispatch_config \<Rightarrow> resource_budget \<Rightarrow> resource_budget" where
  "allocate_budget config base =
     (let scale = f64_add f_one (dc_budget_margin config)
      in \<lparr>rb_max_tokens = map_option (scale_limit scale) (rb_max_tokens base),
          rb_max_wall_time_ms = map_option (scale_limit scale) (rb_max_wall_time_ms base),
          rb_max_storage_bytes = map_option (scale_limit scale) (rb_max_storage_bytes base),
          rb_max_network_bytes = map_option (scale_limit scale) (rb_max_network_bytes base),
          rb_max_cost_micros = map_option (scale_limit scale) (rb_max_cost_micros base),
          rb_warning_threshold = rb_warning_threshold base\<rparr>)"

definition has_capacity :: "topology_set \<Rightarrow> nat option \<Rightarrow> bool" where
  "has_capacity topo limit =
     (case limit of
        None \<Rightarrow> True
      | Some l \<Rightarrow> let active = length (active_workspaces (ts_tree topo));
                      worker_count = (if active > 0 then active - 1 else 0)
                  in worker_count < l)"

definition generate_workspace_id :: "dispatcher \<Rightarrow> workspace_id \<times> dispatcher" where
  "generate_workspace_id d = (mk_id ''ws-'' (dp_next_ws_id d), d\<lparr>dp_next_ws_id := dp_next_ws_id d + 1\<rparr>)"

definition dispatch_params :: "workspace_id \<Rightarrow> workspace_id \<Rightarrow> task_id \<Rightarrow> topology_set \<Rightarrow> create_workspace_params" where
  "dispatch_params wid parent tid topo =
     \<lparr>cw_id = wid, cw_parent = parent,
      cw_owner = (case tree_get (ts_tree topo) (tr_root (ts_tree topo)) of Some n \<Rightarrow> n_owner n | None \<Rightarrow> ''system''),
      cw_originator = System, cw_status = WsIdle, cw_task_id = Some tid\<rparr>"

primrec dispatch_loop ::
  "task_id list \<Rightarrow> dispatch_action list \<Rightarrow> dispatcher \<Rightarrow> task_graph \<Rightarrow> topology_set
     \<Rightarrow> dispatch_action list \<times> dispatcher \<times> task_graph \<times> topology_set" where
  "dispatch_loop [] actions d g topo = (actions, d, g, topo)"
| "dispatch_loop (tid # tids) actions d g topo =
     (if \<not> has_capacity topo (dc_max_concurrent_workspaces (dp_config d)) then (actions, d, g, topo)
      else case graph_get g tid of
        None \<Rightarrow> dispatch_loop tids actions d g topo
      | Some task \<Rightarrow>
          let parent = select_parent g task (tr_root (ts_tree topo));
              budget = allocate_budget (dp_config d) (dc_default_budget (dp_config d));
              (wid, d1) = generate_workspace_id d;
              (r, topo1) = create_workspace (dispatch_params wid parent tid topo) topo
          in if \<not> is_ok r then dispatch_loop tids actions d1 g topo1
             else let (b, g1) = bind_task tid wid g
                  in if \<not> is_ok b then dispatch_loop tids actions d1 g1 topo1
                     else dispatch_loop tids
                            (actions @ [\<lparr>da_task_id = tid, da_workspace_id = wid, da_parent = parent, da_budget = budget\<rparr>])
                            d1 g1 topo1)"

definition try_dispatch ::
  "dispatcher \<Rightarrow> task_graph \<Rightarrow> topology_set \<Rightarrow> dispatch_action list \<times> dispatcher \<times> task_graph \<times> topology_set" where
  "try_dispatch d g topo =
     (let tids = dispatchable g in if tids = [] then ([], d, g, topo) else dispatch_loop tids [] d g topo)"

section \<open>Capacity, bindings and workspaces\<close>

text \<open>What an action promises: the task is bound to the workspace, which exists, idle, below the parent named.\<close>

definition dispatched :: "task_graph \<Rightarrow> topology_set \<Rightarrow> dispatch_action \<Rightarrow> bool" where
  "dispatched g topo a \<longleftrightarrow> task_for_workspace g (da_workspace_id a) = Some (da_task_id a)
     \<and> status_of (ts_tree topo) (da_workspace_id a) = Some WsIdle
     \<and> par (ts_tree topo) (da_workspace_id a) = Some (da_parent a)"

definition workers :: "topology_set \<Rightarrow> nat" where
  "workers topo = length (active_workspaces (ts_tree topo))"

lemma active_after_insert:
  assumes "fst (tree_insert n t) = Ok ()" "\<not> is_terminal (n_status n)" "tree_inv t"
  shows "length (active_workspaces (snd (tree_insert n t))) = Suc (length (active_workspaces t))"
proof -
  obtain p where p: "n_parent n = Some p" "hhas (tr_nodes t) p" "\<not> hhas (tr_nodes t) (n_id n)"
    and t': "snd (tree_insert n t) = t\<lparr>
       tr_nodes := hupd p (\<lambda>m. m\<lparr>n_children := n_children m @ [n_id n]\<rparr>) (hput (n_id n) n (tr_nodes t)),
       tr_originator_index := hpush (n_originator n) (n_id n) (tr_originator_index t),
       tr_owner_index := hpush (n_owner n) (n_id n) (tr_owner_index t)\<rparr>"
    using assms(1) by (rule tree_insert_Ok)
  let ?P = "\<lambda>n. \<not> is_terminal (n_status n)" and ?m = "hput (n_id n) n (tr_nodes t)"
  have new: "hget (tr_nodes t) (n_id n) = None" using p(3) by (simp add: hhas_def)
  obtain q where q: "hget ?m p = Some q" using p(2) by (cases "p = n_id n") (auto simp: hhas_def)
  have "length (filter ?P (hvals (hput p (q\<lparr>n_children := n_children q @ [n_id n]\<rparr>) ?m))) = length (filter ?P (hvals ?m))"
    using length_filter_hvals_hput [OF q, of ?P "q\<lparr>n_children := n_children q @ [n_id n]\<rparr>"] by simp
  then show ?thesis
    using q assms(2) by (simp add: active_workspaces_def t' hupd_def hvals_hput_new [OF new])
qed

lemma par_after_insert:
  assumes "fst (tree_insert n t) = Ok ()"
  shows "par (snd (tree_insert n t)) k = (if k = n_id n then n_parent n else par t k)"
  using assms by (auto simp: tree_insert_def par_def hhas_def split: if_splits option.splits)

lemma create_effect:
  assumes inv: "topo_inv topo" and ok: "fst (create_workspace p topo) = Ok ()" and idle: "cw_status p = WsIdle"
  shows "workers (snd (create_workspace p topo)) = Suc (workers topo)"
    and "status_of (ts_tree (snd (create_workspace p topo))) k = (if k = cw_id p then Some WsIdle else status_of (ts_tree topo) k)"
    and "par (ts_tree (snd (create_workspace p topo))) k = (if k = cw_id p then Some (cw_parent p) else par (ts_tree topo) k)"
proof -
  note c = create_workspace_Ok [OF ok]
  have st: "n_status (params_node p) = WsIdle" using idle by (simp add: params_node_def)
  show "workers (snd (create_workspace p topo)) = Suc (workers topo)"
    using active_after_insert [OF c(1)] st inv by (simp add: workers_def c(2) is_terminal_def topo_inv_def)
  show "status_of (ts_tree (snd (create_workspace p topo))) k = (if k = cw_id p then Some WsIdle else status_of (ts_tree topo) k)"
    "par (ts_tree (snd (create_workspace p topo))) k = (if k = cw_id p then Some (cw_parent p) else par (ts_tree topo) k)"
    using tree_insert_node(2) [OF c(1), of k] par_after_insert [OF c(1), of k] st by (simp_all add: c(2))
qed

lemma create_room:
  assumes "room (pg_next_id (ts_port_rights topo)) (3 + n)"
  shows "rights_room topo" and "room (pg_next_id (ts_port_rights (snd (create_workspace p topo)))) n"
proof -
  let ?r = "pg_next_id (ts_port_rights topo)"
  have r: "room ?r (Suc (Suc (Suc n)))" using assms by (simp add: numeral_3_eq_3)
  have three: "room (?r + 1 + 1 + 1) n" using room_Suc(3) [OF room_Suc(3) [OF room_Suc(3) [OF r]]] .
  have zero: "room ?r n" using assms by (simp add: room_def)
  show "rights_room topo" using assms by (simp add: rights_room_def room_def)
  show "room (pg_next_id (ts_port_rights (snd (create_workspace p topo)))) n"
  proof (cases "fst (create_workspace p topo)")
    case (Err e)
    then show ?thesis using zero create_workspace_error [OF Err] by simp
  next
    case (Ok u)
    then show ?thesis using three create_workspace_Ok(2) [of p topo]
      by (simp add: wiring_def pr_run_def pr_create_def Let_def)
  qed
qed

lemma bind_effect:
  assumes "bind_task tid wid g = (r, g')"
  shows "is_ok r \<Longrightarrow> task_for_workspace g' w = (if w = wid then Some tid else task_for_workspace g w)"
    and "is_ok r \<Longrightarrow> task_for_workspace g wid = None" and "\<not> is_ok r \<Longrightarrow> g' = g"
  using assms by (auto simp: bind_task_def task_for_workspace_def hhas_def split: option.splits if_splits)

lemma dispatched_create:
  assumes "topo_inv topo" "dispatched g topo a" "cw_status p = WsIdle"
  shows "dispatched g (snd (create_workspace p topo)) a"
proof (cases "fst (create_workspace p topo)")
  case (Err e)
  then show ?thesis using assms create_workspace_error by metis
next
  case (Ok u)
  have "hhas (tr_nodes (ts_tree topo)) (da_workspace_id a)"
    using assms(2) by (auto simp: dispatched_def status_of_def hhas_def)
  then have "da_workspace_id a \<noteq> cw_id p" using Ok create_workspace_ok_iff [of p topo] by auto
  then show ?thesis using assms Ok create_effect [of topo p] by (simp add: dispatched_def)
qed

lemma dispatched_bind: "bind_task tid wid g = (r, g') \<Longrightarrow> dispatched g topo a \<Longrightarrow> dispatched g' topo a"
  using bind_effect [of tid wid g r g'] by (cases "is_ok r") (auto simp: dispatched_def)

text \<open>The body of the loop for one known task.\<close>

definition dispatch_one ::
  "task_id \<Rightarrow> task \<Rightarrow> dispatcher \<Rightarrow> task_graph \<Rightarrow> topology_set
     \<Rightarrow> dispatch_action list \<times> dispatcher \<times> task_graph \<times> topology_set" where
  "dispatch_one tid task d g topo =
     (let parent = select_parent g task (tr_root (ts_tree topo));
          wid = fst (generate_workspace_id d); d1 = snd (generate_workspace_id d);
          (r, topo1) = create_workspace (dispatch_params wid parent tid topo) topo;
          (b, g1) = bind_task tid wid g
      in if \<not> is_ok r then ([], d1, g, topo1)
         else if \<not> is_ok b then ([], d1, g1, topo1)
         else ([\<lparr>da_task_id = tid, da_workspace_id = wid, da_parent = parent,
                 da_budget = allocate_budget (dp_config d) (dc_default_budget (dp_config d))\<rparr>], d1, g1, topo1))"

lemma dispatch_loop_Cons:
  "dispatch_loop (tid # tids) actions d g topo =
     (if \<not> has_capacity topo (dc_max_concurrent_workspaces (dp_config d)) then (actions, d, g, topo)
      else case graph_get g tid of
        None \<Rightarrow> dispatch_loop tids actions d g topo
      | Some task \<Rightarrow> (case dispatch_one tid task d g topo of
          (new, d1, g1, topo1) \<Rightarrow> dispatch_loop tids (actions @ new) d1 g1 topo1))"
  by (simp add: dispatch_one_def generate_workspace_id_def Let_def split: option.split prod.split)

lemma dispatch_one_spec:
  assumes inv: "topo_inv topo" "graph_inv g" and room: "room (pg_next_id (ts_port_rights topo)) (3 + n)"
    and run: "dispatch_one tid task d g topo = (new, d1, g1, topo1)"
  shows "topo_inv topo1" "graph_inv g1" "room (pg_next_id (ts_port_rights topo1)) n" "dp_config d1 = dp_config d"
    and "workers topo1 \<le> Suc (workers topo)" "subseq (map da_task_id new) [tid]"
    and "\<And>a. a \<in> set new \<Longrightarrow> dispatched g1 topo1 a" "\<And>a. dispatched g topo a \<Longrightarrow> dispatched g1 topo1 a"
proof -
  let ?par = "select_parent g task (tr_root (ts_tree topo))" and ?wid = "mk_id ''ws-'' (dp_next_ws_id d)"
  let ?p = "dispatch_params ?wid ?par tid topo"
  have idle: "cw_status ?p = WsIdle" and ids: "cw_id ?p = ?wid" "cw_parent ?p = ?par" by (simp_all add: dispatch_params_def)
  have t1: "topo1 = snd (create_workspace ?p topo)" and d1: "dp_config d1 = dp_config d"
    using run by (auto simp: dispatch_one_def generate_workspace_id_def Let_def split: if_splits prod.splits)
  show "topo_inv topo1" "room (pg_next_id (ts_port_rights topo1)) n" "dp_config d1 = dp_config d"
    using topo_inv_create [OF inv(1) create_room(1) [OF room]] create_room(2) [OF room] d1 by (simp_all add: t1)
  obtain b gb where bind: "bind_task tid ?wid g = (b, gb)" by fastforce
  have g1: "g1 = g \<or> g1 = gb"
    using run bind by (auto simp: dispatch_one_def generate_workspace_id_def Let_def split: if_splits prod.splits)
  have "graph_inv gb"
  proof (cases b)
    case (Ok u)
    then show ?thesis using graph_inv_bind [OF inv(2), of tid ?wid gb] bind by simp
  qed (use bind_effect(3) [OF bind] inv(2) in simp)
  then show "graph_inv g1" using g1 inv(2) by auto
  show "subseq (map da_task_id new) [tid]"
    using run by (auto simp: dispatch_one_def Let_def split: if_splits prod.splits)
  show "workers topo1 \<le> Suc (workers topo)"
  proof (cases "fst (create_workspace ?p topo)")
    case (Err e)
    then show ?thesis using create_workspace_error [OF Err] by (simp add: t1)
  next
    case (Ok u)
    then show ?thesis using create_effect(1) [OF inv(1) _ idle] by (simp add: t1)
  qed
  show "dispatched g1 topo1 a" if "dispatched g topo a" for a
    using g1 dispatched_create [OF inv(1) that idle] dispatched_bind [OF bind] by (auto simp: t1)
  show "dispatched g1 topo1 a" if "a \<in> set new" for a
  proof -
    from that run obtain b where b: "bind_task tid ?wid g = (b, g1)" "is_ok b" "is_ok (fst (create_workspace ?p topo))"
      "da_task_id a = tid" "da_workspace_id a = ?wid" "da_parent a = ?par"
      by (auto simp: dispatch_one_def generate_workspace_id_def Let_def split: if_splits prod.splits)
    then have "fst (create_workspace ?p topo) = Ok ()" by (simp add: is_ok_def split: result.splits)
    from create_effect(2,3) [OF inv(1) this idle, of ?wid] show ?thesis
      using b bind_effect(1) [OF b(1,2)] ids by (simp add: dispatched_def t1)
  qed
qed

lemma dispatch_loop_spec:
  "dispatch_loop tids acts d g topo = (acts', d', g', topo') \<Longrightarrow> topo_inv topo \<Longrightarrow> graph_inv g \<Longrightarrow>
   room (pg_next_id (ts_port_rights topo)) (3 * length tids) \<Longrightarrow>
     topo_inv topo' \<and> graph_inv g'
     \<and> (\<forall>l. dc_max_concurrent_workspaces (dp_config d) = Some l \<longrightarrow> workers topo' \<le> max (workers topo) (Suc l))
     \<and> (\<exists>new. acts' = acts @ new \<and> subseq (map da_task_id new) tids \<and> (\<forall>a \<in> set new. dispatched g' topo' a))
     \<and> (\<forall>a. dispatched g topo a \<longrightarrow> dispatched g' topo' a)"
proof (induction tids arbitrary: acts d g topo)
  case (Cons tid tids)
  have room: "room (pg_next_id (ts_port_rights topo)) (3 * length tids)"
    using Cons.prems(4) by (simp add: room_def)
  show ?case
  proof (cases "has_capacity topo (dc_max_concurrent_workspaces (dp_config d))")
    case False
    then show ?thesis using Cons.prems by auto
  next
    case cap: True
    show ?thesis
    proof (cases "graph_get g tid")
      case None
      have "dispatch_loop tids acts d g topo = (acts', d', g', topo')"
        using Cons.prems(1) cap None unfolding dispatch_loop_Cons by simp
      from Cons.IH [OF this Cons.prems(2,3) room] show ?thesis by (blast intro: list_emb_Cons)
    next
      case (Some task)
      obtain new d1 g1 topo1 where one: "dispatch_one tid task d g topo = (new, d1, g1, topo1)"
        by (metis prod_cases4)
      have rest: "dispatch_loop tids (acts @ new) d1 g1 topo1 = (acts', d', g', topo')"
        using Cons.prems(1) cap Some one unfolding dispatch_loop_Cons by simp
      have "room (pg_next_id (ts_port_rights topo)) (3 + 3 * length tids)" using Cons.prems(4) by simp
      note o = dispatch_one_spec [OF Cons.prems(2,3) this one]
      note ih = Cons.IH [OF rest o(1-3)]
      have "workers topo' \<le> max (workers topo) (Suc l)" if l: "dc_max_concurrent_workspaces (dp_config d) = Some l" for l
      proof -
        have "workers topo \<le> l" using cap l by (simp add: has_capacity_def workers_def Let_def split: if_splits)
        moreover have "workers topo' \<le> max (workers topo1) (Suc l)" using ih l o(4) by simp
        ultimately show ?thesis using o(5) by linarith
      qed
      moreover obtain new' where "acts' = (acts @ new) @ new'" "subseq (map da_task_id new') tids"
        "\<forall>a \<in> set new'. dispatched g' topo' a" using ih by blast
      then have "\<exists>new. acts' = acts @ new \<and> subseq (map da_task_id new) (tid # tids) \<and> (\<forall>a \<in> set new. dispatched g' topo' a)"
        using o(6,7) ih list_emb_append_mono [of "(=)" "map da_task_id new" "[tid]" "map da_task_id new'" tids]
        by (intro exI [of _ "new @ new'"]) auto
      ultimately show ?thesis using ih o(8) by blast
    qed
  qed
qed simp

lemma subseq_distinct: "subseq xs ys \<Longrightarrow> distinct ys \<Longrightarrow> distinct xs \<and> set xs \<subseteq> set ys"
  by (induction rule: list_emb.induct) auto

lemma distinct_dispatchable:
  assumes "graph_inv g"
  shows "distinct (dispatchable g)"
proof -
  have ok: "hmap_ok (tg_tasks g)" "\<And>k t. (k, t) \<in> set (tg_tasks g) \<Longrightarrow> t_id t = k"
    using assms by (auto simp: graph_inv_def edges_ok_def hget_iff_in_set)
  then have "map t_id (hvals (tg_tasks g)) = map fst (tg_tasks g)" by (auto simp: hvals_def)
  with ok(1) have "distinct (map t_id (hvals (tg_tasks g)))" by (simp add: hmap_ok_def)
  then show ?thesis unfolding dispatchable_def by (rule distinct_map_filter)
qed

text \<open>C18. Dispatch keeps its promises. On consistent structures one call of \<open>try_dispatch\<close> keeps them consistent;
  it never lets the number of live workspaces (with the root) grow beyond the limit plus one; and it
  reports distinct tasks, all dispatchable, each of them bound to its new workspace, which is idle and
  sits below the parent reported.\<close>

theorem try_dispatch_correct:
  assumes "topo_inv topo" "graph_inv g" "room (pg_next_id (ts_port_rights topo)) (3 * length (dispatchable g))"
    and run: "try_dispatch d g topo = (acts, d', g', topo')"
  shows "topo_inv topo' \<and> graph_inv g'
    \<and> (\<forall>l. dc_max_concurrent_workspaces (dp_config d) = Some l \<longrightarrow> workers topo' \<le> max (workers topo) (Suc l))
    \<and> distinct (map da_task_id acts) \<and> set (map da_task_id acts) \<subseteq> set (dispatchable g)
    \<and> (\<forall>a \<in> set acts. dispatched g' topo' a)"
proof (cases "dispatchable g = []")
  case True
  then show ?thesis using assms by (auto simp: try_dispatch_def)
next
  case False
  then have "dispatch_loop (dispatchable g) [] d g topo = (acts, d', g', topo')"
    using run by (simp add: try_dispatch_def)
  note spec = dispatch_loop_spec [OF this assms(1-3)]
  then have "subseq (map da_task_id acts) (dispatchable g)" by auto
  from subseq_distinct [OF this distinct_dispatchable [OF assms(2)]] spec show ?thesis by auto
qed

section \<open>Budgets cover the estimate\<close>

text \<open>The value \<open>m * 2^e\<close> is at least the integer \<open>u\<close>.\<close>

definition covers :: "nat \<Rightarrow> nat \<Rightarrow> int \<Rightarrow> bool" where
  "covers u m e \<longleftrightarrow> (if e \<ge> 0 then u \<le> m * 2 ^ nat e else u * 2 ^ nat (- e) \<le> m)"

lemma rnd_covers:
  assumes u: "u < 2 ^ 53" and c: "covers u a e"
  shows "\<exists>q f. rnd (int a) e = FFin (int q) f \<and> covers u q f"
proof (cases "bitlen a - 53")
  case 0
  then show ?thesis using c by (auto simp: rnd_def Let_def)
next
  case (Suc k0)
  define k where "k = bitlen a - 53"
  define q where "q = (if a mod 2 ^ k > 2 ^ (k - 1) \<or> a mod 2 ^ k = 2 ^ (k - 1) \<and> odd (a div 2 ^ k)
                       then a div 2 ^ k + 1 else a div 2 ^ k)"
  have "bitlen 0 = 0" by (simp add: bitlen.simps)
  then have a0: "0 < a" using Suc by (cases "a = 0") simp_all
  have k: "0 < k" and "52 + k = bitlen a - 1" using Suc by (simp_all add: k_def)
  then have "2 ^ (52 + k) \<le> a" using bitlen_bounds [OF a0] by (simp only:)
  then have "2 ^ 52 * 2 ^ k \<le> a" by (simp only: power_add)
  then have big: "2 ^ 52 \<le> a div 2 ^ k" by (simp only: less_eq_div_iff_mult_less_eq zero_less_power zero_less_numeral)
  have q: "a div 2 ^ k \<le> q" by (simp add: q_def)
  have r: "rnd (int a) e = FFin (int q) (e + int k)"
    using k a0 unfolding rnd_def Let_def q_def k_def by simp
  have "covers u q (e + int k)"
  proof (cases "e + int k \<ge> 1")
    case True
    have "u \<le> 2 ^ 52 * 2 ^ 1" using u by simp
    also have "\<dots> \<le> q * 2 ^ nat (e + int k)"
      using big q True by (intro mult_mono power_increasing) auto
    finally show ?thesis using True by (simp add: covers_def)
  next
    case False
    define s where "s = nat (- (e + int k))"
    have "nat (- e) = s + k" "\<not> e \<ge> 0" using False k by (simp_all add: s_def)
    then have "u * 2 ^ s * 2 ^ k \<le> a" using c by (simp add: covers_def power_add mult.assoc)
    then have "u * 2 ^ s \<le> a div 2 ^ k" by (simp add: less_eq_div_iff_mult_less_eq)
    then show ?thesis using q False by (cases "e + int k = 0") (auto simp: covers_def s_def)
  qed
  then show ?thesis using r by blast
qed

lemma covers_mult: "covers 1 s f \<Longrightarrow> covers v (v * s) f"
  by (auto simp: covers_def mult.assoc split: if_splits)

lemma u64_of_f64_covers:
  assumes "covers (unat v) q f"
  shows "v \<le> u64_of_f64 (FFin (int q) f)"
proof -
  define x where "x = (if f \<ge> 0 then q * 2 ^ nat f else q div 2 ^ nat (- f))"
  have le: "unat v \<le> x" using assms by (auto simp: covers_def x_def less_eq_div_iff_mult_less_eq)
  have "u64_of_f64 (FFin (int q) f) = (if x \<ge> 2 ^ 64 then - 1 else word_of_nat x)"
  proof -
    have "(if int q < 0 then 0 else if f \<ge> 0 then int q * 2 ^ nat f else int q div 2 ^ nat (- f)) = int x"
      by (simp add: x_def zdiv_int)
    moreover have "(int x \<ge> 2 ^ 64) = (x \<ge> 2 ^ 64)" by simp
    ultimately show ?thesis by (simp add: Let_def)
  qed
  moreover have "x < 2 ^ 64 \<Longrightarrow> unat (word_of_nat x :: u64) = x" by (simp add: unsigned_of_nat take_bit_nat_eq_self)
  moreover have "v \<le> - 1" by simp
  ultimately show ?thesis using le by (cases "x \<ge> 2 ^ 64") (simp_all add: word_le_nat_alt)
qed


section \<open>Concrete instances\<close>

definition sample_dispatcher :: dispatcher where
  "sample_dispatcher = dispatcher_new (default_dispatch_config\<lparr>dc_max_concurrent_workspaces := Some 1\<rparr>)"

lemma sample_dispatchable: "dispatchable sample_graph = [''a'']"
  by (simp add: sample_graph_simps)

theorem try_dispatch_correct_witness:
  "workers (snd (snd (snd (try_dispatch sample_dispatcher sample_graph (topology_new ''r'' ''u''))))) \<le> 2
   \<and> graph_inv (fst (snd (snd (try_dispatch sample_dispatcher sample_graph (topology_new ''r'' ''u'')))))"
proof -
  let ?t = "topology_new ''r'' ''u''" and ?d = sample_dispatcher
  let ?r = "try_dispatch ?d sample_graph ?t"
  have run: "?r = (fst ?r, fst (snd ?r), fst (snd (snd ?r)), snd (snd (snd ?r)))" by simp
  have room: "room (pg_next_id (ts_port_rights ?t)) (3 * length (dispatchable sample_graph))"
    by (simp add: sample_dispatchable topology_new_def pr_new_def room_def Let_def)
  have "workers ?t = 1"
    by (simp add: workers_def topology_new_def tree_new_def active_workspaces_def hvals_def is_terminal_def Let_def)
  moreover have "dc_max_concurrent_workspaces (dp_config ?d) = Some 1"
    by (simp add: sample_dispatcher_def dispatcher_new_def)
  ultimately show ?thesis
    using try_dispatch_correct [OF topo_inv_new graph_inv_reachable [OF sample_graph_reachable] room run] by force
qed


text \<open>
  A gap. Binding a task does not move it out of \<open>Pending\<close>, so a bound task is still dispatchable: a second
  call creates another workspace for it, cannot bind it, reports no action, and the workspace remains.
\<close>

theorem redispatch_leaks:
  assumes "graph_get g tid = Some task" "t_workspace_ref task \<noteq> None"
    and cap: "has_capacity topo (dc_max_concurrent_workspaces (dp_config d))"
    and known: "hhas (tr_nodes (ts_tree topo)) (select_parent g task (tr_root (ts_tree topo)))"
    and new: "\<not> hhas (tr_nodes (ts_tree topo)) (mk_id ''ws-'' (dp_next_ws_id d))"
    and inv: "topo_inv topo"
  shows "\<exists>d' topo'. dispatch_loop [tid] [] d g topo = ([], d', g, topo') \<and> workers topo' = Suc (workers topo)"
proof -
  let ?p = "dispatch_params (mk_id ''ws-'' (dp_next_ws_id d)) (select_parent g task (tr_root (ts_tree topo))) tid topo"
  have ok: "is_ok (fst (create_workspace ?p topo))"
    using known new create_workspace_ok_iff [of ?p topo] by (simp add: dispatch_params_def)
  then have "fst (create_workspace ?p topo) = Ok ()" by (simp add: is_ok_def split: result.splits)
  from create_effect(1) [OF inv this] have "workers (snd (create_workspace ?p topo)) = Suc (workers topo)"
    by (simp add: dispatch_params_def)
  moreover have "bind_task tid w g = (Err (TaskAlreadyBound tid), g)" for w
    using assms(1,2) by (simp add: bind_task_def graph_get_def)
  ultimately show ?thesis
    using assms(1) cap ok
    by (auto simp: dispatch_loop_Cons dispatch_one_def generate_workspace_id_def Let_def split: prod.splits)
qed

end
