(* ===== verification/Wacp_Gate.thy ===== *)
theory Wacp_Gate
  imports Wacp_Types
begin

text \<open>
  Approval gates (\<open>wacp-coordinator/src/gate.rs\<close>): task gates and checkpoint gates with one counter for
  their ids. Shown: ids are never reused, a gate is of one kind only, and the first response to a gate
  is the only one that counts.
\<close>

section \<open>The controller\<close>

datatype gate_fallback = AutoApprove | FbCancel

record pending_gate =
  pgt_gate_id :: gate_id
  pgt_task_id :: task_id
  pgt_task_name :: string
  pgt_timeout_ms :: u64
  pgt_fallback :: gate_fallback
  pgt_created_at :: u64

record pending_checkpoint_gate =
  pcg_gate_id :: gate_id
  pcg_workspace_id :: workspace_id
  pcg_checkpoint_id :: checkpoint_id
  pcg_checkpoint_type :: string
  pcg_timeout_ms :: u64
  pcg_fallback :: gate_fallback
  pcg_created_at :: u64

datatype gate_resolution = Approved string | Rejected

record gate_controller =
  gc_pending :: "(string, pending_gate) hmap"
  gc_pending_checkpoints :: "(string, pending_checkpoint_gate) hmap"
  gc_next_id :: u64
  gc_default_timeout_ms :: u64
  gc_default_fallback :: gate_fallback

definition gate_new :: "u64 \<Rightarrow> gate_fallback \<Rightarrow> gate_controller" where
  "gate_new timeout fb = \<lparr>gc_pending = [], gc_pending_checkpoints = [], gc_next_id = 1,
     gc_default_timeout_ms = timeout, gc_default_fallback = fb\<rparr>"

fun fallback_action :: "gate_fallback \<Rightarrow> string" where
  "fallback_action AutoApprove = ''auto_approve''"
| "fallback_action FbCancel = ''cancel''"

definition unwrap_or :: "'a \<Rightarrow> 'a option \<Rightarrow> 'a" where
  "unwrap_or d x = (case x of Some v \<Rightarrow> v | None \<Rightarrow> d)"

definition open_gate ::
  "task_id \<Rightarrow> string \<Rightarrow> string \<Rightarrow> u64 option \<Rightarrow> gate_fallback option \<Rightarrow> gate_controller
     \<Rightarrow> gate_event \<times> gate_controller" where
  "open_gate task_id task_name task_description timeout_ms fallback g =
     (let gate_id = mk_id ''gate-'' (gc_next_id g);
          timeout = unwrap_or (gc_default_timeout_ms g) timeout_ms;
          fb = unwrap_or (gc_default_fallback g) fallback;
          pending = \<lparr>pgt_gate_id = gate_id, pgt_task_id = task_id, pgt_task_name = task_name,
                     pgt_timeout_ms = timeout, pgt_fallback = fb, pgt_created_at = 0\<rparr>
      in (\<lparr>ge_gate_id = gate_id, ge_gate_type = TaskApproval, ge_subject = as_bytes task_description,
           ge_workspace_id = [], ge_task_id = Some task_id, ge_timeout_ms = timeout,
           ge_fallback_action = fallback_action fb, ge_created_at = 0\<rparr>,
          g\<lparr>gc_next_id := gc_next_id g + 1, gc_pending := hput gate_id pending (gc_pending g)\<rparr>))"

definition resolve_gate ::
  "gate_id \<Rightarrow> gate_decision \<Rightarrow> gate_controller \<Rightarrow> gate_resolution option \<times> gate_controller" where
  "resolve_gate gate_id decision g =
     (case hget (gc_pending g) gate_id of
        None \<Rightarrow> (None, g)
      | Some _ \<Rightarrow>
          (Some (case decision of Reject \<Rightarrow> Rejected | _ \<Rightarrow> Approved ''human''),
           g\<lparr>gc_pending := hdel gate_id (gc_pending g)\<rparr>))"

definition timeout_gate :: "gate_id \<Rightarrow> gate_controller \<Rightarrow> gate_resolution option \<times> gate_controller" where
  "timeout_gate gate_id g =
     (case hget (gc_pending g) gate_id of
        None \<Rightarrow> (None, g)
      | Some gate \<Rightarrow>
          (Some (case pgt_fallback gate of
                   AutoApprove \<Rightarrow> Approved ''timeout_auto_approve'' | FbCancel \<Rightarrow> Rejected),
           g\<lparr>gc_pending := hdel gate_id (gc_pending g)\<rparr>))"

definition is_pending :: "gate_controller \<Rightarrow> gate_id \<Rightarrow> bool" where
  "is_pending g gate_id = hhas (gc_pending g) gate_id"

definition pending_for_task :: "gate_controller \<Rightarrow> task_id \<Rightarrow> pending_gate option" where
  "pending_for_task g tid = find (\<lambda>p. pgt_task_id p = tid) (hvals (gc_pending g))"

definition pending_count :: "gate_controller \<Rightarrow> nat" where
  "pending_count g = length (gc_pending g)"

definition open_checkpoint_gate ::
  "workspace_id \<Rightarrow> checkpoint_id \<Rightarrow> string \<Rightarrow> u64 option \<Rightarrow> gate_fallback option \<Rightarrow> gate_controller
     \<Rightarrow> gate_event \<times> gate_controller" where
  "open_checkpoint_gate workspace_id checkpoint_id checkpoint_type timeout_ms fallback g =
     (let gate_id = mk_id ''gate-'' (gc_next_id g);
          timeout = unwrap_or (gc_default_timeout_ms g) timeout_ms;
          fb = unwrap_or (gc_default_fallback g) fallback;
          pending = \<lparr>pcg_gate_id = gate_id, pcg_workspace_id = workspace_id, pcg_checkpoint_id = checkpoint_id,
                     pcg_checkpoint_type = checkpoint_type, pcg_timeout_ms = timeout, pcg_fallback = fb,
                     pcg_created_at = 0\<rparr>
      in (\<lparr>ge_gate_id = gate_id, ge_gate_type = CheckpointApproval, ge_subject = as_bytes checkpoint_id,
           ge_workspace_id = workspace_id, ge_task_id = None, ge_timeout_ms = timeout,
           ge_fallback_action = fallback_action fb, ge_created_at = 0\<rparr>,
          g\<lparr>gc_next_id := gc_next_id g + 1,
            gc_pending_checkpoints := hput gate_id pending (gc_pending_checkpoints g)\<rparr>))"

definition resolve_checkpoint ::
  "gate_id \<Rightarrow> gate_controller \<Rightarrow> pending_checkpoint_gate option \<times> gate_controller" where
  "resolve_checkpoint gate_id g =
     (hget (gc_pending_checkpoints g) gate_id,
      g\<lparr>gc_pending_checkpoints := hdel gate_id (gc_pending_checkpoints g)\<rparr>)"

definition is_checkpoint_pending :: "gate_controller \<Rightarrow> gate_id \<Rightarrow> bool" where
  "is_checkpoint_pending g gate_id = hhas (gc_pending_checkpoints g) gate_id"

definition pending_checkpoint_count :: "gate_controller \<Rightarrow> nat" where
  "pending_checkpoint_count g = length (gc_pending_checkpoints g)"

section \<open>Sequences of operations\<close>

datatype gate_op =
  GOpen task_id string string "u64 option" "gate_fallback option"
| GOpenCheckpoint workspace_id checkpoint_id string "u64 option" "gate_fallback option"
| GResolve gate_id gate_decision | GTimeout gate_id | GResolveCheckpoint gate_id

text \<open>What an operation returns to its caller: an event that opens a gate, or a response to one.\<close>

datatype gate_answer =
  Opened gate_event | Answered gate_id "gate_resolution option" | Detached gate_id "pending_checkpoint_gate option"

fun gate_step :: "gate_op \<Rightarrow> gate_controller \<Rightarrow> gate_answer \<times> gate_controller" where
  "gate_step (GOpen t n d ms fb) g = apfst Opened (open_gate t n d ms fb g)"
| "gate_step (GOpenCheckpoint w c ty ms fb) g = apfst Opened (open_checkpoint_gate w c ty ms fb g)"
| "gate_step (GResolve k d) g = apfst (Answered k) (resolve_gate k d g)"
| "gate_step (GTimeout k) g = apfst (Answered k) (timeout_gate k g)"
| "gate_step (GResolveCheckpoint k) g = apfst (Detached k) (resolve_checkpoint k g)"

primrec gate_run :: "gate_op list \<Rightarrow> gate_controller \<Rightarrow> gate_answer list \<times> gate_controller" where
  "gate_run [] g = ([], g)"
| "gate_run (x # xs) g = (let (r, g1) = gate_step x g; (rs, g2) = gate_run xs g1 in (r # rs, g2))"

interpretation gate_ids: id_source "mk_id ''gate-''"
  by unfold_locales simp

definition gate_inv :: "gate_controller \<Rightarrow> bool" where
  "gate_inv g \<longleftrightarrow> hmap_ok (gc_pending g) \<and> hmap_ok (gc_pending_checkpoints g)
     \<and> (\<forall>k p. hget (gc_pending g) k = Some p \<longrightarrow> pgt_gate_id p = k \<and> issued (mk_id ''gate-'') (gc_next_id g) k)
     \<and> (\<forall>k p. hget (gc_pending_checkpoints g) k = Some p \<longrightarrow> pcg_gate_id p = k \<and> issued (mk_id ''gate-'') (gc_next_id g) k)
     \<and> (\<forall>k. \<not> (hhas (gc_pending g) k \<and> hhas (gc_pending_checkpoints g) k))"

lemma gate_inv_new [keeps]: "gate_inv (gate_new ms fb)"
  by (simp add: gate_inv_def gate_new_def)

lemma gate_fresh:
  assumes "gate_inv g"
  shows "hget (gc_pending g) (mk_id ''gate-'' (gc_next_id g)) = None"
    and "hget (gc_pending_checkpoints g) (mk_id ''gate-'' (gc_next_id g)) = None"
  using assms by (auto simp: gate_inv_def intro!: gate_ids.fresh_key)

lemma gate_inv_open [keeps]:
  assumes inv: "gate_inv g" and nx: "gc_next_id g \<noteq> - 1"
  shows "gate_inv (snd (open_gate t n d ms fb g))" "gate_inv (snd (open_checkpoint_gate w c ty ms fb g))"
  using inv gate_fresh [OF inv] gate_ids.issued_succ [OF nx]
  by (auto simp: gate_inv_def open_gate_def open_checkpoint_gate_def Let_def hhas_def split: if_splits)

lemma gate_inv_close [keeps]:
  assumes "gate_inv g"
  shows "gate_inv (snd (resolve_gate k d g))" "gate_inv (snd (timeout_gate k g))"
    "gate_inv (snd (resolve_checkpoint k g))"
  using assms
  by (auto simp: gate_inv_def resolve_gate_def timeout_gate_def resolve_checkpoint_def split: option.split)

lemma gate_inv_step: "gate_inv g \<Longrightarrow> gc_next_id g \<noteq> - 1 \<Longrightarrow> gate_inv (snd (gate_step x g))"
  by (cases x) (simp_all add: keeps)

lemma gate_next_id:
  "gc_next_id (snd (gate_step x g)) = (case x of GOpen _ _ _ _ _ \<Rightarrow> gc_next_id g + 1
      | GOpenCheckpoint _ _ _ _ _ \<Rightarrow> gc_next_id g + 1 | _ \<Rightarrow> gc_next_id g)"
  by (cases x) (simp_all add: open_gate_def open_checkpoint_gate_def resolve_gate_def timeout_gate_def
      resolve_checkpoint_def Let_def split: option.split)

lemma gate_room:
  assumes "room (gc_next_id g) (length (x # xs))"
  shows "gc_next_id g \<noteq> - 1" and "room (gc_next_id (snd (gate_step x g))) (length xs)"
  using assms room_Suc [of "gc_next_id g" "length xs"] unfolding gate_next_id by (cases x; simp)+

lemma gate_run_Cons:
  "gate_run (x # xs) g = (fst (gate_step x g) # fst (gate_run xs (snd (gate_step x g))),
     snd (gate_run xs (snd (gate_step x g))))"
  by (simp add: Let_def case_prod_beta)

declare gate_run.simps(2) [simp del]

lemma gate_inv_run: "gate_inv g \<Longrightarrow> room (gc_next_id g) (length xs) \<Longrightarrow> gate_inv (snd (gate_run xs g))"
proof (induction xs arbitrary: g)
  case (Cons x xs)
  then show ?case using gate_room [OF Cons.prems(2)] by (simp add: gate_run_Cons gate_inv_step)
qed simp

text \<open>An id that is issued and not pending never becomes pending again.\<close>

definition settled :: "gate_controller \<Rightarrow> gate_id \<Rightarrow> bool" where
  "settled g k \<longleftrightarrow> issued (mk_id ''gate-'') (gc_next_id g) k
     \<and> hget (gc_pending g) k = None \<and> hget (gc_pending_checkpoints g) k = None"

lemma settled_step:
  assumes "settled g k" "gc_next_id g \<noteq> - 1"
  shows "settled (snd (gate_step x g)) k"
proof -
  have "k \<noteq> mk_id ''gate-'' (gc_next_id g)"
    using assms(1) gate_ids.fresh by (auto simp: settled_def)
  with assms gate_ids.issued_succ(2) [OF assms(2)] show ?thesis
    by (cases x) (auto simp: settled_def gate_next_id open_gate_def open_checkpoint_gate_def
        resolve_gate_def timeout_gate_def resolve_checkpoint_def Let_def split: option.splits)
qed

definition responses :: "gate_id \<Rightarrow> gate_answer list \<Rightarrow> gate_answer list" where
  "responses k rs = filter (\<lambda>r. case r of Answered k' (Some _) \<Rightarrow> k' = k
     | Detached k' (Some _) \<Rightarrow> k' = k | _ \<Rightarrow> False) rs"

lemma settled_silent:
  "settled g k \<Longrightarrow> room (gc_next_id g) (length xs) \<Longrightarrow> responses k (fst (gate_run xs g)) = []"
proof (induction xs arbitrary: g)
  case (Cons x xs)
  note room = gate_room [OF Cons.prems(2)]
  have "responses k [fst (gate_step x g)] = []"
    using Cons.prems(1)
    by (cases x) (auto simp: responses_def settled_def resolve_gate_def timeout_gate_def resolve_checkpoint_def
        split: option.splits)
  with Cons.IH [OF settled_step [OF Cons.prems(1) room(1)] room(2)] show ?case
    by (simp add: gate_run_Cons responses_def split: if_splits)
qed (simp add: responses_def)

definition opened :: "gate_answer list \<Rightarrow> gate_id list" where
  "opened rs = concat (map (\<lambda>r. case r of Opened e \<Rightarrow> [ge_gate_id e] | _ \<Rightarrow> []) rs)"

lemma opened_step:
  "opened [fst (gate_step x g)] = (if gc_next_id (snd (gate_step x g)) = gc_next_id g then []
     else [mk_id ''gate-'' (gc_next_id g)])"
  unfolding gate_next_id
  by (cases x) (simp_all add: opened_def open_gate_def open_checkpoint_gate_def Let_def)

lemma opened_run:
  "room (gc_next_id g) (length xs) \<Longrightarrow>
     distinct (opened (fst (gate_run xs g)))
     \<and> (\<forall>k \<in> set (opened (fst (gate_run xs g))). \<not> issued (mk_id ''gate-'') (gc_next_id g) k)"
proof (induction xs arbitrary: g)
  case (Cons x xs)
  note room = gate_room [OF Cons.prems]
  let ?g = "snd (gate_step x g)"
  have split: "opened (fst (gate_run (x # xs) g)) = opened [fst (gate_step x g)] @ opened (fst (gate_run xs ?g))"
    by (simp add: gate_run_Cons opened_def)
  have nx: "gc_next_id ?g = gc_next_id g \<or> gc_next_id ?g = gc_next_id g + 1"
    unfolding gate_next_id by (cases x) simp_all
  from Cons.IH [OF room(2)] nx gate_ids.issued_succ [OF room(1)] gate_ids.fresh show ?case
    unfolding split opened_step by auto
qed (simp add: opened_def)

text \<open>Gate ids are never reused: in every run of fewer than \<open>2^64 - 1\<close> operations all gates opened,
  of tasks and of checkpoints, have different ids.\<close>

theorem gate_ids_unique:
  "length ops < 2 ^ 64 - 1 \<Longrightarrow> distinct (opened (fst (gate_run ops (gate_new ms fb))))"
  using opened_run [of "gate_new ms fb" ops] by (simp add: gate_new_def room_def)

lemma responses_run:
  "gate_inv g \<Longrightarrow> room (gc_next_id g) (length xs) \<Longrightarrow> length (responses k (fst (gate_run xs g))) \<le> 1"
proof (induction xs arbitrary: g)
  case (Cons x xs)
  note room = gate_room [OF Cons.prems(2)]
  let ?g = "snd (gate_step x g)"
  have split: "responses k (fst (gate_run (x # xs) g)) = responses k [fst (gate_step x g)] @ responses k (fst (gate_run xs ?g))"
    by (simp add: gate_run_Cons responses_def)
  show ?case
  proof (cases "responses k [fst (gate_step x g)] = []")
    case True
    then show ?thesis using Cons.IH [OF gate_inv_step [OF Cons.prems(1) room(1)] room(2)] split by simp
  next
    case False
    have facts: "hget (gc_pending g) k = None \<or> hget (gc_pending_checkpoints g) k = None"
      "hget (gc_pending g) k \<noteq> None \<Longrightarrow> issued (mk_id ''gate-'') (gc_next_id g) k"
      "hget (gc_pending_checkpoints g) k \<noteq> None \<Longrightarrow> issued (mk_id ''gate-'') (gc_next_id g) k"
      using Cons.prems(1) by (auto simp: gate_inv_def hhas_def)
    from False facts have "settled ?g k"
      by (cases x) (auto simp: responses_def settled_def resolve_gate_def timeout_gate_def
          resolve_checkpoint_def split: option.splits)
    then have "responses k (fst (gate_run xs ?g)) = []" using settled_silent room(2) by blast
    moreover have "length (responses k [fst (gate_step x g)]) \<le> 1" by (simp add: responses_def)
    ultimately show ?thesis using split by simp
  qed
qed (simp add: responses_def)

text \<open>C9. The first response to a gate wins: in every run at most one call, be it a human decision, a
  timeout or the detaching of a checkpoint gate, gets an answer for a given gate id.\<close>

theorem first_response_wins:
  "length ops < 2 ^ 64 - 1 \<Longrightarrow> length (responses k (fst (gate_run ops (gate_new ms fb)))) \<le> 1"
  by (rule responses_run [OF gate_inv_new]) (simp add: gate_new_def room_def)

section \<open>Concrete instances\<close>

definition sample_gate_ops :: "gate_op list" where
  "sample_gate_ops = [GOpen ''t'' ''n'' ''d'' None None, GOpenCheckpoint ''w'' ''cp-0'' ''draft'' (Some 5) None,
     GTimeout (mk_id ''gate-'' 1), GResolve (mk_id ''gate-'' 1) Approve]"

lemmas sample_gate_simps =
  sample_gate_ops_def gate_run.simps(2) gate_new_def open_gate_def open_checkpoint_gate_def resolve_gate_def
  timeout_gate_def opened_def responses_def unwrap_or_def Let_def

theorem gate_ids_unique_witness:
  "distinct (opened (fst (gate_run sample_gate_ops (gate_new 1000 FbCancel))))
   \<and> length (opened (fst (gate_run sample_gate_ops (gate_new 1000 FbCancel)))) = 2"
  using gate_ids_unique [of sample_gate_ops 1000 FbCancel] by (simp add: sample_gate_simps)

theorem first_response_wins_witness:
  "responses (mk_id ''gate-'' 1) (fst (gate_run sample_gate_ops (gate_new 1000 FbCancel)))
     = [Answered (mk_id ''gate-'' 1) (Some Rejected)]
   \<and> length (responses (mk_id ''gate-'' 1) (fst (gate_run sample_gate_ops (gate_new 1000 FbCancel)))) \<le> 1"
  using first_response_wins [of sample_gate_ops "mk_id ''gate-'' 1" 1000 FbCancel] by (simp add: sample_gate_simps)

end
