(* ===== verification/Wacp_Workspace.thy ===== *)
theory Wacp_Workspace
  imports Wacp_Fsm
begin

text \<open>
  A workspace: its nine-component state (\<open>wacp-workspace/src/state.rs\<close>) and the actor that owns it
  (\<open>wacp-workspace/src/actor.rs\<close>). A handler takes the actor and returns the events it sends and the
  new actor; a send whose receiver is gone is ignored by the code and changes nothing. The two
  channels are lists, read in the biased order of the \<open>select!\<close>.
\<close>

section \<open>State\<close>

record workspace_config =
  wc_id :: workspace_id
  wc_role :: string
  wc_base_role :: base_role
  wc_parent :: workspace_id
  wc_owner :: user_id
  wc_originator :: originator
  wc_directive :: envelope
  wc_context :: bytes
  wc_visibility :: "string set"
  wc_authority :: "string set"
  wc_delegate :: bool
  wc_budget :: "resource_budget option"

record resource_meter =
  rm_usage :: resource_usage
  rm_budget :: "resource_budget option"

record workspace =
  w_id :: workspace_id
  w_status :: workspace_state
  w_role :: string
  w_base_role :: base_role
  w_parent :: workspace_id
  w_owner :: user_id
  w_originator :: originator
  w_delegate :: bool
  w_directive :: envelope
  w_inbox :: "envelope list"
  w_context :: bytes
  w_working_memory :: bytes
  w_checkpoint_register :: "checkpoint list"
  w_resource_meter :: resource_meter
  w_trail_sequence :: u64
  w_visibility_set :: "string set"
  w_authority_set :: "string set"
  w_delivered_envelope_ids :: "string set"

record migration_snapshot =
  ms_inbox :: "envelope list"
  ms_working_memory :: bytes
  ms_checkpoint_register :: "checkpoint list"
  ms_resource_meter :: resource_meter
  ms_trail_sequence :: u64
  ms_delivered_envelope_ids :: "string set"

record archived_workspace =
  aw_id :: workspace_id
  aw_terminal_state :: workspace_state
  aw_role :: string
  aw_parent :: workspace_id
  aw_owner :: user_id
  aw_originator :: originator
  aw_directive :: envelope
  aw_context :: bytes
  aw_checkpoints :: "checkpoint list"
  aw_final_usage :: resource_usage
  aw_visibility :: "string set"
  aw_authority :: "string set"

definition workspace_new :: "workspace_config \<Rightarrow> workspace" where
  "workspace_new c =
     \<lparr>w_id = wc_id c, w_status = WsIdle, w_role = wc_role c, w_base_role = wc_base_role c,
      w_parent = wc_parent c, w_owner = wc_owner c, w_originator = wc_originator c,
      w_delegate = wc_delegate c, w_directive = wc_directive c, w_inbox = [],
      w_context = wc_context c, w_working_memory = [], w_checkpoint_register = [],
      w_resource_meter = \<lparr>rm_usage = default_usage, rm_budget = wc_budget c\<rparr>,
      w_trail_sequence = 0, w_visibility_set = wc_visibility c, w_authority_set = wc_authority c,
      w_delivered_envelope_ids = {}\<rparr>"

definition grant_visibility :: "string list \<Rightarrow> workspace \<Rightarrow> workspace" where
  "grant_visibility rs w = w\<lparr>w_visibility_set := fold insert rs (w_visibility_set w)\<rparr>"

fun priority_rank :: "envelope_priority \<Rightarrow> u8" where
  "priority_rank Blocking = 2"
| "priority_rank Urgent = 1"
| "priority_rank Normal = 0"

definition push_inbox :: "envelope \<Rightarrow> workspace \<Rightarrow> workspace" where
  "push_inbox env w =
     (let pos = (case position (\<lambda>e. priority_rank (e_priority e) < priority_rank (e_priority env)) (w_inbox w) of
                   Some i \<Rightarrow> i | None \<Rightarrow> length (w_inbox w))
      in w\<lparr>w_inbox := take pos (w_inbox w) @ [env] @ drop pos (w_inbox w)\<rparr>)"

definition pop_inbox :: "workspace \<Rightarrow> envelope option \<times> workspace" where
  "pop_inbox w =
     (case w_inbox w of
        [] \<Rightarrow> (None, w)
      | env # rest \<Rightarrow>
          (Some env, w\<lparr>w_inbox := rest,
                       w_delivered_envelope_ids := insert (e_id env) (w_delivered_envelope_ids w)\<rparr>))"

definition is_envelope_delivered :: "workspace \<Rightarrow> string \<Rightarrow> bool" where
  "is_envelope_delivered w eid = (eid \<in> w_delivered_envelope_ids w)"

definition inbox_len :: "workspace \<Rightarrow> nat" where
  "inbox_len w = length (w_inbox w)"

definition push_checkpoint :: "checkpoint \<Rightarrow> workspace \<Rightarrow> workspace" where
  "push_checkpoint cp w = w\<lparr>w_checkpoint_register := w_checkpoint_register w @ [cp]\<rparr>"

definition last_checkpoint :: "workspace \<Rightarrow> checkpoint option" where
  "last_checkpoint w =
     (case w_checkpoint_register w of [] \<Rightarrow> None | _ \<Rightarrow> Some (last (w_checkpoint_register w)))"

definition capture_snapshot :: "workspace \<Rightarrow> migration_snapshot" where
  "capture_snapshot w =
     \<lparr>ms_inbox = w_inbox w, ms_working_memory = w_working_memory w,
      ms_checkpoint_register = w_checkpoint_register w, ms_resource_meter = w_resource_meter w,
      ms_trail_sequence = w_trail_sequence w, ms_delivered_envelope_ids = w_delivered_envelope_ids w\<rparr>"

definition restore_from_snapshot ::
  "workspace_config \<Rightarrow> migration_snapshot \<Rightarrow> workspace_state \<Rightarrow> workspace" where
  "restore_from_snapshot c s st =
     \<lparr>w_id = wc_id c, w_status = st, w_role = wc_role c, w_base_role = wc_base_role c,
      w_parent = wc_parent c, w_owner = wc_owner c, w_originator = wc_originator c,
      w_delegate = wc_delegate c, w_directive = wc_directive c, w_inbox = ms_inbox s,
      w_context = wc_context c, w_working_memory = ms_working_memory s,
      w_checkpoint_register = ms_checkpoint_register s, w_resource_meter = ms_resource_meter s,
      w_trail_sequence = ms_trail_sequence s, w_visibility_set = wc_visibility c,
      w_authority_set = wc_authority c, w_delivered_envelope_ids = ms_delivered_envelope_ids s\<rparr>"

definition archive :: "workspace \<Rightarrow> archived_workspace" where
  "archive w =
     \<lparr>aw_id = w_id w, aw_terminal_state = w_status w, aw_role = w_role w, aw_parent = w_parent w,
      aw_owner = w_owner w, aw_originator = w_originator w, aw_directive = w_directive w,
      aw_context = w_context w, aw_checkpoints = w_checkpoint_register w,
      aw_final_usage = rm_usage (w_resource_meter w), aw_visibility = w_visibility_set w,
      aw_authority = w_authority_set w\<rparr>"

section \<open>The actor\<close>

datatype coordinator_command =
  Abort | Suspend | Resume | MigrateBegin | MigrationComplete bool | CmdMigrationFailed
| CmdIntegrationSucceeded | CmdIntegrationFailed | CmdConflictDetected | CmdConflictResolved
| CmdConflictUnresolvable | GrantVisibility "string list" | UpdateBudget resource_budget
| DeliverEnvelope envelope | GracefulTermination u64 | CheckpointApproved string
| CheckpointRejected string

datatype agent_message =
  EmitSignal signal_type "string option" "bytes option"
| CreateCheckpoint string bytes string string checkpoint_status confidence "resource_usage option"

datatype workspace_event =
  SignalEvent signal
| StateChanged workspace_id workspace_state workspace_state
| Terminated archived_workspace
| CheckpointCreated checkpoint
| MigrationSnapshotEvent workspace_id migration_snapshot
| ErrorEvent workspace_id string

record actor =
  a_state :: workspace
  a_first_envelope_received :: bool

definition actor_new :: "workspace_config \<Rightarrow> actor" where
  "actor_new c = \<lparr>a_state = workspace_new c, a_first_envelope_received = False\<rparr>"

text \<open>\<open>TransitionError::to_string\<close>\<close>

fun transition_error_message :: "transition_error \<Rightarrow> string" where
  "transition_error_message (IllegalTransition s t) = ''illegal transition: '' @ s @ '' + '' @ t"
| "transition_error_message (TerminalState s) = ''terminal state: '' @ s @ '' rejects all triggers''"

definition actor_transition :: "workspace_trigger \<Rightarrow> actor \<Rightarrow> workspace_event list \<times> actor" where
  "actor_transition trigger a =
     (let w = a_state a; from_st = w_status w
      in case workspace_transition from_st trigger of
           Ok to \<Rightarrow> ([StateChanged (w_id w) from_st to], a\<lparr>a_state := w\<lparr>w_status := to\<rparr>\<rparr>)
         | Err e \<Rightarrow> ([ErrorEvent (w_id w) (transition_error_message e)], a))"

fun handle_coordinator_cmd :: "coordinator_command \<Rightarrow> actor \<Rightarrow> workspace_event list \<times> actor" where
  "handle_coordinator_cmd Abort a = actor_transition CoordinatorAbort a"
| "handle_coordinator_cmd Suspend a = actor_transition CoordinatorSuspend a"
| "handle_coordinator_cmd Resume a = actor_transition CoordinatorResume a"
| "handle_coordinator_cmd MigrateBegin a =
     (let (evs, a') = actor_transition CoordinatorMigrate a
      in if w_status (a_state a') = WsMigrating
         then (evs @ [MigrationSnapshotEvent (w_id (a_state a')) (capture_snapshot (a_state a'))], a')
         else (evs, a'))"
| "handle_coordinator_cmd (MigrationComplete restore_blocked) a =
     actor_transition (if restore_blocked then MigrationSucceededBlocked else MigrationSucceeded) a"
| "handle_coordinator_cmd CmdMigrationFailed a = actor_transition MigrationFailed a"
| "handle_coordinator_cmd CmdIntegrationSucceeded a = actor_transition IntegrationSucceeded a"
| "handle_coordinator_cmd CmdIntegrationFailed a = actor_transition IntegrationFailed a"
| "handle_coordinator_cmd CmdConflictDetected a = actor_transition ConflictDetected a"
| "handle_coordinator_cmd CmdConflictResolved a = actor_transition ConflictResolved a"
| "handle_coordinator_cmd CmdConflictUnresolvable a = actor_transition ConflictUnresolvable a"
| "handle_coordinator_cmd (GrantVisibility rs) a = ([], a\<lparr>a_state := grant_visibility rs (a_state a)\<rparr>)"
| "handle_coordinator_cmd (UpdateBudget b) a =
     ([], a\<lparr>a_state := (a_state a)\<lparr>w_resource_meter := (w_resource_meter (a_state a))\<lparr>rm_budget := Some b\<rparr>\<rparr>\<rparr>)"
| "handle_coordinator_cmd (DeliverEnvelope env) a =
     (if is_envelope_delivered (a_state a) (e_id env) then ([], a)
      else let (evs, a1) =
             (if \<not> a_first_envelope_received a \<and> w_status (a_state a) = WsIdle
              then actor_transition ReceiveFirstEnvelope (a\<lparr>a_first_envelope_received := True\<rparr>)
              else ([], a))
           in (evs, a1\<lparr>a_state := push_inbox env (a_state a1)\<rparr>))"
| "handle_coordinator_cmd (GracefulTermination ms) a = ([], a)"
| "handle_coordinator_cmd (CheckpointApproved cid) a = actor_transition AgentStarted a"
| "handle_coordinator_cmd (CheckpointRejected cid) a = actor_transition CoordinatorAbort a"

definition handle_create_checkpoint ::
  "string \<Rightarrow> bytes \<Rightarrow> string \<Rightarrow> string \<Rightarrow> checkpoint_status \<Rightarrow> confidence \<Rightarrow> resource_usage option
     \<Rightarrow> actor \<Rightarrow> workspace_event list \<times> actor" where
  "handle_create_checkpoint checkpoint_type payload content_hash intent status conf usage a =
     (let w = a_state a;
          expected_parent = map_option cp_id (last_checkpoint w);
          cp = \<lparr>cp_id = ''cp-'' @ show_nat (length (w_checkpoint_register w)), cp_workspace_id = w_id w,
                cp_checkpoint_type = checkpoint_type, cp_payload = payload, cp_content_hash = content_hash,
                cp_intent = intent, cp_parent_checkpoint = expected_parent, cp_status = status,
                cp_confidence = conf, cp_timestamp = 0, cp_resource_usage = usage\<rparr>;
          m = w_resource_meter w;
          w1 = w\<lparr>w_resource_meter := m\<lparr>rm_usage := (rm_usage m)\<lparr>ru_storage_bytes :=
                   ru_storage_bytes (rm_usage m) + word_of_nat (length payload)\<rparr>\<rparr>\<rparr>;
          w2 = push_checkpoint cp w1;
          sig = \<lparr>sg_signal_type = SigCheckpoint, sg_workspace_id = w_id w2, sg_timestamp = 0,
                 sg_reason = None, sg_context = None\<rparr>;
          a2 = a\<lparr>a_state := w2\<rparr>;
          evs = [CheckpointCreated cp, SignalEvent sig]
      in if status = Provisional
         then let (evs', a3) = actor_transition AgentBlocked a2 in (evs @ evs', a3)
         else (evs, a2))"

fun signal_trigger :: "signal_type \<Rightarrow> workspace_trigger option" where
  "signal_trigger SigStarted = Some AgentStarted"
| "signal_trigger SigBlocked = Some AgentBlocked"
| "signal_trigger SigComplete = Some AgentComplete"
| "signal_trigger SigFailed = Some AgentFailed"
| "signal_trigger _ = None"

definition handle_agent_msg :: "agent_message \<Rightarrow> actor \<Rightarrow> workspace_event list \<times> actor" where
  "handle_agent_msg msg a =
     (if w_status (a_state a) = WsMigrating then ([], a)
      else case msg of
        EmitSignal st reason ctx \<Rightarrow>
          (let (evs, a1) = (case signal_trigger st of
                              Some t \<Rightarrow> actor_transition t a | None \<Rightarrow> ([], a));
               sig = \<lparr>sg_signal_type = st, sg_workspace_id = w_id (a_state a1), sg_timestamp = 0,
                      sg_reason = reason, sg_context = ctx\<rparr>
           in (evs @ [SignalEvent sig], a1))
      | CreateCheckpoint ct payload chash intent status conf usage \<Rightarrow>
          handle_create_checkpoint ct payload chash intent status conf usage a)"

text \<open>
  The \<open>run\<close> loop. \<open>actor_step\<close> is one iteration on a chosen message; \<open>actor_run\<close> processes a sequence
  of messages in the order in which the loop takes them; \<open>actor_loop\<close> is the loop on two channels
  whose senders are gone, where the biased \<open>select!\<close> takes every command before any agent message.
\<close>

datatype actor_input = Cmd coordinator_command | Msg agent_message

fun actor_step :: "actor_input \<Rightarrow> actor \<Rightarrow> workspace_event list \<times> actor" where
  "actor_step (Cmd c) a = handle_coordinator_cmd c a"
| "actor_step (Msg m) a = handle_agent_msg m a"

fun actor_run :: "actor_input list \<Rightarrow> actor \<Rightarrow> workspace_event list \<times> actor" where
  "actor_run ins a =
     (if is_terminal (w_status (a_state a)) then ([Terminated (archive (a_state a))], a)
      else case ins of
        [] \<Rightarrow> ([], a)
      | i # ins' \<Rightarrow> let (evs, a1) = actor_step i a; (evs', a2) = actor_run ins' a1 in (evs @ evs', a2))"

declare actor_run.simps [simp del]

definition actor_loop ::
  "coordinator_command list \<Rightarrow> agent_message list \<Rightarrow> actor \<Rightarrow> workspace_event list \<times> actor" where
  "actor_loop cq aq a = actor_run (map Cmd cq @ map Msg aq) a"

section \<open>The inbox is a priority queue\<close>

text \<open>The contract: three queues, served in the order of priority, each first in first out.\<close>

datatype inbox_op = Push envelope | Pop

record inbox_spec =
  q_blocking :: "envelope list"
  q_urgent :: "envelope list"
  q_normal :: "envelope list"

fun spec_op :: "inbox_op \<Rightarrow> inbox_spec \<Rightarrow> envelope option \<times> inbox_spec" where
  "spec_op (Push env) q =
     (None, case e_priority env of
        Blocking \<Rightarrow> q\<lparr>q_blocking := q_blocking q @ [env]\<rparr>
      | Urgent \<Rightarrow> q\<lparr>q_urgent := q_urgent q @ [env]\<rparr>
      | Normal \<Rightarrow> q\<lparr>q_normal := q_normal q @ [env]\<rparr>)"
| "spec_op Pop q =
     (case q_blocking q of e # es \<Rightarrow> (Some e, q\<lparr>q_blocking := es\<rparr>)
      | [] \<Rightarrow> (case q_urgent q of e # es \<Rightarrow> (Some e, q\<lparr>q_urgent := es\<rparr>)
      | [] \<Rightarrow> (case q_normal q of e # es \<Rightarrow> (Some e, q\<lparr>q_normal := es\<rparr>)
      | [] \<Rightarrow> (None, q))))"

fun inbox_do :: "inbox_op \<Rightarrow> workspace \<Rightarrow> envelope option \<times> workspace" where
  "inbox_do (Push env) w = (None, push_inbox env w)"
| "inbox_do Pop w = pop_inbox w"

primrec run_ops :: "('op \<Rightarrow> 's \<Rightarrow> 'o \<times> 's) \<Rightarrow> 'op list \<Rightarrow> 's \<Rightarrow> 'o list" where
  "run_ops f [] s = []"
| "run_ops f (x # xs) s = (let (r, s') = f x s in r # run_ops f xs s')"

definition inbox_rel :: "workspace \<Rightarrow> inbox_spec \<Rightarrow> bool" where
  "inbox_rel w q \<longleftrightarrow> w_inbox w = q_blocking q @ q_urgent q @ q_normal q
     \<and> (\<forall>e \<in> set (q_blocking q). e_priority e = Blocking)
     \<and> (\<forall>e \<in> set (q_urgent q). e_priority e = Urgent)
     \<and> (\<forall>e \<in> set (q_normal q). e_priority e = Normal)"

lemma insert_at_position:
  assumes "\<forall>x \<in> set xs. \<not> P x" "\<forall>y \<in> set ys. P y"
  defines "pos \<equiv> (case position P (xs @ ys) of Some i \<Rightarrow> i | None \<Rightarrow> length (xs @ ys))"
  shows "take pos (xs @ ys) @ [e] @ drop pos (xs @ ys) = xs @ [e] @ ys"
proof -
  have "position P (xs @ ys) = (if ys = [] then None else Some (length xs))"
    using assms(1,2) by (induction xs) (cases ys, auto)+
  then show ?thesis by (simp add: pos_def)
qed

lemma push_inbox_at:
  assumes "w_inbox w = xs @ ys"
    "\<forall>x \<in> set xs. \<not> priority_rank (e_priority x) < priority_rank (e_priority env)"
    "\<forall>y \<in> set ys. priority_rank (e_priority y) < priority_rank (e_priority env)"
  shows "w_inbox (push_inbox env w) = xs @ [env] @ ys"
  using insert_at_position [OF assms(2,3), of env] unfolding push_inbox_def Let_def assms(1) by simp

lemma inbox_step:
  assumes rel: "inbox_rel w q"
  shows "fst (inbox_do x w) = fst (spec_op x q) \<and> inbox_rel (snd (inbox_do x w)) (snd (spec_op x q))"
proof (cases x)
  case (Push env)
  have at: "w_inbox (push_inbox env w) = (case e_priority env of
        Normal \<Rightarrow> (q_blocking q @ q_urgent q @ q_normal q) @ [env] @ []
      | Urgent \<Rightarrow> (q_blocking q @ q_urgent q) @ [env] @ q_normal q
      | Blocking \<Rightarrow> q_blocking q @ [env] @ q_urgent q @ q_normal q)"
    using rel unfolding inbox_rel_def
    by (cases "e_priority env"; simp only: envelope_priority.case; intro push_inbox_at) auto
  have "inbox_rel (push_inbox env w) (snd (spec_op x q))"
    using rel at by (cases "e_priority env") (auto simp: Push inbox_rel_def)
  then show ?thesis by (simp add: Push)
next
  case Pop
  then show ?thesis
    using rel by (auto simp: inbox_rel_def pop_inbox_def split: list.splits)
qed

text \<open>C7. The inbox implements three first-in-first-out queues served by priority: for every sequence of
  pushes and pops on a new workspace, the envelopes returned are those of the specification.\<close>

theorem inbox_refines_priority_queues:
  "run_ops inbox_do ops (workspace_new c)
     = run_ops spec_op ops \<lparr>q_blocking = [], q_urgent = [], q_normal = []\<rparr>"
proof -
  have "inbox_rel w q \<Longrightarrow> run_ops inbox_do ops w = run_ops spec_op ops q" for w q
  proof (induction ops arbitrary: w q)
    case (Cons x ops)
    from inbox_step [OF Cons.prems, of x] Cons.IH show ?case
      by (auto simp: Let_def case_prod_beta)
  qed simp
  moreover have "inbox_rel (workspace_new c) \<lparr>q_blocking = [], q_urgent = [], q_normal = []\<rparr>"
    by (simp add: inbox_rel_def workspace_new_def)
  ultimately show ?thesis by blast
qed

section \<open>Runs of the actor\<close>

text \<open>What no step of an actor changes, and how the other parts may grow.\<close>

definition ws_core :: "workspace \<Rightarrow> workspace_id \<times> string \<times> base_role \<times> workspace_id \<times> user_id \<times> originator
    \<times> bool \<times> envelope \<times> bytes \<times> string set" where
  "ws_core w = (w_id w, w_role w, w_base_role w, w_parent w, w_owner w, w_originator w, w_delegate w,
                w_directive w, w_context w, w_authority_set w)"

definition grows :: "workspace \<Rightarrow> workspace \<Rightarrow> bool" where
  "grows w w' \<longleftrightarrow> ws_core w' = ws_core w \<and> w_visibility_set w \<subseteq> w_visibility_set w'
     \<and> w_working_memory w' = w_working_memory w \<and> w_trail_sequence w' = w_trail_sequence w
     \<and> w_delivered_envelope_ids w' = w_delivered_envelope_ids w
     \<and> prefix (w_checkpoint_register w) (w_checkpoint_register w')"

lemma grows_refl [simp]: "grows w w"
  by (simp add: grows_def)

lemma grows_trans: "grows w w' \<Longrightarrow> grows w' w'' \<Longrightarrow> grows w w''"
  unfolding grows_def by (auto intro: prefix_order.trans)

text \<open>The status changes an actor reports, and a chain of them.\<close>

fun changes :: "workspace_event list \<Rightarrow> (workspace_state \<times> workspace_state) list" where
  "changes [] = []"
| "changes (StateChanged wid f t # evs) = (f, t) # changes evs"
| "changes (_ # evs) = changes evs"

fun chain :: "workspace_state \<Rightarrow> (workspace_state \<times> workspace_state) list \<Rightarrow> workspace_state \<Rightarrow> bool" where
  "chain s [] s' = (s = s')"
| "chain s ((f, t) # cs) s' = (f = s \<and> legal_step workspace_transition f t \<and> chain t cs s')"

lemma changes_append [simp]: "changes (xs @ ys) = changes xs @ changes ys"
  by (induction xs rule: changes.induct) auto

lemma chain_append: "chain s cs s' \<Longrightarrow> chain s' cs' s'' \<Longrightarrow> chain s (cs @ cs') s''"
  by (induction s cs s' rule: chain.induct) auto

text \<open>Checkpoints are numbered in order and each names its predecessor.\<close>

definition linked :: "workspace_id \<Rightarrow> checkpoint list \<Rightarrow> bool" where
  "linked wid cps \<longleftrightarrow>
     (\<forall>i < length cps. cp_id (cps ! i) = ''cp-'' @ show_nat i \<and> cp_workspace_id (cps ! i) = wid
        \<and> cp_parent_checkpoint (cps ! i) = (if i = 0 then None else Some (cp_id (cps ! (i - 1)))))"

lemma log_linked_snoc:
  assumes "linked wid cps" "cp_id cp = ''cp-'' @ show_nat (length cps)" "cp_workspace_id cp = wid"
    "cp_parent_checkpoint cp = map_option cp_id (case cps of [] \<Rightarrow> None | _ \<Rightarrow> Some (last cps))"
  shows "linked wid (cps @ [cp])"
proof -
  have "cp_parent_checkpoint cp = (if cps = [] then None else Some (cp_id (cps ! (length cps - 1))))"
    using assms(4) by (cases cps) (simp_all add: last_conv_nth)
  with assms(1-3) show ?thesis
    by (auto simp: linked_def nth_append less_Suc_eq)
qed

definition step_ok :: "actor \<Rightarrow> workspace_event list \<times> actor \<Rightarrow> bool" where
  "step_ok a r \<longleftrightarrow> grows (a_state a) (a_state (snd r))
     \<and> chain (w_status (a_state a)) (changes (fst r)) (w_status (a_state (snd r)))
     \<and> (linked (w_id (a_state a)) (w_checkpoint_register (a_state a))
          \<longrightarrow> linked (w_id (a_state a)) (w_checkpoint_register (a_state (snd r))))
     \<and> (\<forall>x. Terminated x \<notin> set (fst r))"

lemma step_ok_seq:
  assumes "step_ok a r" "step_ok (snd r) r'"
  shows "step_ok a (fst r @ fst r', snd r')"
proof -
  have "w_id (a_state (snd r)) = w_id (a_state a)"
    using assms(1) by (auto simp: step_ok_def grows_def ws_core_def)
  with assms show ?thesis
    unfolding step_ok_def using grows_trans chain_append by fastforce
qed

lemma step_ok_transition: "step_ok a (actor_transition t a)"
  by (auto simp: actor_transition_def Let_def step_ok_def grows_def ws_core_def
      split: result.splits intro: legal_step.intros)

lemma step_ok_quiet: "a_state a' = a_state a \<Longrightarrow> step_ok a ([], a')"
  by (simp add: step_ok_def)

lemma step_ok_same:
  assumes "grows (a_state a) (a_state a')" "w_status (a_state a') = w_status (a_state a)"
    "w_checkpoint_register (a_state a') = w_checkpoint_register (a_state a)"
  shows "step_ok a ([], a')"
  using assms by (simp add: step_ok_def)

lemma push_inbox_frame [simp]:
  "grows w (push_inbox env w)" "w_status (push_inbox env w) = w_status w"
  "w_checkpoint_register (push_inbox env w) = w_checkpoint_register w"
  by (simp_all add: push_inbox_def Let_def grows_def ws_core_def)

lemma step_ok_cmd: "step_ok a (handle_coordinator_cmd c a)"
proof (cases c)
  case MigrateBegin
  have "step_ok a (actor_transition CoordinatorMigrate a)" by (rule step_ok_transition)
  then show ?thesis by (simp add: MigrateBegin case_prod_beta Let_def) (auto simp: step_ok_def)
next
  case (DeliverEnvelope env)
  let ?a = "a\<lparr>a_first_envelope_received := True\<rparr>"
  let ?r = "actor_transition ReceiveFirstEnvelope ?a"
  have "step_ok a ?r" using step_ok_seq [OF step_ok_quiet step_ok_transition, of ?a a] by simp
  moreover have "step_ok b ([], b\<lparr>a_state := push_inbox env (a_state b)\<rparr>)" for b
    by (rule step_ok_same) simp_all
  ultimately show ?thesis
    using step_ok_seq [of a ?r "([], (snd ?r)\<lparr>a_state := push_inbox env (a_state (snd ?r))\<rparr>)"]
    by (simp add: DeliverEnvelope case_prod_beta Let_def step_ok_quiet)
next
  case (GrantVisibility rs)
  have "fold insert rs s = set rs \<union> s" for s by (induction rs arbitrary: s) auto
  then show ?thesis
    by (auto simp: GrantVisibility grant_visibility_def grows_def ws_core_def intro!: step_ok_same)
next
  case (UpdateBudget b)
  then show ?thesis by (auto simp: grows_def ws_core_def intro!: step_ok_same)
qed (simp_all add: step_ok_transition step_ok_quiet)

lemma step_ok_checkpoint: "step_ok a (handle_create_checkpoint ct pl ch it st cf us a)"
proof -
  let ?w = "a_state a"
  define cp where "cp = \<lparr>cp_id = ''cp-'' @ show_nat (length (w_checkpoint_register ?w)), cp_workspace_id = w_id ?w,
      cp_checkpoint_type = ct, cp_payload = pl, cp_content_hash = ch, cp_intent = it,
      cp_parent_checkpoint = map_option cp_id (last_checkpoint ?w), cp_status = st,
      cp_confidence = cf, cp_timestamp = 0, cp_resource_usage = us\<rparr>"
  define w2 where "w2 = push_checkpoint cp (?w\<lparr>w_resource_meter := (w_resource_meter ?w)\<lparr>rm_usage :=
      (rm_usage (w_resource_meter ?w))\<lparr>ru_storage_bytes :=
         ru_storage_bytes (rm_usage (w_resource_meter ?w)) + word_of_nat (length pl)\<rparr>\<rparr>\<rparr>)"
  define sig where "sig = \<lparr>sg_signal_type = SigCheckpoint, sg_workspace_id = w_id w2, sg_timestamp = 0,
                 sg_reason = None, sg_context = None\<rparr>"
  let ?r = "([CheckpointCreated cp, SignalEvent sig], a\<lparr>a_state := w2\<rparr>)"
  let ?t = "actor_transition AgentBlocked (a\<lparr>a_state := w2\<rparr>)"
  have "linked (w_id ?w) (w_checkpoint_register ?w) \<Longrightarrow> linked (w_id ?w) (w_checkpoint_register w2)"
    by (auto simp: w2_def cp_def push_checkpoint_def last_checkpoint_def intro: log_linked_snoc)
  then have ok: "step_ok a ?r"
    by (auto simp: step_ok_def grows_def ws_core_def w2_def push_checkpoint_def)
  have "handle_create_checkpoint ct pl ch it st cf us a =
      (if st = Provisional then (fst ?r @ fst ?t, snd ?t) else ?r)"
    by (simp add: handle_create_checkpoint_def Let_def w2_def cp_def sig_def case_prod_beta)
  moreover have "step_ok a (fst ?r @ fst ?t, snd ?t)"
    using ok step_ok_transition by (intro step_ok_seq) simp_all
  ultimately show ?thesis using ok by (cases "st = Provisional") simp_all
qed

lemma step_ok_msg: "step_ok a (handle_agent_msg m a)"
proof (cases "w_status (a_state a) = WsMigrating")
  case True
  then show ?thesis by (simp add: handle_agent_msg_def step_ok_quiet)
next
  case False
  show ?thesis
  proof (cases m)
    case (EmitSignal st reason ctx)
    have "step_ok a (case signal_trigger st of Some t \<Rightarrow> actor_transition t a | None \<Rightarrow> ([], a))"
      by (simp add: step_ok_transition step_ok_quiet split: option.split)
    then show ?thesis
      using False by (simp add: handle_agent_msg_def EmitSignal Let_def case_prod_beta) (auto simp: step_ok_def)
  next
    case (CreateCheckpoint ct pl ch it st cf us)
    then show ?thesis using False step_ok_checkpoint by (simp add: handle_agent_msg_def)
  qed
qed

lemma step_ok_step: "step_ok a (actor_step i a)"
  by (cases i) (simp_all add: step_ok_cmd step_ok_msg)

lemma actor_run_ok:
  "\<exists>evs0. fst (actor_run ins a) = evs0 @ (if is_terminal (w_status (a_state (snd (actor_run ins a))))
                then [Terminated (archive (a_state (snd (actor_run ins a))))] else [])
     \<and> step_ok a (evs0, snd (actor_run ins a))"
proof (induction ins arbitrary: a)
  case Nil
  show ?case
    by (rule exI [of _ "[]"]) (simp add: actor_run.simps step_ok_quiet)
next
  case (Cons i ins)
  show ?case
  proof (cases "is_terminal (w_status (a_state a))")
    case True
    then show ?thesis
      by (intro exI [of _ "[]"]) (simp add: actor_run.simps step_ok_quiet)
  next
    case False
    let ?r = "actor_step i a"
    from Cons.IH [of "snd ?r"] obtain evs0 where
      e: "fst (actor_run ins (snd ?r)) = evs0 @ (if is_terminal (w_status (a_state (snd (actor_run ins (snd ?r)))))
              then [Terminated (archive (a_state (snd (actor_run ins (snd ?r)))))] else [])"
        "step_ok (snd ?r) (evs0, snd (actor_run ins (snd ?r)))" by blast
    have run: "actor_run (i # ins) a = (fst ?r @ fst (actor_run ins (snd ?r)), snd (actor_run ins (snd ?r)))"
      using False by (simp add: actor_run.simps [of "i # ins"] Let_def case_prod_beta)
    show ?thesis
      using step_ok_seq [OF step_ok_step e(2)] e(1) by (intro exI [of _ "fst ?r @ evs0"]) (simp add: run)
  qed
qed

text \<open>C4. Whatever commands and agent messages an actor receives, in whatever order, the status changes it
  reports form one unbroken chain of legal transitions from \<open>Idle\<close> to its final status, and it
  reports its termination exactly once, last, and only in a terminal status.\<close>

theorem actor_lifecycle:
  assumes "actor_run ins (actor_new c) = (evs, a)"
  shows "chain WsIdle (changes evs) (w_status (a_state a))
    \<and> (\<exists>evs0. evs = evs0 @ (if is_terminal (w_status (a_state a)) then [Terminated (archive (a_state a))] else [])
          \<and> (\<forall>x. Terminated x \<notin> set evs0))"
proof -
  obtain evs0 where e: "evs = evs0 @ (if is_terminal (w_status (a_state a)) then [Terminated (archive (a_state a))] else [])"
    and ok: "step_ok (actor_new c) (evs0, a)"
    using actor_run_ok [of ins "actor_new c", unfolded assms fst_conv snd_conv] by blast
  from ok have "chain WsIdle (changes evs0) (w_status (a_state a))" "\<forall>x. Terminated x \<notin> set evs0"
    by (simp_all add: step_ok_def actor_new_def workspace_new_def)
  moreover have "changes evs = changes evs0" by (simp add: e)
  ultimately show ?thesis using e by auto
qed

lemma actor_run_grows:
  assumes "actor_run ins (actor_new c) = (evs, a)"
  shows "grows (workspace_new c) (a_state a)" "linked (wc_id c) (w_checkpoint_register (a_state a))"
proof -
  obtain evs0 where "step_ok (actor_new c) (evs0, a)"
    using actor_run_ok [of ins "actor_new c"] assms by auto
  then show "grows (workspace_new c) (a_state a)" "linked (wc_id c) (w_checkpoint_register (a_state a))"
    by (simp_all add: step_ok_def actor_new_def) (simp add: workspace_new_def linked_def)
qed

text \<open>An actor never changes what is fixed at creation: identity, role, parent, owner, originator,
  delegation flag, directive, context and authority. Visibility only grows, and the checkpoint
  register is a numbered chain in which every checkpoint names its predecessor.\<close>

theorem actor_immutables:
  assumes "actor_run ins (actor_new c) = (evs, a)"
  shows "ws_core (a_state a) = ws_core (workspace_new c)
    \<and> wc_visibility c \<subseteq> w_visibility_set (a_state a)
    \<and> linked (wc_id c) (w_checkpoint_register (a_state a))"
  using actor_run_grows [OF assms] by (auto simp: grows_def workspace_new_def)

text \<open>C13. Restoring a workspace from its creation parameters and a snapshot of any later moment gives that
  workspace back, with one exception: the visibility granted since creation is lost.\<close>

theorem snapshot_restore:
  assumes "actor_run ins (actor_new c) = (evs, a)"
  shows "restore_from_snapshot c (capture_snapshot (a_state a)) (w_status (a_state a))
       = (a_state a)\<lparr>w_visibility_set := wc_visibility c\<rparr>"
  using actor_run_grows(1) [OF assms]
  by (cases "a_state a")
    (simp add: grows_def ws_core_def workspace_new_def restore_from_snapshot_def capture_snapshot_def)

text \<open>While a workspace migrates its snapshot cannot go stale through the agent: after a successful
  \<open>MigrateBegin\<close> every sequence of agent messages is dropped without events, and the snapshot that was
  sent still describes the workspace.\<close>

theorem migration_snapshot_stable:
  assumes "w_status (a_state a) \<in> {WsActive, WsBlocked}" "handle_coordinator_cmd MigrateBegin a = (evs, a1)"
  shows "MigrationSnapshotEvent (w_id (a_state a)) (capture_snapshot (a_state a1)) \<in> set evs
    \<and> actor_run (map Msg msgs) a1 = ([], a1)"
proof -
  have mig: "w_status (a_state a1) = WsMigrating"
    using assms by (auto simp: actor_transition_def workspace_transition_def is_terminal_def Let_def)
  have "actor_run (map Msg msgs) a1 = ([], a1)"
    using mig by (induction msgs) (auto simp: actor_run.simps handle_agent_msg_def is_terminal_def)
  moreover have "MigrationSnapshotEvent (w_id (a_state a)) (capture_snapshot (a_state a1)) \<in> set evs"
    using assms by (auto simp: actor_transition_def workspace_transition_def is_terminal_def Let_def)
  ultimately show ?thesis by blast
qed

section \<open>Concrete instances\<close>

definition sample_envelope :: "envelope_id \<Rightarrow> envelope" where
  "sample_envelope eid = \<lparr>e_id = eid, e_from_workspace = ''r'', e_to_workspace = ''w'', e_envelope_type = ''directive'',
     e_payload = [], e_in_reply_to = None, e_timestamp = 0, e_priority = Normal, e_origin = Agent,
     e_state = EsCreated\<rparr>"

definition sample_config :: workspace_config where
  "sample_config = \<lparr>wc_id = ''w'', wc_role = ''dev'', wc_base_role = Worker, wc_parent = ''r'', wc_owner = ''u'',
     wc_originator = System, wc_directive = sample_envelope ''d'', wc_context = [], wc_visibility = {},
     wc_authority = {}, wc_delegate = False, wc_budget = None\<rparr>"

definition sample_inputs :: "actor_input list" where
  "sample_inputs = [Cmd (DeliverEnvelope (sample_envelope ''e1'')), Cmd (GrantVisibility [''x'']),
     Msg (CreateCheckpoint ''draft'' [1, 2] ''h'' ''i'' Final High None), Msg (EmitSignal SigBlocked None None)]"

lemmas sample_actor_simps =
  sample_inputs_def sample_config_def sample_envelope_def actor_new_def workspace_new_def actor_run.simps
  is_terminal_def is_envelope_delivered_def actor_transition_def workspace_transition_def push_inbox_def
  grant_visibility_def handle_agent_msg_def handle_create_checkpoint_def push_checkpoint_def last_checkpoint_def Let_def

theorem actor_lifecycle_witness:
  "\<exists>evs a. actor_run (sample_inputs @ [Cmd Abort]) (actor_new sample_config) = (evs, a)
     \<and> w_status (a_state a) = WsFailed
     \<and> chain WsIdle (changes evs) (w_status (a_state a)) \<and> changes evs \<noteq> []"
proof -
  let ?r = "actor_run (sample_inputs @ [Cmd Abort]) (actor_new sample_config)"
  have "w_status (a_state (snd ?r)) = WsFailed" "changes (fst ?r) \<noteq> []"
    by (simp_all add: sample_actor_simps)
  moreover have "chain WsIdle (changes (fst ?r)) (w_status (a_state (snd ?r)))"
    using actor_lifecycle [OF prod.collapse [symmetric]] by blast
  ultimately show ?thesis by (metis prod.collapse)
qed

theorem actor_immutables_witness:
  "linked ''w'' (w_checkpoint_register (a_state (snd (actor_run sample_inputs (actor_new sample_config)))))
   \<and> length (w_checkpoint_register (a_state (snd (actor_run sample_inputs (actor_new sample_config))))) = 1"
proof -
  let ?cps = "w_checkpoint_register (a_state (snd (actor_run sample_inputs (actor_new sample_config))))"
  have "linked (wc_id sample_config) ?cps"
    using actor_immutables [OF prod.collapse [symmetric], of sample_inputs sample_config] by blast
  moreover have "wc_id sample_config = ''w''" by (simp add: sample_config_def)
  moreover have "length ?cps = 1" by (simp add: sample_actor_simps)
  ultimately show ?thesis by simp
qed

theorem snapshot_restore_witness:
  "restore_from_snapshot sample_config
     (capture_snapshot (a_state (snd (actor_run sample_inputs (actor_new sample_config)))))
     (w_status (a_state (snd (actor_run sample_inputs (actor_new sample_config)))))
   = (a_state (snd (actor_run sample_inputs (actor_new sample_config))))\<lparr>w_visibility_set := {}\<rparr>"
  using snapshot_restore [OF prod.collapse [symmetric], of sample_config sample_inputs]
  by (simp add: sample_config_def)

theorem migration_snapshot_stable_witness:
  "\<exists>evs a1. handle_coordinator_cmd MigrateBegin (snd (actor_run sample_inputs (actor_new sample_config))) = (evs, a1)
     \<and> actor_run (map Msg [EmitSignal SigComplete None None]) a1 = ([], a1)"
proof -
  let ?a = "snd (actor_run sample_inputs (actor_new sample_config))"
  have "w_status (a_state ?a) \<in> {WsActive, WsBlocked}" by (simp add: sample_actor_simps)
  from migration_snapshot_stable [OF this prod.collapse [symmetric]] show ?thesis
    by (metis prod.collapse)
qed

text \<open>
  Two gaps. Nothing in the actor takes envelopes out of the inbox, so the set of delivered ids stays
  empty and the duplicate check of \<open>DeliverEnvelope\<close> never fires: the same envelope can be queued any
  number of times. And a restored workspace has only the visibility of its creation.
\<close>

theorem actor_never_deduplicates:
  "actor_run ins (actor_new c) = (evs, a) \<Longrightarrow> w_delivered_envelope_ids (a_state a) = {}"
  using actor_run_grows(1) [of ins c evs a] by (simp add: grows_def workspace_new_def)

theorem duplicate_in_inbox:
  "w_inbox (a_state (snd (actor_run [Cmd (DeliverEnvelope (sample_envelope ''e'')), Cmd (DeliverEnvelope (sample_envelope ''e''))]
     (actor_new sample_config)))) = [sample_envelope ''e'', sample_envelope ''e'']"
  by (simp add: sample_actor_simps)

theorem restore_loses_grants:
  "w_visibility_set (a_state (snd (actor_run sample_inputs (actor_new sample_config)))) = {''x''}
   \<and> w_visibility_set (restore_from_snapshot sample_config
        (capture_snapshot (a_state (snd (actor_run sample_inputs (actor_new sample_config))))) WsActive) = {}"
  by (simp add: sample_actor_simps) (simp add: restore_from_snapshot_def)

end
