(* ===== verification/Wacp_Migration.thy ===== *)
theory Wacp_Migration
  imports Wacp_Workspace
begin

text \<open>
  The migration coordinator (\<open>wacp-coordinator/src/migration.rs\<close>): the table of agent migrations in
  progress, their snapshots and time limits, and the trail events built from them.
\<close>

section \<open>Model\<close>

record agent_ref =
  ar_agent_type :: string
  ar_config :: "bytes option"

record migration_request =
  mr_workspace_id :: workspace_id
  mr_new_agent :: agent_ref
  mr_reason :: string

record migration_context =
  mx_workspace_id :: workspace_id
  mx_pre_migration_state :: workspace_state
  mx_old_agent :: string
  mx_new_agent :: agent_ref
  mx_reason :: string
  mx_snapshot :: "migration_snapshot option"
  mx_started_at_ms :: u64

datatype migration_error =
  MeWorkspaceNotFound string | MeInvalidState workspace_state | MeAlreadyMigrating string
| MeNotMigrating string | MeSnapshotAlreadySet string

record migration_started_event =
  mse_workspace_id :: workspace_id
  mse_old_agent :: string
  mse_new_agent :: string
  mse_reason :: string
  mse_pre_migration_state :: string

record migration_completed_event =
  mce_workspace_id :: workspace_id
  mce_old_agent :: string
  mce_new_agent :: string
  mce_duration_ms :: u64
  mce_restored_state :: string

record migration_failed_event =
  mfe_workspace_id :: workspace_id
  mfe_old_agent :: string
  mfe_new_agent :: string
  mfe_reason :: string
  mfe_error :: string
  mfe_failed_at_step :: u32
  mfe_duration_ms :: u64

record migration_coordinator =
  mg_active :: "(string, migration_context) hmap"
  mg_timeout_ms :: u64

definition migration_new :: "u64 \<Rightarrow> migration_coordinator" where
  "migration_new timeout_ms = \<lparr>mg_active = [], mg_timeout_ms = timeout_ms\<rparr>"

definition migration_start ::
  "migration_request \<Rightarrow> workspace_state \<Rightarrow> string \<Rightarrow> u64 \<Rightarrow> migration_coordinator
     \<Rightarrow> (migration_context, migration_error) result \<times> migration_coordinator" where
  "migration_start request current_state old_agent now_ms mg =
     (if current_state \<notin> {WsActive, WsBlocked} then (Err (MeInvalidState current_state), mg)
      else let ws_key = mr_workspace_id request
      in if hhas (mg_active mg) ws_key then (Err (MeAlreadyMigrating ws_key), mg)
      else let ctx = \<lparr>mx_workspace_id = mr_workspace_id request, mx_pre_migration_state = current_state,
                      mx_old_agent = old_agent, mx_new_agent = mr_new_agent request,
                      mx_reason = mr_reason request, mx_snapshot = None, mx_started_at_ms = now_ms\<rparr>
      in (Ok ctx, mg\<lparr>mg_active := hput ws_key ctx (mg_active mg)\<rparr>))"

definition migration_get :: "migration_coordinator \<Rightarrow> string \<Rightarrow> migration_context option" where
  "migration_get mg wid = hget (mg_active mg) wid"

definition set_snapshot ::
  "string \<Rightarrow> migration_snapshot \<Rightarrow> migration_coordinator
     \<Rightarrow> (unit, migration_error) result \<times> migration_coordinator" where
  "set_snapshot wid snapshot mg =
     (case hget (mg_active mg) wid of
        None \<Rightarrow> (Err (MeNotMigrating wid), mg)
      | Some ctx \<Rightarrow>
          if mx_snapshot ctx \<noteq> None then (Err (MeSnapshotAlreadySet wid), mg)
          else (Ok (), mg\<lparr>mg_active := hput wid (ctx\<lparr>mx_snapshot := Some snapshot\<rparr>) (mg_active mg)\<rparr>))"

definition migration_complete ::
  "string \<Rightarrow> migration_coordinator \<Rightarrow> (migration_context, migration_error) result \<times> migration_coordinator" where
  "migration_complete wid mg =
     (case hget (mg_active mg) wid of
        None \<Rightarrow> (Err (MeNotMigrating wid), mg)
      | Some ctx \<Rightarrow> (Ok ctx, mg\<lparr>mg_active := hdel wid (mg_active mg)\<rparr>))"

definition migration_fail ::
  "string \<Rightarrow> string \<Rightarrow> u32 \<Rightarrow> migration_coordinator
     \<Rightarrow> (migration_context, migration_error) result \<times> migration_coordinator" where
  "migration_fail wid error step mg =
     (case hget (mg_active mg) wid of
        None \<Rightarrow> (Err (MeNotMigrating wid), mg)
      | Some ctx \<Rightarrow> (Ok ctx, mg\<lparr>mg_active := hdel wid (mg_active mg)\<rparr>))"

definition check_timeouts :: "migration_coordinator \<Rightarrow> u64 \<Rightarrow> workspace_id list" where
  "check_timeouts mg now_ms =
     map mx_workspace_id
       (filter (\<lambda>ctx. saturating_sub now_ms (mx_started_at_ms ctx) \<ge> mg_timeout_ms mg) (hvals (mg_active mg)))"

definition is_migrating :: "migration_coordinator \<Rightarrow> string \<Rightarrow> bool" where
  "is_migrating mg wid = hhas (mg_active mg) wid"

definition migration_active_count :: "migration_coordinator \<Rightarrow> nat" where
  "migration_active_count mg = length (mg_active mg)"

definition expected_agent :: "migration_coordinator \<Rightarrow> string \<Rightarrow> agent_ref option" where
  "expected_agent mg wid = map_option mx_new_agent (hget (mg_active mg) wid)"

definition started_event :: "migration_context \<Rightarrow> migration_started_event" where
  "started_event ctx =
     \<lparr>mse_workspace_id = mx_workspace_id ctx, mse_old_agent = mx_old_agent ctx,
      mse_new_agent = ar_agent_type (mx_new_agent ctx), mse_reason = mx_reason ctx,
      mse_pre_migration_state = show_ws (mx_pre_migration_state ctx)\<rparr>"

definition completed_event :: "migration_context \<Rightarrow> u64 \<Rightarrow> migration_completed_event" where
  "completed_event ctx now_ms =
     \<lparr>mce_workspace_id = mx_workspace_id ctx, mce_old_agent = mx_old_agent ctx,
      mce_new_agent = ar_agent_type (mx_new_agent ctx),
      mce_duration_ms = saturating_sub now_ms (mx_started_at_ms ctx),
      mce_restored_state = show_ws (mx_pre_migration_state ctx)\<rparr>"

definition failed_event :: "migration_context \<Rightarrow> string \<Rightarrow> u32 \<Rightarrow> u64 \<Rightarrow> migration_failed_event" where
  "failed_event ctx error step now_ms =
     \<lparr>mfe_workspace_id = mx_workspace_id ctx, mfe_old_agent = mx_old_agent ctx,
      mfe_new_agent = ar_agent_type (mx_new_agent ctx), mfe_reason = mx_reason ctx, mfe_error = error,
      mfe_failed_at_step = step, mfe_duration_ms = saturating_sub now_ms (mx_started_at_ms ctx)\<rparr>"

section \<open>One migration of a workspace at a time\<close>

text \<open>The table is keyed by the workspace of the context, and every context started from a live state.\<close>

definition migration_inv :: "migration_coordinator \<Rightarrow> bool" where
  "migration_inv mg \<longleftrightarrow> hmap_ok (mg_active mg)
     \<and> (\<forall>k ctx. hget (mg_active mg) k = Some ctx
          \<longrightarrow> mx_workspace_id ctx = k \<and> mx_pre_migration_state ctx \<in> {WsActive, WsBlocked})"

datatype migration_op =
  MgStart migration_request workspace_state string u64
| MgSnapshot string migration_snapshot
| MgComplete string
| MgFail string string u32

datatype migration_answer = Started migration_context | Ended migration_context | Stored string migration_snapshot | Refused migration_error

fun migration_step :: "migration_op \<Rightarrow> migration_coordinator \<Rightarrow> migration_answer \<times> migration_coordinator" where
  "migration_step (MgStart r s old now) mg =
     (case migration_start r s old now mg of (Ok ctx, mg') \<Rightarrow> (Started ctx, mg') | (Err e, mg') \<Rightarrow> (Refused e, mg'))"
| "migration_step (MgSnapshot w sn) mg =
     (case set_snapshot w sn mg of (Ok _, mg') \<Rightarrow> (Stored w sn, mg') | (Err e, mg') \<Rightarrow> (Refused e, mg'))"
| "migration_step (MgComplete w) mg =
     (case migration_complete w mg of (Ok ctx, mg') \<Rightarrow> (Ended ctx, mg') | (Err e, mg') \<Rightarrow> (Refused e, mg'))"
| "migration_step (MgFail w er st) mg =
     (case migration_fail w er st mg of (Ok ctx, mg') \<Rightarrow> (Ended ctx, mg') | (Err e, mg') \<Rightarrow> (Refused e, mg'))"

primrec migration_run ::
  "migration_op list \<Rightarrow> migration_coordinator \<Rightarrow> migration_answer list \<times> migration_coordinator" where
  "migration_run [] mg = ([], mg)"
| "migration_run (op # ops) mg =
     (let (a, mg1) = migration_step op mg; (as, mg2) = migration_run ops mg1 in (a # as, mg2))"

text \<open>
  The answers about one workspace, read by an automaton: \<open>None\<close> when no migration is open, \<open>Some ctx\<close>
  while one is, with the context as it is stored.
\<close>

fun episode :: "string \<Rightarrow> migration_answer list \<Rightarrow> migration_context option \<Rightarrow> bool" where
  "episode w [] cur = True"
| "episode w (Started ctx # as) cur =
     (if mx_workspace_id ctx = w then cur = None \<and> mx_snapshot ctx = None \<and> episode w as (Some ctx)
      else episode w as cur)"
| "episode w (Stored v sn # as) cur =
     (if v = w then (case cur of
          None \<Rightarrow> False
        | Some ctx \<Rightarrow> mx_snapshot ctx = None \<and> episode w as (Some (ctx\<lparr>mx_snapshot := Some sn\<rparr>)))
      else episode w as cur)"
| "episode w (Ended ctx # as) cur =
     (if mx_workspace_id ctx = w then cur = Some ctx \<and> episode w as None else episode w as cur)"
| "episode w (Refused e # as) cur = episode w as cur"

lemmas migration_defs = migration_start_def set_snapshot_def migration_complete_def migration_fail_def

lemma migration_step_inv [keeps]: "migration_inv mg \<Longrightarrow> migration_inv (snd (migration_step op mg))"
  by (cases op) (auto simp: migration_inv_def migration_defs Let_def split: option.splits)

lemma migration_run_episode:
  "migration_inv mg \<Longrightarrow> episode w (fst (migration_run ops mg)) (hget (mg_active mg) w)
     \<and> migration_inv (snd (migration_run ops mg))"
proof (induction ops arbitrary: mg)
  case (Cons op ops)
  obtain a mg1 where s: "migration_step op mg = (a, mg1)" by fastforce
  have inv1: "migration_inv mg1" using migration_step_inv [OF Cons.prems, of op] s by simp
  have key: "\<And>k ctx. hget (mg_active mg) k = Some ctx \<Longrightarrow> mx_workspace_id ctx = k"
    using Cons.prems by (simp add: migration_inv_def)
  have "episode w (a # fst (migration_run ops mg1)) (hget (mg_active mg) w)"
    using s Cons.IH [OF inv1] key
    by (cases op) (auto simp: migration_defs Let_def hhas_def split: option.splits if_splits)
  then show ?case using s Cons.IH [OF inv1] by (simp add: split_beta)
qed simp

text \<open>Migrations of a workspace never overlap. In every run, from an empty table, the successful calls for a
  workspace are episodes: a start, at most one snapshot, and one end (completion or failure, not both)
  that returns the very context started, with the snapshot if one was stored.\<close>

theorem migration_episodes: "episode w (fst (migration_run ops (migration_new ms))) None"
proof -
  have "migration_inv (migration_new ms)" by (simp add: migration_inv_def migration_new_def)
  from migration_run_episode [OF this] show ?thesis by (simp add: migration_new_def)
qed

end
