(* ===== verification/Wacp_Integration.thy ===== *)
theory Wacp_Integration
  imports Wacp_Types
begin

text \<open>
  Integration of finished work (\<open>wacp-coordinator/src/integration.rs\<close>): the engine, the sequential
  queue, the decision pipeline, merge strategies with conflict detection, conflict resolution and
  salvage. A \<open>HashSet\<close> whose iteration order is observable is the duplicate-free list of its
  elements in that order.
\<close>

section \<open>The engine\<close>

record integration_request =
  ir_workspace_id :: workspace_id
  ir_strategy :: merge_strategy
  ir_mode :: integration_mode
  ir_checkpoint :: checkpoint

record conflict =
  cf_conflict_type :: conflict_type
  cf_description :: string
  cf_workspace_id :: workspace_id

datatype integration_result = IrSuccess | IrConflict "conflict list" | IrFailed string

datatype resolution_outcome = Resolved | Escalated | Reworked

record conflict_resolution =
  cr_conflict :: conflict
  cr_strategy :: resolution_strategy
  cr_outcome :: resolution_outcome

definition salvage :: "integration_request \<Rightarrow> integration_result" where
  "salvage request = IrSuccess"

definition integrate :: "integration_request \<Rightarrow> integration_result" where
  "integrate request =
     (case ir_mode request of
        Salvage \<Rightarrow> salvage request
      | NormalMode \<Rightarrow>
          (case ir_strategy request of
             Direct \<Rightarrow> IrSuccess | Layered \<Rightarrow> IrSuccess | Evaluated \<Rightarrow> IrSuccess))"

fun strategy_outcome :: "resolution_strategy \<Rightarrow> resolution_outcome" where
  "strategy_outcome CoordinatorResolve = Resolved"
| "strategy_outcome Escalate = Escalated"
| "strategy_outcome AgentRework = Reworked"

definition resolve_conflict :: "conflict \<Rightarrow> resolution_strategy \<Rightarrow> conflict_resolution" where
  "resolve_conflict cf st = \<lparr>cr_conflict = cf, cr_strategy = st, cr_outcome = strategy_outcome st\<rparr>"

definition detect_conflict :: "conflict_type \<Rightarrow> string \<Rightarrow> workspace_id \<Rightarrow> conflict" where
  "detect_conflict ct description wid =
     \<lparr>cf_conflict_type = ct, cf_description = description, cf_workspace_id = wid\<rparr>"

section \<open>The queue\<close>

record checkpoint_ref =
  cref_checkpoint_id :: checkpoint_id
  cref_content_hash :: string
  cref_intent :: string
  cref_confidence :: confidence

datatype integration_decision = Accept merge_strategy | Revise string | RejectWork string

record integration_queue =
  iq_pending :: "workspace_id list"
  iq_in_progress :: "workspace_id option"

definition queue_new :: integration_queue where
  "queue_new = \<lparr>iq_pending = [], iq_in_progress = None\<rparr>"

definition queue_push :: "workspace_id \<Rightarrow> integration_queue \<Rightarrow> integration_queue" where
  "queue_push wid q = q\<lparr>iq_pending := iq_pending q @ [wid]\<rparr>"

definition take_next :: "integration_queue \<Rightarrow> workspace_id option \<times> integration_queue" where
  "take_next q =
     (if iq_in_progress q \<noteq> None then (None, q)
      else case iq_pending q of
        [] \<Rightarrow> (None, q)
      | wid # rest \<Rightarrow> (Some wid, q\<lparr>iq_pending := rest, iq_in_progress := Some wid\<rparr>))"

definition queue_complete :: "integration_queue \<Rightarrow> integration_queue" where
  "queue_complete q = q\<lparr>iq_in_progress := None\<rparr>"

definition is_active :: "integration_queue \<Rightarrow> bool" where
  "is_active q = (iq_in_progress q \<noteq> None)"

definition queue_pending_count :: "integration_queue \<Rightarrow> nat" where
  "queue_pending_count q = length (iq_pending q)"

definition queue_current :: "integration_queue \<Rightarrow> workspace_id option" where
  "queue_current q = iq_in_progress q"

section \<open>Decisions\<close>

definition to_ref :: "checkpoint \<Rightarrow> checkpoint_ref" where
  "to_ref cp = \<lparr>cref_checkpoint_id = cp_id cp, cref_content_hash = cp_content_hash cp,
                cref_intent = cp_intent cp, cref_confidence = cp_confidence cp\<rparr>"

definition find_final_checkpoint :: "checkpoint list \<Rightarrow> checkpoint_ref option" where
  "find_final_checkpoint cps = map_option to_ref (rfind (\<lambda>c. cp_status c = Final) cps)"

fun select_strategy :: "confidence \<Rightarrow> merge_strategy" where
  "select_strategy High = Direct"
| "select_strategy Medium = Layered"
| "select_strategy Low = Evaluated"

definition decide :: "checkpoint_ref \<Rightarrow> integration_decision" where
  "decide cp =
     (if cref_confidence cp = Low
      then Revise ''Checkpoint confidence is low; please verify and resubmit''
      else Accept (select_strategy (cref_confidence cp)))"

section \<open>Merging\<close>

record merge_context =
  mc_source_id :: workspace_id
  mc_target_id :: workspace_id
  mc_source_resources :: "string list"
  mc_parent_resources :: "string list"
  mc_checkpoint :: checkpoint_ref

datatype merge_result = MergeSuccess | MergeConflicts "conflict list"

text \<open>\<open>HashSet::intersection\<close> iterates over the smaller of the two sets.\<close>

definition intersection :: "'a list \<Rightarrow> 'a list \<Rightarrow> 'a list" where
  "intersection xs ys =
     (if length xs \<le> length ys then filter (\<lambda>x. x \<in> set ys) xs else filter (\<lambda>y. y \<in> set xs) ys)"

definition quoted :: "string \<Rightarrow> string" where
  "quoted r = ''Resource '' @ [CHR 0x27] @ r @ [CHR 0x27]"

definition overlap :: "merge_context \<Rightarrow> string \<Rightarrow> string \<Rightarrow> conflict" where
  "overlap ctx what r =
     \<lparr>cf_conflict_type = ContentOverlap, cf_description = quoted r @ what, cf_workspace_id = mc_source_id ctx\<rparr>"

definition merge_direct :: "merge_context \<Rightarrow> merge_result" where
  "merge_direct ctx = MergeSuccess"

definition merge_layered :: "merge_context \<Rightarrow> merge_result" where
  "merge_layered ctx =
     (let overlapping = intersection (mc_source_resources ctx) (mc_parent_resources ctx)
      in if overlapping = [] then MergeSuccess
         else MergeConflicts (map (overlap ctx '' modified by both source and prior integration'') overlapping))"

definition merge_evaluated :: "merge_context \<Rightarrow> merge_result" where
  "merge_evaluated ctx =
     (let conflicts = map (overlap ctx '' modified by both'')
                        (intersection (mc_source_resources ctx) (mc_parent_resources ctx))
      in if conflicts = [] then MergeSuccess else MergeConflicts conflicts)"

definition merge_execute :: "merge_strategy \<Rightarrow> merge_context \<Rightarrow> merge_result" where
  "merge_execute st ctx =
     (case st of Direct \<Rightarrow> merge_direct ctx | Layered \<Rightarrow> merge_layered ctx | Evaluated \<Rightarrow> merge_evaluated ctx)"

section \<open>Resolving conflicts\<close>

datatype resolution_result =
  AllResolved "conflict_resolution list" | Pending "conflict_resolution list" | Rework "conflict_resolution list"

fun resolver_strategy :: "conflict_type \<Rightarrow> resolution_strategy" where
  "resolver_strategy ContentOverlap = CoordinatorResolve"
| "resolver_strategy SemanticContradiction = Escalate"
| "resolver_strategy DependencyViolation = AgentRework"
| "resolver_strategy ConstraintBreach = Escalate"

definition resolve_one :: "conflict \<Rightarrow> resolution_strategy \<Rightarrow> conflict_resolution" where
  "resolve_one cf st = \<lparr>cr_conflict = cf, cr_strategy = st, cr_outcome = strategy_outcome st\<rparr>"

primrec resolve_loop :: "conflict list \<Rightarrow> conflict_resolution list \<Rightarrow> resolution_result" where
  "resolve_loop [] resolutions = AllResolved resolutions"
| "resolve_loop (cf # cfs) resolutions =
     (let st = resolver_strategy (cf_conflict_type cf);
          resolutions' = resolutions @ [resolve_one cf st]
      in case st of
           CoordinatorResolve \<Rightarrow> resolve_loop cfs resolutions'
         | Escalate \<Rightarrow> Pending resolutions'
         | AgentRework \<Rightarrow> Rework resolutions')"

definition resolve_all :: "conflict list \<Rightarrow> resolution_result" where
  "resolve_all conflicts = resolve_loop conflicts []"

section \<open>Salvage\<close>

definition select_checkpoint :: "checkpoint list \<Rightarrow> checkpoint_ref option" where
  "select_checkpoint cps =
     (case rfind (\<lambda>c. cp_status c = Final) cps of
        Some cp \<Rightarrow> Some (to_ref cp)
      | None \<Rightarrow> (if cps = [] then None else Some (to_ref (last cps))))"

definition salvage_execute :: "merge_context \<Rightarrow> merge_result" where
  "salvage_execute ctx = merge_evaluated ctx"

definition apply_confidence_guardrail :: "checkpoint_ref \<Rightarrow> checkpoint_ref" where
  "apply_confidence_guardrail cp = cp\<lparr>cref_confidence := Low\<rparr>"

definition is_applicable :: "checkpoint list \<Rightarrow> bool" where
  "is_applicable cps = (cps \<noteq> [])"

section \<open>One workspace at a time, in the order of arrival\<close>

datatype queue_op = QPush workspace_id | QTake | QComplete

fun queue_step :: "queue_op \<Rightarrow> integration_queue \<Rightarrow> workspace_id option \<times> integration_queue" where
  "queue_step (QPush w) q = (None, queue_push w q)"
| "queue_step QTake q = take_next q"
| "queue_step QComplete q = (None, queue_complete q)"

primrec queue_run :: "queue_op list \<Rightarrow> integration_queue \<Rightarrow> workspace_id option list \<times> integration_queue" where
  "queue_run [] q = ([], q)"
| "queue_run (op # ops) q =
     (let (out, q1) = queue_step op q; (outs, q2) = queue_run ops q1 in (out # outs, q2))"

definition pushed :: "queue_op list \<Rightarrow> workspace_id list" where
  "pushed ops = List.map_filter (\<lambda>op. case op of QPush w \<Rightarrow> Some w | _ \<Rightarrow> None) ops"

definition taken :: "workspace_id option list \<Rightarrow> workspace_id list" where
  "taken outs = List.map_filter (\<lambda>x. x) outs"

text \<open>Between two answers there is a completion: the run never has two integrations open.\<close>

fun exclusive :: "bool \<Rightarrow> queue_op list \<Rightarrow> workspace_id option list \<Rightarrow> bool" where
  "exclusive busy (op # ops) (Some w # outs) = (\<not> busy \<and> exclusive True ops outs)"
| "exclusive busy (op # ops) (None # outs) = exclusive (busy \<and> op \<noteq> QComplete) ops outs"
| "exclusive busy _ _ = True"

lemma queue_run_from:
  "queue_run ops q = (outs, q') \<Longrightarrow>
     iq_pending q @ pushed ops = taken outs @ iq_pending q'
     \<and> exclusive (iq_in_progress q \<noteq> None) ops outs"
proof (induction ops arbitrary: q outs)
  case Nil
  then show ?case by (simp add: pushed_def taken_def List.map_filter_simps)
next
  case (Cons op ops)
  obtain out q1 where s: "queue_step op q = (out, q1)" by fastforce
  obtain outs' where r: "queue_run ops q1 = (outs', q')" "outs = out # outs'"
    using Cons.prems s by (auto split: prod.splits)
  from Cons.IH [OF r(1)] s show ?case
    by (cases op) (auto simp: r(2) pushed_def taken_def List.map_filter_simps queue_push_def queue_complete_def
        take_next_def split: list.splits if_splits)
qed

text \<open>The integration queue is fair and exclusive: in every run the workspaces handed out are, in order,
  the ones pushed first; none is lost or handed out twice; and a second one is never handed out before
  the first is completed.\<close>

theorem integration_queue_fair:
  assumes "queue_run ops queue_new = (outs, q)"
  shows "pushed ops = taken outs @ iq_pending q \<and> exclusive False ops outs"
  using queue_run_from [OF assms] by (simp add: queue_new_def)

theorem integration_queue_fair_witness:
  "exclusive False [QPush ''a'', QPush ''b'', QTake, QTake, QComplete, QTake]
     [None, None, Some ''a'', None, None, Some ''b'']"
proof -
  have "queue_run [QPush ''a'', QPush ''b'', QTake, QTake, QComplete, QTake] queue_new
      = ([None, None, Some ''a'', None, None, Some ''b''], \<lparr>iq_pending = [], iq_in_progress = Some ''b''\<rparr>)"
    by (simp add: queue_new_def queue_push_def take_next_def queue_complete_def)
  from integration_queue_fair [OF this] show ?thesis by blast
qed

section \<open>Merge and resolution together\<close>

lemma set_intersection: "set (intersection xs ys) = set xs \<inter> set ys"
  by (auto simp: intersection_def)

lemma resolve_loop_overlaps:
  "\<forall>cf \<in> set cfs. cf_conflict_type cf = ContentOverlap \<Longrightarrow>
     resolve_loop cfs acc = AllResolved (acc @ map (\<lambda>cf. resolve_one cf CoordinatorResolve) cfs)"
  by (induction cfs arbitrary: acc) auto

lemma merge_conflicts_overlap:
  "merge_execute st ctx = MergeConflicts cfs \<Longrightarrow> \<forall>cf \<in> set cfs. cf_conflict_type cf = ContentOverlap"
  by (auto simp: merge_execute_def merge_direct_def merge_layered_def merge_evaluated_def Let_def overlap_def
      split: merge_strategy.splits if_splits)

text \<open>What \<open>resolve_all\<close> promises: the conflicts before the first one that needs an escalation or rework are
  resolved, that one is handled and decides the result, and the ones after it are left alone.\<close>

definition resolve_spec :: "conflict list \<Rightarrow> resolution_result" where
  "resolve_spec cfs =
     (let auto = takeWhile (\<lambda>cf. cf_conflict_type cf = ContentOverlap) cfs;
          handled = map (\<lambda>cf. resolve_one cf (resolver_strategy (cf_conflict_type cf)))
      in case drop (length auto) cfs of
           [] \<Rightarrow> AllResolved (handled cfs)
         | cf # _ \<Rightarrow> if cf_conflict_type cf = DependencyViolation then Rework (handled (auto @ [cf]))
                    else Pending (handled (auto @ [cf])))"

lemma resolve_loop_spec:
  "resolve_loop cfs acc =
     (case resolve_spec cfs of AllResolved rs \<Rightarrow> AllResolved (acc @ rs) | Pending rs \<Rightarrow> Pending (acc @ rs)
        | Rework rs \<Rightarrow> Rework (acc @ rs))"
proof (induction cfs arbitrary: acc)
  case Nil
  then show ?case by (simp add: resolve_spec_def)
next
  case (Cons cf cfs)
  show ?case
  proof (cases "cf_conflict_type cf")
    case ContentOverlap
    then show ?thesis
      using Cons.IH by (auto simp: resolve_spec_def Let_def split: list.splits if_splits)
  qed (simp_all add: resolve_spec_def)
qed

text \<open>C22. Conflicts are detected and resolved as promised. A merge succeeds exactly when the strategy is direct
  or no resource was changed on both sides; otherwise it reports exactly one conflict per such
  resource, all of which the resolver settles without escalation. On arbitrary conflicts the resolver
  stops at the first one that needs a human or a rework, and this one decides the result.\<close>

theorem merge_and_resolve:
  assumes "distinct (mc_source_resources ctx)" "distinct (mc_parent_resources ctx)"
  shows "(merge_execute st ctx = MergeSuccess
            \<longleftrightarrow> st = Direct \<or> set (mc_source_resources ctx) \<inter> set (mc_parent_resources ctx) = {})
    \<and> (\<forall>cfs. merge_execute st ctx = MergeConflicts cfs
          \<longrightarrow> length cfs = card (set (mc_source_resources ctx) \<inter> set (mc_parent_resources ctx))
            \<and> resolve_all cfs = AllResolved (map (\<lambda>cf. resolve_one cf CoordinatorResolve) cfs))
    \<and> resolve_all cs = resolve_spec cs"
proof (intro conjI allI impI)
  show "merge_execute st ctx = MergeSuccess
            \<longleftrightarrow> st = Direct \<or> set (mc_source_resources ctx) \<inter> set (mc_parent_resources ctx) = {}"
    using set_intersection [of "mc_source_resources ctx" "mc_parent_resources ctx"]
    by (cases st) (auto simp: merge_execute_def merge_direct_def merge_layered_def merge_evaluated_def Let_def)
next
  fix cfs assume m: "merge_execute st ctx = MergeConflicts cfs"
  have "distinct (intersection (mc_source_resources ctx) (mc_parent_resources ctx))"
    using assms by (simp add: intersection_def)
  from distinct_card [OF this] m
  show "length cfs = card (set (mc_source_resources ctx) \<inter> set (mc_parent_resources ctx))"
    by (auto simp: set_intersection merge_execute_def merge_direct_def merge_layered_def merge_evaluated_def Let_def
        split: merge_strategy.splits if_splits)
  show "resolve_all cfs = AllResolved (map (\<lambda>cf. resolve_one cf CoordinatorResolve) cfs)"
    using resolve_loop_overlaps [OF merge_conflicts_overlap [OF m]] by (simp add: resolve_all_def)
next
  show "resolve_all cs = resolve_spec cs"
    unfolding resolve_all_def resolve_loop_spec by (simp split: resolution_result.splits)
qed

definition sample_merge :: merge_context where
  "sample_merge = \<lparr>mc_source_id = ''w'', mc_target_id = ''root'', mc_source_resources = [''a'', ''b''],
     mc_parent_resources = [''b'', ''c'', ''d''],
     mc_checkpoint = \<lparr>cref_checkpoint_id = ''cp'', cref_content_hash = '''', cref_intent = '''', cref_confidence = Medium\<rparr>\<rparr>"

theorem merge_and_resolve_witness:
  "\<exists>cfs. merge_execute Layered sample_merge = MergeConflicts cfs \<and> length cfs = 1"
proof -
  have d: "distinct (mc_source_resources sample_merge)" "distinct (mc_parent_resources sample_merge)"
    and i: "set (mc_source_resources sample_merge) \<inter> set (mc_parent_resources sample_merge) = {''b''}"
    by (auto simp: sample_merge_def)
  from merge_and_resolve [OF d, of Layered "[]"] i show ?thesis
    by (cases "merge_execute Layered sample_merge") auto
qed

text \<open>Salvage finds a checkpoint whenever it is applicable, and takes the one the pipeline would take.\<close>

lemma salvage_selects:
  "is_applicable cps \<longleftrightarrow> select_checkpoint cps \<noteq> None"
  "find_final_checkpoint cps = Some r \<Longrightarrow> select_checkpoint cps = Some r"
  by (auto simp: is_applicable_def select_checkpoint_def find_final_checkpoint_def rfind_def split: option.splits)

end
