(* ===== verification/Wacp_Handler.thy ===== *)
theory Wacp_Handler
  imports Wacp_Topology Wacp_Task_Graph Wacp_Gate Wacp_Resource
    Wacp_Migration Wacp_Integration
begin

unbundle bit_operations_syntax

text \<open>
  The request handler of the coordinator (\<open>wacp-coordinator/src/handler.rs\<close>), which serves agents and
  the human highway from the coordinator's state, and the event bus (\<open>events.rs\<close>).
\<close>

section \<open>Requests and results\<close>

record bind_result =
  br_workspace_id :: workspace_id
  br_state :: workspace_state
  br_role :: string
  br_owner :: user_id
  br_originator :: originator
  br_parent :: "workspace_id option"
  br_task_id :: "task_id option"

record send_envelope_result =
  se_envelope_id :: envelope_id

record emit_signal_result =
  es_accepted :: bool

record create_checkpoint_result =
  cc_checkpoint_id :: checkpoint_id
  cc_content_hash :: string

record workspace_view =
  wv_id :: workspace_id
  wv_state :: workspace_state
  wv_parent :: "workspace_id option"
  wv_owner :: user_id
  wv_originator :: originator
  wv_task_id :: "task_id option"

record task_view =
  tv_id :: task_id
  tv_name :: string
  tv_status :: task_status
  tv_workspace_ref :: "workspace_id option"
  tv_depends_on :: "task_id list"
  tv_parent_task :: "task_id option"

datatype handler_error =
  HeWorkspaceNotFound workspace_id | HeTaskNotFound task_id | HePermissionDenied string
| HeNoSendRight workspace_id | HeGateNotFound

record request_handler =
  rh_topology :: topology_set
  rh_task_graph :: task_graph
  rh_gate_controller :: gate_controller
  rh_integration_queue :: integration_queue
  rh_timeout_tracker :: timeout_tracker
  rh_liveness_monitor :: liveness_monitor
  rh_migration :: migration_coordinator
  rh_next_envelope_id :: u64
  rh_next_checkpoint_id :: u64

section \<open>The content hash\<close>

text \<open>The 64-bit FNV hash, and \<open>format!("{:x}", n)\<close>.\<close>

definition hash_byte :: "u64 \<Rightarrow> u8 \<Rightarrow> u64" where
  "hash_byte h b = (h XOR ucast b) * 1099511628211"

definition md5_like_hash :: "bytes \<Rightarrow> u64" where
  "md5_like_hash data = foldl hash_byte 14695981039346656037 data"

fun show_hex :: "nat \<Rightarrow> string" where
  "show_hex n = (if n < 16 then [hex_char n] else show_hex (n div 16) @ [hex_char (n mod 16)])"

declare show_hex.simps [simp del]

section \<open>Handlers\<close>

definition handle_bind :: "request_handler \<Rightarrow> workspace_id \<Rightarrow> string option \<Rightarrow> (bind_result, handler_error) result" where
  "handle_bind h wid agent_identity =
     (case tree_get (ts_tree (rh_topology h)) wid of
        None \<Rightarrow> Err (HeWorkspaceNotFound wid)
      | Some node \<Rightarrow>
          let denied = (n_status node = WsMigrating
                \<and> (case expected_agent (rh_migration h) wid of
                     None \<Rightarrow> False
                   | Some expected \<Rightarrow> (case agent_identity of
                       None \<Rightarrow> True | Some identity \<Rightarrow> identity \<noteq> ar_agent_type expected)))
          in if denied then Err (HePermissionDenied ''migration: agent identity mismatch'')
             else Ok \<lparr>br_workspace_id = n_id node, br_state = n_status node, br_role = [], br_owner = n_owner node,
                      br_originator = n_originator node, br_parent = n_parent node, br_task_id = n_task_id node\<rparr>)"

definition handle_send_envelope ::
  "workspace_id \<Rightarrow> workspace_id \<Rightarrow> request_handler \<Rightarrow> (send_envelope_result, handler_error) result \<times> request_handler" where
  "handle_send_envelope from_ws to_ws h =
     (if tree_get (ts_tree (rh_topology h)) from_ws = None then (Err (HeWorkspaceNotFound from_ws), h)
      else if tree_get (ts_tree (rh_topology h)) to_ws = None then (Err (HeWorkspaceNotFound to_ws), h)
      else case validate_send (ts_port_rights (rh_topology h)) from_ws to_ws of
        Err e \<Rightarrow> (Err (HeNoSendRight to_ws), h)
      | Ok rid \<Rightarrow> (Ok \<lparr>se_envelope_id = mk_id ''env-'' (rh_next_envelope_id h)\<rparr>,
                    h\<lparr>rh_next_envelope_id := rh_next_envelope_id h + 1\<rparr>))"

definition handle_emit_signal ::
  "request_handler \<Rightarrow> workspace_id \<Rightarrow> signal_type \<Rightarrow> string option \<Rightarrow> (emit_signal_result, handler_error) result" where
  "handle_emit_signal h wid st reason =
     (if tree_get (ts_tree (rh_topology h)) wid = None then Err (HeWorkspaceNotFound wid)
      else Ok \<lparr>es_accepted = True\<rparr>)"

definition handle_create_checkpoint_req ::
  "workspace_id \<Rightarrow> bytes \<Rightarrow> request_handler \<Rightarrow> (create_checkpoint_result, handler_error) result \<times> request_handler" where
  "handle_create_checkpoint_req wid payload h =
     (if tree_get (ts_tree (rh_topology h)) wid = None then (Err (HeWorkspaceNotFound wid), h)
      else (Ok \<lparr>cc_checkpoint_id = mk_id ''cp-'' (rh_next_checkpoint_id h),
                cc_content_hash = show_hex (unat (md5_like_hash payload))\<rparr>,
            h\<lparr>rh_next_checkpoint_id := rh_next_checkpoint_id h + 1\<rparr>))"

definition handle_get_workspace :: "request_handler \<Rightarrow> workspace_id \<Rightarrow> (workspace_view, handler_error) result" where
  "handle_get_workspace h wid =
     (case tree_get (ts_tree (rh_topology h)) wid of
        None \<Rightarrow> Err (HeWorkspaceNotFound wid)
      | Some node \<Rightarrow>
          Ok \<lparr>wv_id = n_id node, wv_state = n_status node, wv_parent = n_parent node, wv_owner = n_owner node,
              wv_originator = n_originator node, wv_task_id = n_task_id node\<rparr>)"

definition view_of :: "task \<Rightarrow> task_view" where
  "view_of task =
     \<lparr>tv_id = t_id task, tv_name = t_name task, tv_status = t_status task, tv_workspace_ref = t_workspace_ref task,
      tv_depends_on = t_depends_on task, tv_parent_task = t_parent_task task\<rparr>"

text \<open>Breadth-first search with a set of ids already seen; every task is expanded once.\<close>

function view_loop :: "task_graph \<Rightarrow> task_id list \<Rightarrow> string set \<Rightarrow> task_view list \<Rightarrow> task_view list" where
  "view_loop g [] seen tasks = tasks"
| "view_loop g (tid # queue) seen tasks =
     (if tid \<in> seen then view_loop g queue seen tasks
      else case graph_get g tid of
        None \<Rightarrow> view_loop g queue (insert tid seen) tasks
      | Some task \<Rightarrow> view_loop g (queue @ dependents g tid) (insert tid seen) (tasks @ [view_of task]))"
  by pat_completeness auto

termination
proof (relation "inv_image (finite_psubset <*lex*> less_than) (\<lambda>(g, queue, seen, tasks). (fst ` set (tg_tasks g) - seen, length queue))")
  fix g tid queue seen tasks task
  assume "tid \<notin> seen" "graph_get g tid = Some task"
  then have "tid \<in> fst ` set (tg_tasks g) - seen"
    using hget_None_iff [of "tg_tasks g" tid] by (simp add: graph_get_def)
  then show "((g, queue @ dependents g tid, insert tid seen, tasks @ [view_of task]), g, tid # queue, seen, tasks)
    \<in> inv_image (finite_psubset <*lex*> less_than) (\<lambda>(g, queue, seen, tasks). (fst ` set (tg_tasks g) - seen, length queue))"
    by (auto simp: finite_psubset_def)
next
  fix g tid queue seen tasks
  assume "tid \<notin> seen" "graph_get g tid = None"
  then have "fst ` set (tg_tasks g) - insert tid seen = fst ` set (tg_tasks g) - seen"
    by (auto simp: graph_get_def hget_None_iff)
  then show "((g, queue, insert tid seen, tasks), g, tid # queue, seen, tasks)
    \<in> inv_image (finite_psubset <*lex*> less_than) (\<lambda>(g, queue, seen, tasks). (fst ` set (tg_tasks g) - seen, length queue))"
    by simp
qed auto

definition handle_get_task_graph :: "request_handler \<Rightarrow> task_view list" where
  "handle_get_task_graph h = view_loop (rh_task_graph h) (roots (rh_task_graph h)) {} []"

definition handle_inject_envelope ::
  "workspace_id \<Rightarrow> request_handler \<Rightarrow> (send_envelope_result, handler_error) result \<times> request_handler" where
  "handle_inject_envelope to_ws h =
     (if tree_get (ts_tree (rh_topology h)) to_ws = None then (Err (HeWorkspaceNotFound to_ws), h)
      else (Ok \<lparr>se_envelope_id = mk_id ''env-'' (rh_next_envelope_id h)\<rparr>,
            h\<lparr>rh_next_envelope_id := rh_next_envelope_id h + 1\<rparr>))"

definition handle_gate_response ::
  "gate_id \<Rightarrow> gate_decision \<Rightarrow> request_handler \<Rightarrow> (gate_resolution option, handler_error) result \<times> request_handler" where
  "handle_gate_response gid decision h =
     (let (r, gc) = resolve_gate gid decision (rh_gate_controller h) in (Ok r, h\<lparr>rh_gate_controller := gc\<rparr>))"

section \<open>The event bus\<close>

record escalation_event =
  ev_escalation_id :: string
  ev_workspace_id :: workspace_id
  ev_owner :: user_id
  ev_context :: bytes
  ev_created_at :: u64

datatype coordinator_event =
  TrailEntryEvent "workspace_id option" string u64
| GateOpened gate_event
| EscalationRaised escalation_event
| WorkspaceStateChanged workspace_id workspace_state workspace_state
| TaskStatusChanged task_id task_status task_status

text \<open>A subscriber is an opaque callback; \<open>emit\<close> returns the calls it makes, in order.\<close>

record 'c event_bus =
  eb_subscribers :: "'c list"
  eb_buffer :: "coordinator_event list"
  eb_buffering :: bool

definition bus_new :: "bool \<Rightarrow> 'c event_bus" where
  "bus_new buffering = \<lparr>eb_subscribers = [], eb_buffer = [], eb_buffering = buffering\<rparr>"

definition subscribe :: "'c \<Rightarrow> 'c event_bus \<Rightarrow> 'c event_bus" where
  "subscribe callback b = b\<lparr>eb_subscribers := eb_subscribers b @ [callback]\<rparr>"

definition emit :: "coordinator_event \<Rightarrow> 'c event_bus \<Rightarrow> ('c \<times> coordinator_event) list \<times> 'c event_bus" where
  "emit event b =
     (map (\<lambda>c. (c, event)) (eb_subscribers b),
      if eb_buffering b then b\<lparr>eb_buffer := eb_buffer b @ [event]\<rparr> else b)"

definition drain :: "'c event_bus \<Rightarrow> coordinator_event list \<times> 'c event_bus" where
  "drain b = (eb_buffer b, b\<lparr>eb_buffer := []\<rparr>)"

definition buffered_count :: "'c event_bus \<Rightarrow> nat" where
  "buffered_count b = length (eb_buffer b)"

definition subscriber_count :: "'c event_bus \<Rightarrow> nat" where
  "subscriber_count b = length (eb_subscribers b)"

section \<open>The hash detects a changed byte\<close>

lemma odd_mult_inject:
  assumes "x * 1099511628211 = y * (1099511628211 :: u64)"
  shows "x = y"
proof -
  have unit: "1099511628211 * 14886173955864302971 = (1 :: u64)" by simp
  have "x = x * (1099511628211 * 14886173955864302971)" by (simp only: unit mult_1_right)
  also have "\<dots> = y * (1099511628211 * 14886173955864302971)"
    using assms by (simp only: mult.assoc [symmetric])
  finally show ?thesis by (simp only: unit mult_1_right)
qed

lemma xor_cancel: "a XOR b = a XOR c \<Longrightarrow> b = (c :: u64)"
proof -
  assume "a XOR b = a XOR c"
  then have "a XOR (a XOR b) = a XOR (a XOR c)" by simp
  then show ?thesis by (simp add: xor.assoc [symmetric])
qed

lemma hash_byte_inject:
  "hash_byte h b = hash_byte h' b \<Longrightarrow> h = h'" "hash_byte h b = hash_byte h b' \<Longrightarrow> b = b'"
proof -
  assume "hash_byte h b = hash_byte h' b"
  then have "h XOR ucast b = h' XOR ucast b" unfolding hash_byte_def by (rule odd_mult_inject)
  then have "ucast b XOR h = ucast b XOR h'" by (simp only: xor.commute)
  then show "h = h'" by (rule xor_cancel)
next
  assume "hash_byte h b = hash_byte h b'"
  then have "h XOR ucast b = h XOR ucast b'" unfolding hash_byte_def by (rule odd_mult_inject)
  then have eq: "(ucast b :: u64) = ucast b'" by (rule xor_cancel)
  have "unat (ucast x :: u64) = unat x" for x :: u8
  proof -
    have "unat x < 2 ^ 8" using unat_bound [of x] by simp
    then have "take_bit 64 (unat x) = unat x" by (intro take_bit_nat_eq_self) simp
    then show ?thesis by (simp add: unsigned_ucast_eq)
  qed
  with arg_cong [OF eq, of unat] show "b = b'" by (simp add: word_unat_eq_iff)
qed

lemma foldl_hash_inject: "foldl hash_byte h ys = foldl hash_byte h' ys \<Longrightarrow> h = h'"
  by (induction ys arbitrary: h h') (auto dest: hash_byte_inject(1))

definition read_hex :: "string \<Rightarrow> nat" where
  "read_hex s = foldl (\<lambda>acc c. 16 * acc + (if of_char c < (58 :: nat) then of_char c - 48 else of_char c - 87)) 0 s"

lemma read_show_hex: "read_hex (show_hex n) = n"
proof (induction n rule: show_hex.induct)
  case (1 n)
  have d: "(if of_char (hex_char d) < (58 :: nat) then of_char (hex_char d) - 48 else of_char (hex_char d) - 87) = d"
    if "d < 16" for d
    using that by (simp add: hex_char_def of_char_of)
  show ?case
  proof (cases "n < 16")
    case True
    then show ?thesis using d [of n] by (simp add: show_hex.simps [of n] read_hex_def)
  next
    case False
    with 1 have "read_hex (show_hex (n div 16)) = n div 16" by simp
    with False d [of "n mod 16"] show ?thesis by (simp add: show_hex.simps [of n] read_hex_def)
  qed
qed

text \<open>C24. The content hash of a checkpoint detects a change of one byte: two payloads that differ in exactly one
  byte, at any place, get different hashes (as printed).\<close>

theorem content_hash_detects_change:
  assumes "b \<noteq> b'"
    and "handle_create_checkpoint_req wid (xs @ b # ys) h = (Ok r, h1)"
    and "handle_create_checkpoint_req wid (xs @ b' # ys) h' = (Ok r', h1')"
  shows "cc_content_hash r \<noteq> cc_content_hash r'"
proof -
  have "md5_like_hash (xs @ b # ys) \<noteq> md5_like_hash (xs @ b' # ys)"
    using assms(1) by (auto simp: md5_like_hash_def dest!: foldl_hash_inject hash_byte_inject(2))
  then have "show_hex (unat (md5_like_hash (xs @ b # ys))) \<noteq> show_hex (unat (md5_like_hash (xs @ b' # ys)))"
    using read_show_hex by (metis word_unat_eq_iff)
  then show ?thesis using assms(2,3) by (auto simp: handle_create_checkpoint_req_def split: if_splits)
qed

section \<open>The task view\<close>

abbreviation dep_reach :: "task_graph \<Rightarrow> task_id \<Rightarrow> task_id \<Rightarrow> bool" where
  "dep_reach g \<equiv> (\<lambda>x y. y \<in> set (dependents g x))\<^sup>*\<^sup>*"

text \<open>
  What the search maintains for the start ids \<open>rs\<close>: everything queued or seen is reached from them, the
  dependents of what is seen are queued or seen, and the views collected are those of the tasks seen.
\<close>

definition searched :: "task_graph \<Rightarrow> task_id list \<Rightarrow> task_id list \<Rightarrow> string set \<Rightarrow> task_view list \<Rightarrow> bool" where
  "searched g rs queue seen tasks \<longleftrightarrow>
     (\<forall>x \<in> set queue \<union> seen. \<exists>r \<in> set rs. dep_reach g r x)
     \<and> set rs \<subseteq> set queue \<union> seen
     \<and> (\<forall>x \<in> seen. set (dependents g x) \<subseteq> set queue \<union> seen)
     \<and> distinct (map tv_id tasks) \<and> (\<forall>v \<in> set tasks. tv_id v \<in> seen)
     \<and> (\<forall>v. v \<in> set tasks \<longleftrightarrow> (\<exists>x t. x \<in> seen \<and> graph_get g x = Some t \<and> v = view_of t))"

lemma searched_done:
  assumes "searched g rs [] seen tasks"
  shows "seen = {x. \<exists>r \<in> set rs. dep_reach g r x}"
proof -
  have step: "y \<in> seen" if "x \<in> seen" "y \<in> set (dependents g x)" for x y
    using assms that unfolding searched_def by auto
  have "dep_reach g r x \<Longrightarrow> r \<in> seen \<Longrightarrow> x \<in> seen" for r x
    by (induction rule: rtranclp_induct) (auto intro: step)
  then show ?thesis using assms unfolding searched_def by auto
qed

lemma unknown_no_dependents:
  assumes "edges_ok g" "graph_get g tid = None"
  shows "dependents g tid = []"
proof (rule ccontr)
  assume "dependents g tid \<noteq> []"
  then obtain k where "k \<in> set (hlist (tg_forward g) tid)" unfolding dependents_def by (meson last_in_set)
  then have "count_list (hlist (tg_forward g) tid) k \<noteq> 0" by (simp add: count_list_0_iff)
  then have "count_list (deps_of g k) tid \<noteq> 0" using assms(1) by (simp add: edges_ok_def)
  then have "tid \<in> set (deps_of g k)" by (simp add: count_list_0_iff)
  then have "hhas (tg_tasks g) tid" using assms(1) unfolding edges_ok_def by blast
  then show False using assms(2) by (simp add: hhas_def graph_get_def)
qed

lemma searched_skip: "searched g rs (x # q) seen tasks \<Longrightarrow> x \<in> seen \<Longrightarrow> searched g rs q seen tasks"
  unfolding searched_def by (simp add: insert_absorb Un_insert_left)

lemma searched_unknown:
  assumes s: "searched g rs (x # q) seen tasks" and x: "dependents g x = []" "graph_get g x = None"
  shows "searched g rs q (insert x seen) tasks"
proof -
  have "v \<in> set tasks \<longleftrightarrow> (\<exists>y t. y \<in> insert x seen \<and> graph_get g y = Some t \<and> v = view_of t)" for v
    using s x(2) unfolding searched_def by (metis insert_iff option.distinct(1))
  moreover have "\<forall>v \<in> set tasks. tv_id v \<in> insert x seen" using s unfolding searched_def by blast
  ultimately show ?thesis using s x(1) unfolding searched_def by (simp add: insert_commute)
qed

lemma searched_visit:
  assumes s: "searched g rs (x # q) seen tasks" and x: "x \<notin> seen" and t: "graph_get g x = Some t" "t_id t = x"
  shows "searched g rs (q @ dependents g x) (insert x seen) (tasks @ [view_of t])"
proof -
  obtain r where r: "r \<in> set rs" "dep_reach g r x" using s unfolding searched_def by auto
  have "dep_reach g r y" if "y \<in> set (dependents g x)" for y
    using r(2) that by (rule rtranclp.rtrancl_into_rtrancl)
  then have "\<forall>y \<in> set (q @ dependents g x) \<union> insert x seen. \<exists>r \<in> set rs. dep_reach g r y"
    using s r unfolding searched_def by auto
  moreover have vt: "tv_id (view_of t) = x" using t(2) by (simp add: view_of_def)
  moreover have old: "\<forall>v \<in> set tasks. tv_id v \<in> seen" using s unfolding searched_def by blast
  then have "distinct (map tv_id (tasks @ [view_of t]))" using s x vt unfolding searched_def by auto
  moreover have "\<forall>v \<in> set (tasks @ [view_of t]). tv_id v \<in> insert x seen" using old vt by auto
  moreover have "v \<in> set (tasks @ [view_of t]) \<longleftrightarrow> (\<exists>y u. y \<in> insert x seen \<and> graph_get g y = Some u \<and> v = view_of u)" for v
  proof -
    have "v \<in> set tasks \<longleftrightarrow> (\<exists>y u. y \<in> seen \<and> graph_get g y = Some u \<and> v = view_of u)"
      using s unfolding searched_def by blast
    then show ?thesis using t(1) by auto
  qed
  moreover have "set rs \<subseteq> set (q @ dependents g x) \<union> insert x seen"
    "\<forall>y \<in> insert x seen. set (dependents g y) \<subseteq> set (q @ dependents g x) \<union> insert x seen"
    using s unfolding searched_def by auto
  ultimately show ?thesis unfolding searched_def by blast
qed

lemma view_loop_spec:
  "edges_ok g \<Longrightarrow> searched g rs queue seen tasks \<Longrightarrow> \<exists>seen'. searched g rs [] seen' (view_loop g queue seen tasks)"
proof (induction g queue seen tasks rule: view_loop.induct)
  case (2 g tid queue seen tasks)
  show ?case
  proof (cases "tid \<in> seen")
    case True
    then show ?thesis using 2(1) [OF True 2(4)] searched_skip [OF 2(5) True] by simp
  next
    case False
    show ?thesis
    proof (cases "graph_get g tid")
      case None
      have "searched g rs queue (insert tid seen) tasks"
        using searched_unknown [OF 2(5) unknown_no_dependents [OF 2(4) None] None] .
      then show ?thesis using 2(2) [OF False None 2(4)] False None by simp
    next
      case (Some t)
      have "t_id t = tid" using 2(4) Some unfolding edges_ok_def graph_get_def by blast
      note searched_visit [OF 2(5) False Some this]
      then show ?thesis using 2(3) [OF False Some 2(4)] False Some by simp
    qed
  qed
qed auto

text \<open>The task graph query shows each task once that a root task reaches over dependent edges (a root has
  no parent task), and no other: a subtask none of them reaches is not shown.\<close>

theorem task_view_exact:
  assumes "graph_inv (rh_task_graph h)"
  shows "distinct (map tv_id (handle_get_task_graph h))
    \<and> (\<forall>v. v \<in> set (handle_get_task_graph h) \<longleftrightarrow> (\<exists>x t r. graph_get (rh_task_graph h) x = Some t
         \<and> r \<in> set (roots (rh_task_graph h)) \<and> dep_reach (rh_task_graph h) r x \<and> v = view_of t))"
proof -
  let ?g = "rh_task_graph h"
  have e: "edges_ok ?g" using assms by (simp add: graph_inv_def)
  have "searched ?g (roots ?g) (roots ?g) {} []" unfolding searched_def by auto
  from view_loop_spec [OF e this] obtain seen where
    s: "searched ?g (roots ?g) [] seen (handle_get_task_graph h)" unfolding handle_get_task_graph_def by blast
  then have "distinct (map tv_id (handle_get_task_graph h))"
    and m: "v \<in> set (handle_get_task_graph h) \<longleftrightarrow> (\<exists>x t. x \<in> seen \<and> graph_get ?g x = Some t \<and> v = view_of t)" for v
    unfolding searched_def by blast+
  moreover have "x \<in> seen \<longleftrightarrow> (\<exists>r \<in> set (roots ?g). dep_reach ?g r x)" for x using searched_done [OF s] by simp
  ultimately show ?thesis by blast
qed

section \<open>Guards\<close>


text \<open>While a workspace migrates, only the agent named in the migration can bind to it: the request of any
  other agent, or of one that gives no identity, is refused.\<close>

theorem migrating_bind_guarded:
  assumes "tree_get (ts_tree (rh_topology h)) wid = Some node" "n_status node = WsMigrating"
    "migration_get (rh_migration h) wid = Some ctx"
  shows "is_ok (handle_bind h wid who) \<longleftrightarrow> who = Some (ar_agent_type (mx_new_agent ctx))"
  using assms by (auto simp: handle_bind_def expected_agent_def migration_get_def Let_def split: option.splits)

section \<open>Concrete instances\<close>

definition sample_handler :: "topology_set \<Rightarrow> task_graph \<Rightarrow> migration_coordinator \<Rightarrow> request_handler" where
  "sample_handler topo g mg =
     \<lparr>rh_topology = topo, rh_task_graph = g, rh_gate_controller = gate_new 1000 AutoApprove,
      rh_integration_queue = queue_new, rh_timeout_tracker = timeout_new, rh_liveness_monitor = liveness_new 0,
      rh_migration = mg, rh_next_envelope_id = 1, rh_next_checkpoint_id = 1\<rparr>"

lemma sample_handler_simps [simp]:
  "rh_topology (sample_handler topo g mg) = topo" "rh_task_graph (sample_handler topo g mg) = g"
  "rh_migration (sample_handler topo g mg) = mg"
  by (simp_all add: sample_handler_def)

theorem content_hash_detects_change_witness:
  "let h = sample_handler (topology_new ''r'' ''u'') graph_new (migration_new 1)
   in \<exists>r r' h1 h1'. handle_create_checkpoint_req ''r'' [1, 2, 3] h = (Ok r, h1)
        \<and> handle_create_checkpoint_req ''r'' [1, 7, 3] h = (Ok r', h1') \<and> cc_content_hash r \<noteq> cc_content_hash r'"
proof -
  let ?h = "sample_handler (topology_new ''r'' ''u'') graph_new (migration_new 1)"
  have "tree_get (ts_tree (rh_topology ?h)) ''r'' \<noteq> None"
    by (simp add: topology_new_def tree_new_def tree_get_def Let_def)
  then obtain r h1 r' h1' where
    "handle_create_checkpoint_req ''r'' ([1] @ 2 # [3]) ?h = (Ok r, h1)"
    "handle_create_checkpoint_req ''r'' ([1] @ 7 # [3]) ?h = (Ok r', h1')"
    by (auto simp: handle_create_checkpoint_req_def)
  with content_hash_detects_change [OF _ this] show ?thesis by (auto simp: Let_def)
qed

theorem task_view_exact_witness:
  "distinct (map tv_id (handle_get_task_graph (sample_handler (topology_new ''r'' ''u'') sample_graph (migration_new 1))))"
  using task_view_exact [of "sample_handler (topology_new ''r'' ''u'') sample_graph (migration_new 1)"]
    graph_inv_reachable [OF sample_graph_reachable] by simp


theorem migrating_bind_guarded_witness:
  "\<exists>h. is_ok (handle_bind h ''r'' (Some ''b'')) \<and> \<not> is_ok (handle_bind h ''r'' None)"
proof -
  let ?topo = "(topology_new ''r'' ''u'')\<lparr>ts_tree := update_status ''r'' WsMigrating (tree_new ''r'' ''u'')\<rparr>"
  let ?req = "\<lparr>mr_workspace_id = ''r'', mr_new_agent = \<lparr>ar_agent_type = ''b'', ar_config = None\<rparr>, mr_reason = ''x''\<rparr>"
  let ?mg = "snd (migration_start ?req WsActive ''a'' 0 (migration_new 1))"
  let ?h = "sample_handler ?topo graph_new ?mg"
  obtain node where n: "tree_get (ts_tree (rh_topology ?h)) ''r'' = Some node" "n_status node = WsMigrating"
    by (simp add: tree_get_def update_status_def tree_new_def hupd_def Let_def)
  obtain ctx where c: "migration_get (rh_migration ?h) ''r'' = Some ctx" "ar_agent_type (mx_new_agent ctx) = ''b''"
    by (simp add: migration_get_def migration_start_def migration_new_def hhas_def Let_def)
  show ?thesis using migrating_bind_guarded [OF n c(1)] c(2) by (intro exI [of _ ?h]) simp
qed

text \<open>
  Two gaps. An injected envelope is accepted without any port right, although the handler is documented to
  check the rights of the coordinator. And a subtask that no root task leads to is missing in the task view.
\<close>

theorem inject_ignores_rights:
  "is_ok (fst (handle_inject_envelope w h)) \<longleftrightarrow> hhas (tr_nodes (ts_tree (rh_topology h))) w"
  by (simp add: handle_inject_envelope_def tree_get_def hhas_def)

theorem subtask_not_shown:
  "map tv_id (handle_get_task_graph (sample_handler (topology_new ''r'' ''u'')
     (snd (add_task ((mk_task ''c'' [] TsPending)\<lparr>t_parent_task := Some ''a''\<rparr>) sample_graph)) (migration_new 1)))
   = [''a'', ''b'']"
  by (simp add: handle_get_task_graph_def sample_graph_simps roots_def dependents_def view_of_def)

end
