(* ===== verification/Wacp_Llm.thy ===== *)
theory Wacp_Llm
  imports Wacp_Resilience
begin

text \<open>
  The bookkeeping of the LLM gateway (\<open>wacp-llm/src/error.rs\<close>, \<open>result.rs\<close>, \<open>cost.rs\<close>, \<open>retry.rs\<close>,
  \<open>rate_limit.rs\<close>): classification of errors, cost of a completion and per-workspace totals, retry delays, and the
  sliding-window rate limiter. Times are as in \<open>Wacp_Resilience\<close>; the random draw of the jitter is an argument.

  The rate limiter prunes its logs from the front; \<open>rate_limiter_exact\<close> shows that it answers as a reference that keeps
  the whole history, and that its subtractions of durations never underflow.
\<close>

section \<open>Errors\<close>

datatype error_origin = OrStructural | OrProvider | OrTransport | OrCompute

datatype error_persistence = EpTransient | EpPermanent | EpUnknown

fun error_origin_show :: "error_origin \<Rightarrow> string" where
  "error_origin_show OrStructural = ''structural''"
| "error_origin_show OrProvider = ''provider''"
| "error_origin_show OrTransport = ''transport''"
| "error_origin_show OrCompute = ''compute''"

fun error_persistence_show :: "error_persistence \<Rightarrow> string" where
  "error_persistence_show EpTransient = ''transient''"
| "error_persistence_show EpPermanent = ''permanent''"
| "error_persistence_show EpUnknown = ''unknown''"

record llm_error =
  le_origin :: error_origin
  le_persistence :: error_persistence
  le_code :: "string option"
  le_message :: string
  le_status :: "u16 option"
  le_retryable :: bool

definition llm_error_show :: "llm_error \<Rightarrow> string" where
  "llm_error_show e =
     error_origin_show (le_origin e) @ ''/'' @ error_persistence_show (le_persistence e) @ '': '' @ le_message e"

definition classify_status :: "u16 \<Rightarrow> error_origin \<times> error_persistence" where
  "classify_status status =
     (if status = 400 then (OrStructural, EpPermanent)
      else if status = 401 then (OrProvider, EpPermanent)
      else if status = 403 then (OrProvider, EpPermanent)
      else if status = 404 then (OrProvider, EpPermanent)
      else if status = 408 then (OrTransport, EpTransient)
      else if status = 429 then (OrProvider, EpTransient)
      else if status = 500 then (OrProvider, EpTransient)
      else if status = 502 then (OrTransport, EpTransient)
      else if status = 503 then (OrProvider, EpTransient)
      else (OrProvider, EpUnknown))"

definition llm_from_status :: "u16 \<Rightarrow> string \<Rightarrow> llm_error" where
  "llm_from_status status message =
     (case classify_status status of (origin, persistence) \<Rightarrow>
        \<lparr>le_origin = origin, le_persistence = persistence, le_code = None, le_message = message,
         le_status = Some status, le_retryable = (persistence = EpTransient)\<rparr>)"

definition llm_transport :: "string \<Rightarrow> bool \<Rightarrow> llm_error" where
  "llm_transport message transient =
     \<lparr>le_origin = OrTransport, le_persistence = (if transient then EpTransient else EpPermanent), le_code = None,
      le_message = message, le_status = None, le_retryable = transient\<rparr>"

definition llm_structural :: "string \<Rightarrow> llm_error" where
  "llm_structural message =
     \<lparr>le_origin = OrStructural, le_persistence = EpPermanent, le_code = None, le_message = message, le_status = None,
      le_retryable = False\<rparr>"

definition llm_compute :: "string \<Rightarrow> llm_error" where
  "llm_compute message =
     \<lparr>le_origin = OrCompute, le_persistence = EpPermanent, le_code = None, le_message = message, le_status = None,
      le_retryable = False\<rparr>"

section \<open>Usage and cost\<close>

record token_usage =
  tu_input_tokens :: u32
  tu_output_tokens :: u32

definition token_usage_total :: "token_usage \<Rightarrow> u32" where
  "token_usage_total u = saturating_add (tu_input_tokens u) (tu_output_tokens u)"

record cost =
  co_amount_micros :: u64
  co_currency :: string

definition cost_usd :: "u64 \<Rightarrow> cost" where
  "cost_usd amount_micros = \<lparr>co_amount_micros = amount_micros, co_currency = ''USD''\<rparr>"

definition display_usd :: "cost \<Rightarrow> string" where
  "display_usd c =
     (let dollars = unat (co_amount_micros c) div 1000000; micros = unat (co_amount_micros c) mod 1000000
      in ''$'' @ show_nat dollars @ ''.'' @ pad6 micros)"

record model_pricing =
  mp_input_price_micros_per_m :: u64
  mp_output_price_micros_per_m :: u64

definition calculate_cost :: "token_usage \<Rightarrow> model_pricing \<Rightarrow> cost" where
  "calculate_cost usage pricing =
     (let input_cost = (ucast (tu_input_tokens usage) :: u64) * mp_input_price_micros_per_m pricing div 1000000;
          output_cost = (ucast (tu_output_tokens usage) :: u64) * mp_output_price_micros_per_m pricing div 1000000
      in cost_usd (input_cost + output_cost))"

text \<open>\<open>max_by_key\<close> returns the last of the maximal elements.\<close>

fun longest_entry :: "(string \<times> 'p) list \<Rightarrow> (string \<times> 'p) option" where
  "longest_entry [] = None"
| "longest_entry (x # xs) = (case longest_entry xs of
       None \<Rightarrow> Some x
     | Some y \<Rightarrow> if length (fst x) \<le> length (fst y) then Some y else Some x)"

definition lookup_pricing :: "string \<Rightarrow> (string \<times> model_pricing) list \<Rightarrow> model_pricing option" where
  "lookup_pricing model table = map_option snd (longest_entry (filter (\<lambda>(p, _). prefix p model) table))"

record cost_tracker =
  ck_workspace_costs :: "(string, u64) hmap"
  ck_total_micros :: u64

definition cost_tracker_new :: cost_tracker where
  "cost_tracker_new = \<lparr>ck_workspace_costs = [], ck_total_micros = 0\<rparr>"

definition workspace_total :: "cost_tracker \<Rightarrow> string \<Rightarrow> u64" where
  "workspace_total k ws = (case hget (ck_workspace_costs k) ws of Some v \<Rightarrow> v | None \<Rightarrow> 0)"

definition cost_record :: "string option \<Rightarrow> cost \<Rightarrow> cost_tracker \<Rightarrow> cost_tracker" where
  "cost_record workspace_id c k =
     (let k1 = k\<lparr>ck_total_micros := ck_total_micros k + co_amount_micros c\<rparr> in
      case workspace_id of
        None \<Rightarrow> k1
      | Some ws \<Rightarrow> k1\<lparr>ck_workspace_costs :=
          hput ws (workspace_total k ws + co_amount_micros c) (ck_workspace_costs k)\<rparr>)"

definition cost_total :: "cost_tracker \<Rightarrow> u64" where
  "cost_total k = ck_total_micros k"

definition workspace_count :: "cost_tracker \<Rightarrow> nat" where
  "workspace_count k = length (ck_workspace_costs k)"

definition anthropic_pricing :: "(string \<times> model_pricing) list" where
  "anthropic_pricing =
     [(''claude-opus-4'', \<lparr>mp_input_price_micros_per_m = 15000000, mp_output_price_micros_per_m = 75000000\<rparr>),
      (''claude-sonnet-4'', \<lparr>mp_input_price_micros_per_m = 3000000, mp_output_price_micros_per_m = 15000000\<rparr>),
      (''claude-haiku-4'', \<lparr>mp_input_price_micros_per_m = 800000, mp_output_price_micros_per_m = 4000000\<rparr>)]"

definition openai_pricing :: "(string \<times> model_pricing) list" where
  "openai_pricing =
     [(''gpt-4o'', \<lparr>mp_input_price_micros_per_m = 2500000, mp_output_price_micros_per_m = 10000000\<rparr>),
      (''gpt-4o-mini'', \<lparr>mp_input_price_micros_per_m = 150000, mp_output_price_micros_per_m = 600000\<rparr>),
      (''o3'', \<lparr>mp_input_price_micros_per_m = 2000000, mp_output_price_micros_per_m = 8000000\<rparr>),
      (''o3-mini'', \<lparr>mp_input_price_micros_per_m = 1100000, mp_output_price_micros_per_m = 4400000\<rparr>),
      (''o4-mini'', \<lparr>mp_input_price_micros_per_m = 1100000, mp_output_price_micros_per_m = 4400000\<rparr>)]"

section \<open>Retries\<close>

datatype backoff_strategy = BkFixed | BkExponential

record retry_config =
  ry_max_retries :: u32
  ry_base_delay_ms :: u64
  ry_backoff :: backoff_strategy
  ry_honor_retry_after :: bool
  ry_max_retry_duration_ms :: u64

definition retry_config_default :: retry_config where
  "retry_config_default = \<lparr>ry_max_retries = 2, ry_base_delay_ms = 1000, ry_backoff = BkExponential,
     ry_honor_retry_after = True, ry_max_retry_duration_ms = 30000\<rparr>"

definition saturating_mul :: "u64 \<Rightarrow> u64 \<Rightarrow> u64" where
  "saturating_mul a b = (if unat a * unat b < 2 ^ 64 then a * b else - 1)"

definition saturating_pow :: "u64 \<Rightarrow> nat \<Rightarrow> u64" where
  "saturating_pow a n = (if unat a ^ n < 2 ^ 64 then a ^ n else - 1)"

definition retry_base :: "retry_config \<Rightarrow> u32 \<Rightarrow> u64" where
  "retry_base cfg attempt =
     min (case ry_backoff cfg of
            BkFixed \<Rightarrow> ry_base_delay_ms cfg
          | BkExponential \<Rightarrow> saturating_mul (ry_base_delay_ms cfg) (saturating_pow 2 (unat attempt))) 3600000"

text \<open>\<open>draw\<close> is the value of \<open>random_range(0..=jitter_range * 2)\<close>; the signed arithmetic stays far below \<open>2^63\<close>.\<close>

definition compute_delay :: "retry_config \<Rightarrow> u32 \<Rightarrow> u64 \<Rightarrow> u64" where
  "compute_delay cfg attempt draw =
     (let base = retry_base cfg attempt;
          jitter_range = base div 4;
          jitter = (if 0 < jitter_range then int (unat draw) - int (unat jitter_range) else 0)
      in of_int (max (int (unat base) + jitter) 1))"

definition llm_should_retry :: "llm_error \<Rightarrow> bool" where
  "llm_should_retry e \<longleftrightarrow> le_persistence e = EpTransient"

definition apply_retry_after :: "u64 \<Rightarrow> u64 option \<Rightarrow> retry_config \<Rightarrow> u64" where
  "apply_retry_after computed retry_after_ms cfg =
     (if ry_honor_retry_after cfg then (case retry_after_ms of Some after_ms \<Rightarrow> max computed after_ms | None \<Rightarrow> computed)
      else computed)"

section \<open>The rate limiter\<close>

record rate_limit_config =
  rl_max_requests_per_window :: u32
  rl_max_tokens_per_window :: u32
  rl_window :: duration

definition rate_limit_config_default :: rate_limit_config where
  "rate_limit_config_default = \<lparr>rl_max_requests_per_window = 0, rl_max_tokens_per_window = 0, rl_window = 60000\<rparr>"

record rate_limiter =
  rl_config :: rate_limit_config
  rl_request_log :: "instant list"
  rl_token_log :: "(instant \<times> u32) list"

definition rate_limiter_new :: "rate_limit_config \<Rightarrow> rate_limiter" where
  "rate_limiter_new cfg = \<lparr>rl_config = cfg, rl_request_log = [], rl_token_log = []\<rparr>"

text \<open>
  Subtraction of durations panics when it would be negative, as \<open>front().unwrap()\<close> does on an empty log: \<open>None\<close>. The
  sum of the tokens is a \<open>u32\<close> and wraps.
\<close>

definition duration_sub :: "duration \<Rightarrow> duration \<Rightarrow> duration option" where
  "duration_sub a b = (if b \<le> a then Some (a - b) else None)"

definition rate_check :: "u32 \<Rightarrow> instant \<Rightarrow> rate_limiter \<Rightarrow> ((unit, duration) result \<times> rate_limiter) option" where
  "rate_check estimated_tokens now l =
     (let cfg = rl_config l;
          cutoff = now - int (rl_window cfg);
          rlog = dropWhile (\<lambda>t. t < cutoff) (rl_request_log l);
          tlog = dropWhile (\<lambda>(t, _). t < cutoff) (rl_token_log l);
          l1 = l\<lparr>rl_request_log := rlog, rl_token_log := tlog\<rparr>
      in if 0 < rl_max_requests_per_window cfg \<and> unat (rl_max_requests_per_window cfg) \<le> length rlog then
           (case rlog of
              [] \<Rightarrow> None
            | oldest # _ \<Rightarrow>
                map_option (\<lambda>wait. (Err wait, l1)) (duration_sub (rl_window cfg) (duration_since now oldest)))
         else if 0 < rl_max_tokens_per_window cfg
                 \<and> rl_max_tokens_per_window cfg < saturating_add (sum_list (map snd tlog)) estimated_tokens then
           (let oldest = (case tlog of [] \<Rightarrow> now | (t, _) # _ \<Rightarrow> t)
            in map_option (\<lambda>wait. (Err wait, l1)) (duration_sub (rl_window cfg) (duration_since now oldest)))
         else Some (Ok (), l1))"

definition rate_record :: "u32 \<Rightarrow> instant \<Rightarrow> rate_limiter \<Rightarrow> rate_limiter" where
  "rate_record tokens now l =
     l\<lparr>rl_request_log := rl_request_log l @ [now], rl_token_log := rl_token_log l @ [(now, tokens)]\<rparr>"

definition rate_is_enabled :: "rate_limiter \<Rightarrow> bool" where
  "rate_is_enabled l \<longleftrightarrow> 0 < rl_max_requests_per_window (rl_config l) \<or> 0 < rl_max_tokens_per_window (rl_config l)"

section \<open>The rate limiter answers for the window\<close>

datatype rate_op = RoCheck u32 | RoRecord u32

fun rate_run :: "(instant \<times> rate_op) list \<Rightarrow> rate_limiter \<Rightarrow> ((unit, duration) result list \<times> rate_limiter) option" where
  "rate_run [] l = Some ([], l)"
| "rate_run ((now, RoRecord tokens) # cs) l = rate_run cs (rate_record tokens now l)"
| "rate_run ((now, RoCheck est) # cs) l =
     Option.bind (rate_check est now l) (\<lambda>(r, l1). map_option (\<lambda>(rs, l2). (r # rs, l2)) (rate_run cs l1))"

text \<open>
  The reference keeps the history of all recorded requests; a check looks at those not older than the window.
\<close>

definition recent :: "duration \<Rightarrow> instant \<Rightarrow> (instant \<times> u32) list \<Rightarrow> (instant \<times> u32) list" where
  "recent window now hist = filter (\<lambda>(t, _). now - t \<le> int window) hist"

definition rate_answer :: "rate_limit_config \<Rightarrow> instant \<Rightarrow> u32 \<Rightarrow> (instant \<times> u32) list \<Rightarrow> (unit, duration) result" where
  "rate_answer cfg now est hist =
     (let rs = recent (rl_window cfg) now hist;
          wait = (case rs of [] \<Rightarrow> rl_window cfg | (t, _) # _ \<Rightarrow> rl_window cfg - nat (now - t))
      in if 0 < rl_max_requests_per_window cfg \<and> unat (rl_max_requests_per_window cfg) \<le> length rs then Err wait
         else if 0 < rl_max_tokens_per_window cfg
                 \<and> rl_max_tokens_per_window cfg < saturating_add (sum_list (map snd rs)) est then Err wait
         else Ok ())"

fun rate_spec :: "rate_limit_config \<Rightarrow> (instant \<times> rate_op) list \<Rightarrow> (instant \<times> u32) list \<Rightarrow> (unit, duration) result list" where
  "rate_spec cfg [] hist = []"
| "rate_spec cfg ((now, RoRecord tokens) # cs) hist = rate_spec cfg cs (hist @ [(now, tokens)])"
| "rate_spec cfg ((now, RoCheck est) # cs) hist = rate_answer cfg now est hist # rate_spec cfg cs hist"

definition rate_rep :: "rate_limit_config \<Rightarrow> instant \<Rightarrow> rate_limiter \<Rightarrow> (instant \<times> u32) list \<Rightarrow> bool" where
  "rate_rep cfg now l hist \<longleftrightarrow> rl_config l = cfg \<and> sorted (map fst hist) \<and> (\<forall>x \<in> set hist. fst x \<le> now)
     \<and> rl_request_log l = map fst (rl_token_log l)
     \<and> (\<exists>c \<le> now - int (rl_window cfg). rl_token_log l = filter (\<lambda>x. c \<le> fst x) hist)"

lemma dropWhile_logs:
  "(\<lambda>(t, _). t < c) = (\<lambda>x. fst x < c)"
  "dropWhile (\<lambda>t. t < c) (map fst xs) = map fst (dropWhile (\<lambda>x. fst x < c) xs)"
  by (auto simp: dropWhile_map comp_def)

lemma recent_filter: "recent w now hist = filter (\<lambda>x. now - int w \<le> fst x) hist"
  by (auto simp: recent_def intro: filter_cong)

lemma rate_rep_pruned:
  assumes "rate_rep cfg now l hist"
  shows "dropWhile (\<lambda>x. fst x < now - int (rl_window cfg)) (rl_token_log l) = recent (rl_window cfg) now hist"
proof -
  from assms obtain c where c: "c \<le> now - int (rl_window cfg)" and log: "rl_token_log l = filter (\<lambda>x. c \<le> fst x) hist"
    and srt: "sorted (map fst hist)" by (auto simp: rate_rep_def)
  have "sorted (map fst (filter (\<lambda>x. c \<le> fst x) hist))" using srt by (simp add: sorted_filter)
  moreover have "filter (\<lambda>x. now - int (rl_window cfg) \<le> fst x) (filter (\<lambda>x. c \<le> fst x) hist)
      = filter (\<lambda>x. now - int (rl_window cfg) \<le> fst x) hist" using c by (auto intro: filter_cong)
  ultimately show ?thesis by (simp only: log dropWhile_sorted recent_filter)
qed

lemma recent_hd:
  assumes "recent w now hist = x # xs" "\<forall>y \<in> set hist. fst y \<le> now"
  shows "fst x \<le> now" "duration_since now (fst x) \<le> w"
proof -
  have "x \<in> set (recent w now hist)" using assms(1) by simp
  then have "x \<in> set hist" "now - fst x \<le> int w" by (auto simp: recent_def)
  then show "fst x \<le> now" "duration_since now (fst x) \<le> w" using assms(2) by (auto simp: duration_since_def)
qed

lemma rate_check_answer:
  assumes "rate_rep cfg now l hist"
  shows "\<exists>l1. rate_check est now l = Some (rate_answer cfg now est hist, l1) \<and> rate_rep cfg now l1 hist"
proof -
  let ?rs = "recent (rl_window cfg) now hist"
  define l1 where "l1 = l\<lparr>rl_request_log := map fst ?rs, rl_token_log := ?rs\<rparr>"
  have cfg: "rl_config l = cfg" and logs: "rl_request_log l = map fst (rl_token_log l)"
    and past: "\<forall>x \<in> set hist. fst x \<le> now" using assms by (auto simp: rate_rep_def)
  have rep: "rate_rep cfg now l1 hist"
    using assms by (auto simp: rate_rep_def l1_def recent_filter)
  have pr: "dropWhile (\<lambda>t. t < now - int (rl_window cfg)) (rl_request_log l) = map fst ?rs"
    "dropWhile (\<lambda>(t, _). t < now - int (rl_window cfg)) (rl_token_log l) = ?rs"
    using rate_rep_pruned [OF assms] by (simp_all add: logs dropWhile_logs)
  have "rate_check est now l = Some (rate_answer cfg now est hist, l1)"
  proof (cases ?rs)
    case Nil
    then show ?thesis
      by (simp add: rate_check_def cfg pr rate_answer_def Let_def l1_def duration_sub_def duration_since_def word_gt_0 unat_eq_0)
  next
    case (Cons x xs)
    have "duration_sub (rl_window cfg) (duration_since now (fst x)) = Some (rl_window cfg - nat (now - fst x))"
      using recent_hd [OF Cons past] by (simp add: duration_sub_def duration_since_def)
    then show ?thesis
      by (cases x) (simp add: rate_check_def cfg pr rate_answer_def Let_def l1_def Cons)
  qed
  with rep show ?thesis by blast
qed

lemma rate_rep_record:
  assumes "rate_rep cfg now l hist"
  shows "rate_rep cfg now (rate_record tokens now l) (hist @ [(now, tokens)])"
proof -
  from assms obtain c where c: "c \<le> now - int (rl_window cfg)" and log: "rl_token_log l = filter (\<lambda>x. c \<le> fst x) hist"
    by (auto simp: rate_rep_def)
  then have "rl_token_log (rate_record tokens now l) = filter (\<lambda>x. c \<le> fst x) (hist @ [(now, tokens)])"
    by (simp add: rate_record_def)
  with c have ex: "\<exists>c \<le> now - int (rl_window cfg). rl_token_log (rate_record tokens now l) = filter (\<lambda>x. c \<le> fst x) (hist @ [(now, tokens)])"
    by blast
  moreover have "sorted (map fst (hist @ [(now, tokens)]))" "\<forall>x \<in> set (hist @ [(now, tokens)]). fst x \<le> now"
    using assms by (auto simp: rate_rep_def sorted_append)
  ultimately show ?thesis using assms unfolding rate_rep_def by (simp add: rate_record_def)
qed

lemma rate_rep_later:
  assumes "rate_rep cfg t l hist" "t \<le> now"
  shows "rate_rep cfg now l hist"
proof -
  from assms(1) obtain c where "c \<le> t - int (rl_window cfg)" "rl_token_log l = filter (\<lambda>x. c \<le> fst x) hist"
    by (auto simp: rate_rep_def)
  with assms(2) have "c \<le> now - int (rl_window cfg) \<and> rl_token_log l = filter (\<lambda>x. c \<le> fst x) hist" by simp
  then show ?thesis using assms unfolding rate_rep_def by auto
qed

lemma rate_run_spec:
  assumes "rate_rep cfg t0 l hist" "sorted (t0 # map fst cs)"
  shows "\<exists>l'. rate_run cs l = Some (rate_spec cfg cs hist, l')"
  using assms
proof (induction cs arbitrary: l hist t0)
  case (Cons c cs)
  obtain now ope where c: "c = (now, ope)" by (cases c)
  have rep: "rate_rep cfg now l hist" using Cons.prems rate_rep_later by (auto simp: c)
  have srt: "sorted (now # map fst cs)" using Cons.prems(2) by (simp add: c)
  show ?case
  proof (cases ope)
    case (RoCheck est)
    obtain l1 where "rate_check est now l = Some (rate_answer cfg now est hist, l1)" "rate_rep cfg now l1 hist"
      using rate_check_answer [OF rep] by blast
    with Cons.IH [OF _ srt] show ?thesis by (fastforce simp: c RoCheck)
  next
    case (RoRecord tokens)
    show ?thesis using Cons.IH [OF rate_rep_record [OF rep] srt] by (simp add: c RoRecord)
  qed
qed simp


definition sample_rate :: rate_limit_config where
  "sample_rate = \<lparr>rl_max_requests_per_window = 2, rl_max_tokens_per_window = 100, rl_window = 10\<rparr>"


text \<open>
  Two consequences. A request whose estimate exceeds the token limit is refused with an empty log, at every time: the
  wait it is told never helps. And the token sum wraps: with enough recorded tokens the limit is not enforced.
\<close>

theorem oversized_request_refused:
  assumes "0 < rl_max_tokens_per_window cfg" "rl_max_tokens_per_window cfg < est"
  shows "rate_check est now (rate_limiter_new cfg) = Some (Err (rl_window cfg), rate_limiter_new cfg)"
proof -
  have "saturating_add 0 est = est" using unat_bound [of est] by (simp add: saturating_add_def)
  then show ?thesis using assms
    by (simp add: rate_check_def rate_limiter_new_def Let_def duration_sub_def duration_since_def word_gt_0 unat_eq_0)
qed

theorem token_sum_wraps:
  "rate_answer \<lparr>rl_max_requests_per_window = 0, rl_max_tokens_per_window = 100, rl_window = 10\<rparr> 0 50
     [(0, 2147483648), (0, 2147483648)] = Ok ()"
  by (simp add: rate_answer_def recent_def saturating_add_def)

section \<open>Delays and costs\<close>

lemma retry_base_bound: "unat (retry_base cfg attempt) \<le> 3600000"
proof -
  have "retry_base cfg attempt \<le> 3600000" by (simp add: retry_base_def)
  then show ?thesis by (simp add: word_le_nat_alt)
qed

lemma jitter_bounds:
  fixes b q r :: nat
  assumes "b \<le> 3600000" "4 * q \<le> b" "r \<le> 2 * q"
  defines "d \<equiv> max (int b + (if 0 < q then int r - int q else 0)) 1"
  shows "1 \<le> d" "d \<le> 4500000" "int (max 1 (b - q)) \<le> d" "d \<le> int (max 1 (b + q))"
  using assms(1-3) unfolding d_def by (auto simp: max_def)

text \<open>Whatever the configuration, the attempt and the draw of the jitter, the delay is at least one millisecond and
  within a quarter of the base delay, which is the configured delay or its exponential multiple, capped at one
  hour.\<close>
theorem retry_delay_bounds:
  assumes "unat draw \<le> 2 * (unat (retry_base cfg attempt) div 4)"
  shows "unat (compute_delay cfg attempt draw) \<ge> max 1 (unat (retry_base cfg attempt) - unat (retry_base cfg attempt) div 4)
    \<and> unat (compute_delay cfg attempt draw) \<le> max 1 (unat (retry_base cfg attempt) + unat (retry_base cfg attempt) div 4)
    \<and> unat (compute_delay cfg attempt draw) \<le> 4500000"
proof -
  define b where "b = unat (retry_base cfg attempt)"
  have q: "unat (retry_base cfg attempt div 4) = b div 4" by (simp add: unat_div b_def)
  define d where "d = max (int b + (if 0 < b div 4 then int (unat draw) - int (b div 4) else 0)) 1"
  have "b \<le> 3600000" "4 * (b div 4) \<le> b" "unat draw \<le> 2 * (b div 4)" using retry_base_bound assms by (simp_all add: b_def)
  note d = jitter_bounds [OF this, folded d_def]
  have "compute_delay cfg attempt draw = of_int d"
    by (simp add: compute_delay_def Let_def d_def word_less_nat_alt q b_def)
  then have "unat (compute_delay cfg attempt draw) = nat d"
    using d(1,2) by (simp add: unsigned_of_int take_bit_int_eq_self)
  then show ?thesis using d unfolding b_def [symmetric] by linarith
qed

theorem retry_delay_bounds_witness:
  "unat (retry_base retry_config_default 2) = 4000 \<and> 3000 \<le> unat (compute_delay retry_config_default 2 2000)"
proof -
  have b: "unat (retry_base retry_config_default 2) = 4000"
    by (simp add: retry_base_def retry_config_default_def saturating_mul_def saturating_pow_def)
  then show ?thesis using retry_delay_bounds [of 2000 retry_config_default 2] by simp
qed

text \<open>Only the statuses that mean a passing condition are retried, and a retry-after is a lower bound.\<close>

lemma retried_statuses: "llm_should_retry (llm_from_status status message) \<longleftrightarrow> status \<in> {408, 429, 500, 502, 503}"
  by (simp add: llm_should_retry_def llm_from_status_def classify_status_def)

lemma retry_after_lower_bound:
  "computed \<le> apply_retry_after computed ra cfg"
  "ry_honor_retry_after cfg \<Longrightarrow> after_ms \<le> apply_retry_after computed (Some after_ms) cfg"
  by (simp_all add: apply_retry_after_def split: option.split)

lemma longest_entry_None: "longest_entry xs = None \<longleftrightarrow> xs = []"
  by (cases xs) (auto split: option.splits if_splits)

lemma longest_entry_Some:
  "longest_entry xs = Some x \<Longrightarrow> x \<in> set xs \<and> (\<forall>y \<in> set xs. length (fst y) \<le> length (fst x))"
proof (induction xs arbitrary: x)
  case (Cons z zs)
  show ?case
  proof (cases "longest_entry zs")
    case None
    with Cons.prems show ?thesis by (auto simp: longest_entry_None)
  next
    case (Some y)
    with Cons show ?thesis by (fastforce split: if_splits)
  qed
qed simp

text \<open>A model gets the price of the longest table prefix it starts with, and none exactly when it starts with no
  prefix of the table. With the prices of the built-in tables the computed cost is exact for every usage (input and
  output each rounded down to a microdollar): the 64-bit products do not overflow.\<close>
theorem pricing_exact:
  "(case lookup_pricing model table of
      None \<Rightarrow> (\<forall>e \<in> set table. \<not> prefix (fst e) model)
    | Some p \<Rightarrow> (\<exists>k. (k, p) \<in> set table \<and> prefix k model
                    \<and> (\<forall>e \<in> set table. prefix (fst e) model \<longrightarrow> length (fst e) \<le> length k)))
   \<and> (\<forall>p \<in> snd ` set (anthropic_pricing @ openai_pricing).
        unat (co_amount_micros (calculate_cost u p)) =
          unat (tu_input_tokens u) * unat (mp_input_price_micros_per_m p) div 1000000
          + unat (tu_output_tokens u) * unat (mp_output_price_micros_per_m p) div 1000000)"
proof (intro conjI ballI)
  show "case lookup_pricing model table of
      None \<Rightarrow> (\<forall>e \<in> set table. \<not> prefix (fst e) model)
    | Some p \<Rightarrow> (\<exists>k. (k, p) \<in> set table \<and> prefix k model
                    \<and> (\<forall>e \<in> set table. prefix (fst e) model \<longrightarrow> length (fst e) \<le> length k))"
  proof (cases "longest_entry (filter (\<lambda>(p, _). prefix p model) table)")
    case None
    then show ?thesis by (auto simp: lookup_pricing_def longest_entry_None filter_empty_conv)
  next
    case (Some e)
    then show ?thesis using longest_entry_Some [OF Some] by (cases e) (force simp: lookup_pricing_def)
  qed
next
  fix p assume "p \<in> snd ` set (anthropic_pricing @ openai_pricing)"
  then have "mp_input_price_micros_per_m p \<in> {15000000, 3000000, 800000, 2500000, 150000, 2000000, 1100000}"
    "mp_output_price_micros_per_m p \<in> {75000000, 15000000, 4000000, 10000000, 600000, 8000000, 4400000}"
    by (auto simp: anthropic_pricing_def openai_pricing_def)
  then have price: "unat (mp_input_price_micros_per_m p) \<le> 75000000" "unat (mp_output_price_micros_per_m p) \<le> 75000000"
    by auto
  have side: "unat ((ucast t :: u64) * q div 1000000) = unat t * unat q div 1000000
      \<and> unat t * unat q div 1000000 < 2 ^ 63" if "unat q \<le> 75000000" for t :: u32 and q :: u64
  proof -
    have "unat t * unat q \<le> 4294967296 * 75000000"
      using that unat_bound [of t] by (intro mult_mono) simp_all
    moreover have "unat (ucast t :: u64) = unat t"
      using unat_bound [of t] by (simp add: unsigned_ucast_eq take_bit_nat_eq_self)
    ultimately show ?thesis by (simp add: unat_div unat_word_ariths(2))
  qed
  show "unat (co_amount_micros (calculate_cost u p)) =
          unat (tu_input_tokens u) * unat (mp_input_price_micros_per_m p) div 1000000
          + unat (tu_output_tokens u) * unat (mp_output_price_micros_per_m p) div 1000000"
    using side [OF price(1), of "tu_input_tokens u"] side [OF price(2), of "tu_output_tokens u"]
    by (simp add: calculate_cost_def cost_usd_def Let_def unat_word_ariths(1))
qed

theorem pricing_exact_witness:
  "unat (co_amount_micros (calculate_cost \<lparr>tu_input_tokens = 1000, tu_output_tokens = 500\<rparr>
     \<lparr>mp_input_price_micros_per_m = 3000000, mp_output_price_micros_per_m = 15000000\<rparr>)) = 10500"
  using pricing_exact [where model = "''gpt-4o''" and table = openai_pricing and u = "\<lparr>tu_input_tokens = 1000, tu_output_tokens = 500\<rparr>"]
  by (simp add: anthropic_pricing_def)

definition cost_run :: "(string option \<times> cost) list \<Rightarrow> cost_tracker \<Rightarrow> cost_tracker" where
  "cost_run rs k = fold (\<lambda>(ws, c). cost_record ws c) rs k"

lemma cost_record_totals:
  "cost_total (cost_record w c k) = cost_total k + co_amount_micros c"
  "workspace_total (cost_record w c k) ws = workspace_total k ws + (if w = Some ws then co_amount_micros c else 0)"
  by (auto simp: cost_record_def cost_total_def workspace_total_def Let_def split: option.split)

text \<open>After any sequence of recorded costs the total is their sum and each workspace's total the sum of the costs
  attributed to it, modulo \<open>2^64\<close>; unattributed costs count in the total only.\<close>
theorem cost_tracker_exact:
  "cost_total (cost_run rs cost_tracker_new) = sum_list (map (\<lambda>(_, c). co_amount_micros c) rs)
   \<and> workspace_total (cost_run rs cost_tracker_new) ws =
       sum_list (map (\<lambda>(_, c). co_amount_micros c) (filter (\<lambda>(w, _). w = Some ws) rs))"
proof (induction rs rule: rev_induct)
  case Nil
  then show ?case by (simp add: cost_run_def cost_tracker_new_def cost_total_def workspace_total_def)
next
  case (snoc r rs)
  obtain w c where r: "r = (w, c)" by (cases r)
  have "cost_run (rs @ [r]) cost_tracker_new = cost_record w c (cost_run rs cost_tracker_new)"
    by (simp add: cost_run_def r)
  then show ?case using snoc by (simp add: r cost_record_totals)
qed

end
