(* ===== verification/Wacp_Llm_Providers.thy ===== *)
theory Wacp_Llm_Providers
  imports Wacp_Llm
begin

text \<open>
  Messages, streaming events and the providers of the LLM gateway (\<open>wacp-llm/src/types.rs\<close>, \<open>adapter.rs\<close>,
  \<open>stream.rs\<close>, \<open>providers/anthropic.rs\<close>, \<open>providers/openai.rs\<close>, \<open>providers/stub.rs\<close>, \<open>providers/mod.rs\<close>).

  JSON values and their parser and printer are the operations of a parameter \<open>jv\<close>; an object is built from its
  entries in the order they are set. SHA-256 of a string is the parameter \<open>sha\<close>.
\<close>

record 'v json_view =
  jv_from_str :: "string \<Rightarrow> 'v option"
  jv_to_string :: "'v \<Rightarrow> string"
  jv_get :: "'v \<Rightarrow> string \<Rightarrow> 'v option"
  jv_as_str :: "'v \<Rightarrow> string option"
  jv_as_u64 :: "'v \<Rightarrow> u64 option"
  jv_as_bool :: "'v \<Rightarrow> bool option"
  jv_as_array :: "'v \<Rightarrow> 'v list option"
  jv_object :: "(string \<times> 'v) list \<Rightarrow> 'v"
  jv_array :: "'v list \<Rightarrow> 'v"
  jv_str :: "string \<Rightarrow> 'v"
  jv_u32 :: "u32 \<Rightarrow> 'v"
  jv_bool :: "bool \<Rightarrow> 'v"

text \<open>\<open>v.get(k).and_then(as_str)\<close>, and the same for numbers and arrays.\<close>

definition get_str :: "'v json_view \<Rightarrow> 'v \<Rightarrow> string \<Rightarrow> string option" where
  "get_str jv v k = Option.bind (jv_get jv v k) (jv_as_str jv)"

definition get_u64 :: "'v json_view \<Rightarrow> 'v \<Rightarrow> string \<Rightarrow> u64 option" where
  "get_u64 jv v k = Option.bind (jv_get jv v k) (jv_as_u64 jv)"

definition get_array :: "'v json_view \<Rightarrow> 'v \<Rightarrow> string \<Rightarrow> 'v list option" where
  "get_array jv v k = Option.bind (jv_get jv v k) (jv_as_array jv)"

definition first_elem :: "'a list \<Rightarrow> 'a option" where
  "first_elem xs = (case xs of [] \<Rightarrow> None | x # _ \<Rightarrow> Some x)"

section \<open>Messages\<close>

datatype role = RlSystem | RlUser | RlAssistant | RlTool

datatype 'v content_block =
  CbText string
| CbToolUse string string 'v
| CbToolResult string string bool

datatype 'v content = CtText string | CtBlocks "'v content_block list"

record 'v message =
  ms_role :: role
  ms_content :: "'v content"

record 'v tool_definition =
  tf_name :: string
  tf_description :: string
  tf_input_schema :: 'v

definition message_system :: "string \<Rightarrow> 'v message" where
  "message_system text = \<lparr>ms_role = RlSystem, ms_content = CtText text\<rparr>"

definition message_user :: "string \<Rightarrow> 'v message" where
  "message_user text = \<lparr>ms_role = RlUser, ms_content = CtText text\<rparr>"

definition message_assistant :: "string \<Rightarrow> 'v message" where
  "message_assistant text = \<lparr>ms_role = RlAssistant, ms_content = CtText text\<rparr>"

definition message_tool_result :: "string \<Rightarrow> string \<Rightarrow> bool \<Rightarrow> 'v message" where
  "message_tool_result tool_use_id content is_error =
     \<lparr>ms_role = RlTool, ms_content = CtBlocks [CbToolResult tool_use_id content is_error]\<rparr>"

fun first_text :: "'v content_block list \<Rightarrow> string option" where
  "first_text [] = None"
| "first_text (CbText text # _) = Some text"
| "first_text (_ # bs) = first_text bs"

definition as_text :: "'v content \<Rightarrow> string option" where
  "as_text c = (case c of CtText s \<Rightarrow> Some s | CtBlocks blocks \<Rightarrow> first_text blocks)"

record 'v completion_options =
  op_model :: "string option"
  op_max_tokens :: "u32 option"
  op_stop :: "string list"
  op_tools :: "'v tool_definition list"
  op_timeout_ms :: "u64 option"

record 'v tool_call =
  tc_id :: string
  tc_name :: string
  tc_arguments :: 'v

record 'v completion_result =
  cr_content :: string
  cr_tool_calls :: "'v tool_call list"
  cr_usage :: token_usage
  cr_cost :: "cost option"
  cr_model :: string
  cr_latency_ms :: u64
  cr_truncated :: bool

record model_info =
  mi_id :: string
  mi_name :: "string option"
  mi_max_context :: "u32 option"
  mi_max_output :: "u32 option"
  mi_supports_tools :: bool
  mi_supports_streaming :: bool

record provider_health =
  ph_healthy :: bool
  ph_latency_ms :: "u64 option"
  ph_error :: "string option"
  ph_models_available :: u32

section \<open>Streams\<close>

datatype stream_event =
  SvContentDelta string
| SvToolCallDelta u32 "string option" "string option" "string option"
| SvUsage token_usage
| SvDone

datatype sse_line = SseEvent string | SseData string | SseDone | SseEmpty | SseComment

text \<open>\<open>str::trim\<close> removes the characters of Unicode's \<open>White_Space\<close> at both ends; here are their UTF-8 forms.\<close>

definition white_space :: "string list" where
  "white_space =
     map (\<lambda>n. [char_of (n::nat)]) [9, 10, 11, 12, 13, 32] @
     [[CHR 0xC2, CHR 0x85], [CHR 0xC2, CHR 0xA0], [CHR 0xE1, CHR 0x9A, CHR 0x80]] @
     map (\<lambda>n. [CHR 0xE2, CHR 0x80, char_of (n::nat)]) ([128..<139] @ [168, 169, 175]) @
     [[CHR 0xE2, CHR 0x81, CHR 0x9F], [CHR 0xE3, CHR 0x80, CHR 0x80]]"

definition space_before :: "string \<Rightarrow> string option" where
  "space_before s = find (\<lambda>w. prefix w s) white_space"

lemma white_space_nonempty: "w \<in> set white_space \<Longrightarrow> w \<noteq> []"
  by (auto simp: white_space_def)

lemma space_before_Some: "space_before s = Some w \<Longrightarrow> prefix w s \<and> 0 < length w \<and> length w \<le> length s"
  using white_space_nonempty by (auto simp: space_before_def find_Some_iff prefix_length_le)

function trim_start :: "string \<Rightarrow> string" where
  "trim_start s = (case space_before s of None \<Rightarrow> s | Some w \<Rightarrow> trim_start (drop (length w) s))"
  by auto

termination trim_start
proof (relation "measure length")
  fix s w assume "space_before s = Some w"
  then have "0 < length w" "length w \<le> length s" using space_before_Some by blast+
  then have "length s - length w < length s" by linarith
  then show "(drop (length w) s, s) \<in> measure length" by simp
qed simp

definition space_after :: "string \<Rightarrow> string option" where
  "space_after s = find (\<lambda>w. suffix w s) white_space"

lemma space_after_Some: "space_after s = Some w \<Longrightarrow> suffix w s \<and> 0 < length w \<and> length w \<le> length s"
  using white_space_nonempty by (auto simp: space_after_def find_Some_iff suffix_length_le)

function trim_end :: "string \<Rightarrow> string" where
  "trim_end s = (case space_after s of None \<Rightarrow> s | Some w \<Rightarrow> trim_end (take (length s - length w) s))"
  by auto

termination trim_end
proof (relation "measure length")
  fix s w assume "space_after s = Some w"
  then have "0 < length w" "length w \<le> length s" using space_after_Some by blast+
  then have "length s - length w < length s" by linarith
  then show "(take (length s - length w) s, s) \<in> measure length" by simp
qed simp

declare trim_start.simps [simp del] trim_end.simps [simp del]

definition trim :: "string \<Rightarrow> string" where
  "trim s = trim_end (trim_start s)"

definition parse_sse_line :: "string \<Rightarrow> sse_line option" where
  "parse_sse_line l =
     (let line = rev (dropWhile (\<lambda>c. c = CHR 0x0D) (rev l)) in
      if line = [] then Some SseEmpty
      else (case strip_prefix ''event:'' line of
        Some event \<Rightarrow> Some (SseEvent (trim event))
      | None \<Rightarrow> (case strip_prefix ''data:'' line of
          Some d \<Rightarrow> (let data = trim d in if data = ''[DONE]'' then Some SseDone else Some (SseData data))
        | None \<Rightarrow> if prefix '':'' line then Some SseComment else Some (SseData line))))"

definition anthropic_delta :: "'v json_view \<Rightarrow> 'v \<Rightarrow> stream_event option" where
  "anthropic_delta jv json =
     Option.bind (jv_get jv json ''delta'') (\<lambda>delta.
     Option.bind (get_str jv delta ''type'') (\<lambda>delta_type.
       if delta_type = ''text_delta'' then map_option SvContentDelta (get_str jv delta ''text'')
       else if delta_type = ''input_json_delta'' then
         Option.bind (get_str jv delta ''partial_json'') (\<lambda>partial.
         Option.bind (get_u64 jv json ''index'') (\<lambda>index.
           Some (SvToolCallDelta (ucast index) None None (Some partial))))
       else None))"

definition anthropic_block_start :: "'v json_view \<Rightarrow> 'v \<Rightarrow> stream_event option" where
  "anthropic_block_start jv json =
     Option.bind (jv_get jv json ''content_block'') (\<lambda>content_block.
     Option.bind (get_str jv content_block ''type'') (\<lambda>block_type.
       if block_type = ''tool_use'' then
         Option.bind (get_u64 jv json ''index'') (\<lambda>index.
           Some (SvToolCallDelta (ucast index) (get_str jv content_block ''id'') (get_str jv content_block ''name'') None))
       else None))"

definition parse_anthropic_event :: "'v json_view \<Rightarrow> string \<Rightarrow> string \<Rightarrow> stream_event option" where
  "parse_anthropic_event jv event_type data =
     Option.bind (jv_from_str jv data) (\<lambda>json.
       if event_type = ''content_block_delta'' then anthropic_delta jv json
       else if event_type = ''content_block_start'' then anthropic_block_start jv json
       else if event_type = ''message_delta'' then
         map_option (\<lambda>usage. SvUsage \<lparr>tu_input_tokens = 0, tu_output_tokens = ucast (or_else (get_u64 jv usage ''output_tokens'') 0)\<rparr>)
           (jv_get jv json ''usage'')
       else if event_type = ''message_start'' then
         map_option (\<lambda>usage. SvUsage \<lparr>tu_input_tokens = ucast (or_else (get_u64 jv usage ''input_tokens'') 0), tu_output_tokens = 0\<rparr>)
           (Option.bind (jv_get jv json ''message'') (\<lambda>m. jv_get jv m ''usage''))
       else if event_type = ''message_stop'' then Some SvDone
       else None)"

definition openai_usage :: "'v json_view \<Rightarrow> 'v \<Rightarrow> stream_event option" where
  "openai_usage jv json =
     Option.bind (jv_get jv json ''usage'') (\<lambda>usage.
       let input = ucast (or_else (get_u64 jv usage ''prompt_tokens'') 0) :: u32;
           output = ucast (or_else (get_u64 jv usage ''completion_tokens'') 0) :: u32
       in if 0 < input \<or> 0 < output then Some (SvUsage \<lparr>tu_input_tokens = input, tu_output_tokens = output\<rparr>) else None)"

definition openai_delta :: "'v json_view \<Rightarrow> 'v \<Rightarrow> stream_event option" where
  "openai_delta jv delta =
     (case get_str jv delta ''content'' of
        Some (c # cs) \<Rightarrow> Some (SvContentDelta (c # cs))
      | _ \<Rightarrow>
          map_option (\<lambda>tc.
            SvToolCallDelta (ucast (or_else (get_u64 jv tc ''index'') 0)) (get_str jv tc ''id'')
              (Option.bind (jv_get jv tc ''function'') (\<lambda>f. get_str jv f ''name''))
              (Option.bind (jv_get jv tc ''function'') (\<lambda>f. get_str jv f ''arguments'')))
            (Option.bind (get_array jv delta ''tool_calls'') first_elem))"

definition parse_openai_event :: "'v json_view \<Rightarrow> string \<Rightarrow> stream_event option" where
  "parse_openai_event jv data =
     Option.bind (jv_from_str jv data) (\<lambda>json.
       case openai_usage jv json of
         Some e \<Rightarrow> Some e
       | None \<Rightarrow>
           Option.bind (get_array jv json ''choices'') (\<lambda>choices.
           Option.bind (first_elem choices) (\<lambda>choice.
           Option.bind (jv_get jv choice ''delta'') (openai_delta jv))))"

definition parse_ndjson_event :: "'v json_view \<Rightarrow> string \<Rightarrow> stream_event option" where
  "parse_ndjson_event jv data =
     Option.bind (jv_from_str jv data) (\<lambda>json.
       if Option.bind (jv_get jv json ''done'') (jv_as_bool jv) = Some True then
         (case (get_u64 jv json ''prompt_eval_count'', get_u64 jv json ''eval_count'') of
            (Some prompt, Some eval_count) \<Rightarrow> Some (SvUsage \<lparr>tu_input_tokens = ucast prompt, tu_output_tokens = ucast eval_count\<rparr>)
          | _ \<Rightarrow> Some SvDone)
       else (case get_str jv json ''response'' of
         Some (c # cs) \<Rightarrow> Some (SvContentDelta (c # cs))
       | _ \<Rightarrow> (case Option.bind (jv_get jv json ''message'') (\<lambda>m. get_str jv m ''content'') of
           Some (c # cs) \<Rightarrow> Some (SvContentDelta (c # cs))
         | _ \<Rightarrow> None)))"

section \<open>The Anthropic provider\<close>

definition block_to_anthropic :: "'v json_view \<Rightarrow> 'v content_block \<Rightarrow> 'v" where
  "block_to_anthropic jv b = (case b of
       CbText text \<Rightarrow> jv_object jv [(''type'', jv_str jv ''text''), (''text'', jv_str jv text)]
     | CbToolUse i name input \<Rightarrow>
         jv_object jv [(''type'', jv_str jv ''tool_use''), (''id'', jv_str jv i), (''name'', jv_str jv name), (''input'', input)]
     | CbToolResult i content is_error \<Rightarrow>
         jv_object jv [(''type'', jv_str jv ''tool_result''), (''tool_use_id'', jv_str jv i),
           (''content'', jv_str jv content), (''is_error'', jv_bool jv is_error)])"

text \<open>\<open>None\<close> is the \<open>unreachable!\<close> of a system message.\<close>

definition message_to_anthropic :: "'v json_view \<Rightarrow> 'v message \<Rightarrow> 'v option" where
  "message_to_anthropic jv msg =
     map_option (\<lambda>role. jv_object jv [(''role'', jv_str jv role), (''content'',
         case ms_content msg of CtText s \<Rightarrow> jv_str jv s | CtBlocks blocks \<Rightarrow> jv_array jv (map (block_to_anthropic jv) blocks))])
       (case ms_role msg of RlUser \<Rightarrow> Some ''user'' | RlTool \<Rightarrow> Some ''user'' | RlAssistant \<Rightarrow> Some ''assistant''
        | RlSystem \<Rightarrow> None)"

definition tool_to_anthropic :: "'v json_view \<Rightarrow> 'v tool_definition \<Rightarrow> 'v" where
  "tool_to_anthropic jv td = jv_object jv
     [(''name'', jv_str jv (tf_name td)), (''description'', jv_str jv (tf_description td)), (''input_schema'', tf_input_schema td)]"

fun join_with :: "string \<Rightarrow> string list \<Rightarrow> string" where
  "join_with sep [] = []"
| "join_with sep [s] = s"
| "join_with sep (s # ss) = s @ sep @ join_with sep ss"

definition anthropic_request ::
  "'v json_view \<Rightarrow> 'v message list \<Rightarrow> string \<Rightarrow> u32 \<Rightarrow> 'v option \<Rightarrow> string list \<Rightarrow> 'v tool_definition list \<Rightarrow> bool \<Rightarrow> 'v option" where
  "anthropic_request jv messages model max_tokens temperature stop tools streaming =
     (let system_text = List.map_filter (\<lambda>m. as_text (ms_content m)) (filter (\<lambda>m. ms_role m = RlSystem) messages)
      in map_option (\<lambda>api_messages. jv_object jv
           ([(''model'', jv_str jv model), (''max_tokens'', jv_u32 jv max_tokens), (''messages'', jv_array jv api_messages),
             (''stream'', jv_bool jv streaming)]
            @ (if system_text \<noteq> [] then [(''system'', jv_str jv (join_with [CHR 0x0A, CHR 0x0A] system_text))] else [])
            @ (case temperature of None \<Rightarrow> [] | Some temp \<Rightarrow> [(''temperature'', temp)])
            @ (if stop \<noteq> [] then [(''stop_sequences'', jv_array jv (map (jv_str jv) stop))] else [])
            @ (if tools \<noteq> [] then [(''tools'', jv_array jv (map (tool_to_anthropic jv) tools))] else [])))
         (those (map (message_to_anthropic jv) (filter (\<lambda>m. ms_role m \<noteq> RlSystem) messages))))"

definition anthropic_block ::
  "'v json_view \<Rightarrow> 'v \<Rightarrow> string \<times> 'v tool_call list \<Rightarrow> string \<times> 'v tool_call list" where
  "anthropic_block jv block acc =
     (case acc of (text, tool_calls) \<Rightarrow>
        (let block_type = or_else (get_str jv block ''type'') [] in
         if block_type = ''text'' then (text @ or_else (get_str jv block ''text'') [], tool_calls)
         else if block_type = ''tool_use'' then
           (text, tool_calls @ [\<lparr>tc_id = or_else (get_str jv block ''id'') [], tc_name = or_else (get_str jv block ''name'') [],
              tc_arguments = or_else (jv_get jv block ''input'') (jv_object jv [])\<rparr>])
         else (text, tool_calls)))"

definition anthropic_usage :: "'v json_view \<Rightarrow> 'v \<Rightarrow> token_usage" where
  "anthropic_usage jv body =
     (let usage = jv_get jv body ''usage'' in
      \<lparr>tu_input_tokens = ucast (or_else (Option.bind usage (\<lambda>u. get_u64 jv u ''input_tokens'')) 0),
       tu_output_tokens = ucast (or_else (Option.bind usage (\<lambda>u. get_u64 jv u ''output_tokens'')) 0)\<rparr>)"

definition anthropic_response :: "'v json_view \<Rightarrow> 'v \<Rightarrow> ('v completion_result, llm_error) result" where
  "anthropic_response jv body =
     (let model = or_else (get_str jv body ''model'') ''unknown'' in
      case get_array jv body ''content'' of
        None \<Rightarrow> Err (llm_structural (''missing '' @ [CHR 0x27] @ ''content'' @ [CHR 0x27] @ '' array in response''))
      | Some content_blocks \<Rightarrow>
          (let (text, tool_calls) = fold (anthropic_block jv) content_blocks ([], []);
               usage = anthropic_usage jv body
           in Ok \<lparr>cr_content = text, cr_tool_calls = tool_calls, cr_usage = usage,
                  cr_cost = map_option (calculate_cost usage) (lookup_pricing model anthropic_pricing),
                  cr_model = model, cr_latency_ms = 0,
                  cr_truncated = (get_str jv body ''stop_reason'' = Some ''max_tokens'')\<rparr>))"

definition provider_error :: "'v json_view \<Rightarrow> u16 \<Rightarrow> 'v \<Rightarrow> llm_error" where
  "provider_error jv status body =
     (let error_type = or_else (Option.bind (jv_get jv body ''error'') (\<lambda>e. get_str jv e ''type'')) ''unknown_error'';
          message = or_else (Option.bind (jv_get jv body ''error'') (\<lambda>e. get_str jv e ''message'')) ''Unknown error''
      in (llm_from_status status message)\<lparr>le_code := Some error_type\<rparr>)"

definition known_models :: "model_info list" where
  "known_models =
     [\<lparr>mi_id = ''claude-opus-4-20250514'', mi_name = Some ''Claude Opus 4'', mi_max_context = Some 200000,
       mi_max_output = Some 32000, mi_supports_tools = True, mi_supports_streaming = True\<rparr>,
      \<lparr>mi_id = ''claude-sonnet-4-20250514'', mi_name = Some ''Claude Sonnet 4'', mi_max_context = Some 200000,
       mi_max_output = Some 16000, mi_supports_tools = True, mi_supports_streaming = True\<rparr>,
      \<lparr>mi_id = ''claude-haiku-4-20250514'', mi_name = Some ''Claude Haiku 4'', mi_max_context = Some 200000,
       mi_max_output = Some 8000, mi_supports_tools = True, mi_supports_streaming = True\<rparr>]"

section \<open>The OpenAI provider\<close>

fun block_text :: "'v content_block \<Rightarrow> string" where
  "block_text (CbText text) = text"
| "block_text _ = []"

definition openai_tool_use :: "'v json_view \<Rightarrow> 'v content_block \<Rightarrow> 'v option" where
  "openai_tool_use jv b = (case b of
       CbToolUse i name input \<Rightarrow> Some (jv_object jv [(''id'', jv_str jv i), (''type'', jv_str jv ''function''),
         (''function'', jv_object jv [(''name'', jv_str jv name), (''arguments'', jv_str jv (jv_to_string jv input))])])
     | _ \<Rightarrow> None)"

definition openai_role :: "role \<Rightarrow> string" where
  "openai_role r = (case r of RlSystem \<Rightarrow> ''system'' | RlUser \<Rightarrow> ''user'' | RlAssistant \<Rightarrow> ''assistant'' | RlTool \<Rightarrow> ''tool'')"

definition message_to_openai :: "'v json_view \<Rightarrow> 'v message \<Rightarrow> 'v" where
  "message_to_openai jv msg =
     (let role = openai_role (ms_role msg) in
      case ms_content msg of
        CtText s \<Rightarrow> jv_object jv [(''role'', jv_str jv role), (''content'', jv_str jv s)]
      | CtBlocks blocks \<Rightarrow>
          (let text = concat (map block_text blocks);
               other = (if ms_role msg = RlAssistant then
                   (let tool_calls = List.map_filter (openai_tool_use jv) blocks
                    in jv_object jv ([(''role'', jv_str jv ''assistant'')]
                         @ (if text \<noteq> [] then [(''content'', jv_str jv text)] else [])
                         @ (if tool_calls \<noteq> [] then [(''tool_calls'', jv_array jv tool_calls)] else [])))
                 else jv_object jv [(''role'', jv_str jv role), (''content'', jv_str jv text)])
           in case (ms_role msg, blocks) of
                (RlTool, CbToolResult tool_use_id content _ # _) \<Rightarrow>
                  jv_object jv [(''role'', jv_str jv ''tool''), (''tool_call_id'', jv_str jv tool_use_id),
                    (''content'', jv_str jv content)]
              | _ \<Rightarrow> other))"

definition tool_to_openai :: "'v json_view \<Rightarrow> 'v tool_definition \<Rightarrow> 'v" where
  "tool_to_openai jv td = jv_object jv
     [(''type'', jv_str jv ''function''),
      (''function'', jv_object jv [(''name'', jv_str jv (tf_name td)), (''description'', jv_str jv (tf_description td)),
        (''parameters'', tf_input_schema td)])]"

definition openai_request ::
  "'v json_view \<Rightarrow> 'v message list \<Rightarrow> string \<Rightarrow> u32 option \<Rightarrow> 'v option \<Rightarrow> string list \<Rightarrow> 'v tool_definition list \<Rightarrow> bool \<Rightarrow> 'v" where
  "openai_request jv messages model max_tokens temperature stop tools streaming =
     jv_object jv
       ([(''model'', jv_str jv model), (''messages'', jv_array jv (map (message_to_openai jv) messages)),
         (''stream'', jv_bool jv streaming)]
        @ (case max_tokens of None \<Rightarrow> [] | Some mx \<Rightarrow> [(''max_completion_tokens'', jv_u32 jv mx)])
        @ (case temperature of None \<Rightarrow> [] | Some temp \<Rightarrow> [(''temperature'', temp)])
        @ (if stop \<noteq> [] then [(''stop'', jv_array jv (map (jv_str jv) stop))] else [])
        @ (if tools \<noteq> [] then [(''tools'', jv_array jv (map (tool_to_openai jv) tools))] else [])
        @ (if streaming then [(''stream_options'', jv_object jv [(''include_usage'', jv_bool jv True)])] else []))"

definition openai_usage_of :: "'v json_view \<Rightarrow> 'v \<Rightarrow> token_usage" where
  "openai_usage_of jv body =
     (let usage = jv_get jv body ''usage'' in
      \<lparr>tu_input_tokens = ucast (or_else (Option.bind usage (\<lambda>u. get_u64 jv u ''prompt_tokens'')) 0),
       tu_output_tokens = ucast (or_else (Option.bind usage (\<lambda>u. get_u64 jv u ''completion_tokens'')) 0)\<rparr>)"

definition openai_tool_call :: "'v json_view \<Rightarrow> 'v \<Rightarrow> 'v tool_call" where
  "openai_tool_call jv tc =
     (let function = or_else (jv_get jv tc ''function'') (jv_object jv []);
          args_str = or_else (get_str jv function ''arguments'') ''{}''
      in \<lparr>tc_id = or_else (get_str jv tc ''id'') [], tc_name = or_else (get_str jv function ''name'') [],
          tc_arguments = or_else (jv_from_str jv args_str) (jv_object jv [])\<rparr>)"

definition openai_response :: "'v json_view \<Rightarrow> 'v \<Rightarrow> ('v completion_result, llm_error) result" where
  "openai_response jv body =
     (let model = or_else (get_str jv body ''model'') ''unknown'' in
      case Option.bind (get_array jv body ''choices'') first_elem of
        None \<Rightarrow> Err (llm_structural (''missing '' @ [CHR 0x27] @ ''choices'' @ [CHR 0x27] @ '' in response''))
      | Some choice \<Rightarrow> (case jv_get jv choice ''message'' of
          None \<Rightarrow> Err (llm_structural (''missing '' @ [CHR 0x27] @ ''message'' @ [CHR 0x27] @ '' in choice''))
        | Some message \<Rightarrow>
            (let usage = openai_usage_of jv body in
             Ok \<lparr>cr_content = or_else (get_str jv message ''content'') [],
                 cr_tool_calls = map (openai_tool_call jv) (or_else (get_array jv message ''tool_calls'') []),
                 cr_usage = usage, cr_cost = map_option (calculate_cost usage) (lookup_pricing model openai_pricing),
                 cr_model = model, cr_latency_ms = 0,
                 cr_truncated = (get_str jv choice ''finish_reason'' = Some ''length'')\<rparr>)))"

section \<open>The stub provider\<close>

datatype stub_matcher = SmPrefix string | SmHash string | SmContains string

record 'v stub_response =
  sr_content :: string
  sr_output_tokens :: u32
  sr_tool_calls :: "'v tool_call list"

record 'v stub_entry =
  sb_matcher :: stub_matcher
  sb_response :: "'v stub_response"

record 'v stub_fixtures =
  sf_version :: u32
  sf_default :: "'v stub_response option"
  sf_entries :: "'v stub_entry list"

definition from_yaml :: "(string \<Rightarrow> ('v stub_fixtures, string) result) \<Rightarrow> string \<Rightarrow> ('v stub_fixtures, llm_error) result" where
  "from_yaml reader yaml =
     (case reader yaml of
        Err e \<Rightarrow> Err (llm_structural (''stub fixture parse: '' @ e))
      | Ok parsed \<Rightarrow>
          if sf_version parsed \<noteq> 1 then
            Err (llm_structural (''stub fixture version '' @ show_nat (unat (sf_version parsed)) @ '': only version 1 is supported''))
          else Ok parsed)"

definition hash_hex :: "(string \<Rightarrow> bytes) \<Rightarrow> string \<Rightarrow> string" where
  "hash_hex sha s = concat (map hex_byte (sha s))"

text \<open>\<open>to_lowercase\<close> is compared with a digest in hexadecimal, so only the letters of ASCII matter.\<close>

definition lower_char :: "char \<Rightarrow> char" where
  "lower_char c = (if 65 \<le> (of_char c :: nat) \<and> (of_char c :: nat) \<le> 90 then char_of ((of_char c :: nat) + 32) else c)"

definition matcher_matches :: "(string \<Rightarrow> bytes) \<Rightarrow> stub_matcher \<Rightarrow> string \<Rightarrow> bool" where
  "matcher_matches sha m serialized = (case m of
       SmPrefix value \<Rightarrow> prefix value serialized
     | SmHash value \<Rightarrow> hash_hex sha serialized = map lower_char value
     | SmContains value \<Rightarrow> contains_str serialized value)"

definition fixtures_matches :: "(string \<Rightarrow> bytes) \<Rightarrow> 'v stub_fixtures \<Rightarrow> string \<Rightarrow> 'v stub_response option" where
  "fixtures_matches sha fx serialized =
     (case find (\<lambda>e. matcher_matches sha (sb_matcher e) serialized) (sf_entries fx) of
        Some e \<Rightarrow> Some (sb_response e)
      | None \<Rightarrow> sf_default fx)"

definition serialize_block :: "'v json_view \<Rightarrow> 'v content_block \<Rightarrow> string" where
  "serialize_block jv b = (case b of
       CbText text \<Rightarrow> text
     | CbToolUse _ name input \<Rightarrow> ''tool_use('' @ name @ '', '' @ jv_to_string jv input @ '')''
     | CbToolResult i content is_error \<Rightarrow>
         ''tool_result('' @ i @ '', '' @ content @ (if is_error then '', error'' else []) @ '')'') @ [CHR 0x0A]"

definition serialize_content :: "'v json_view \<Rightarrow> 'v content \<Rightarrow> string" where
  "serialize_content jv c = (case c of CtText s \<Rightarrow> s | CtBlocks blocks \<Rightarrow> concat (map (serialize_block jv) blocks))"

definition serialize_for_match :: "'v json_view \<Rightarrow> 'v message list \<Rightarrow> 'v tool_definition list \<Rightarrow> string" where
  "serialize_for_match jv messages tools =
     concat (map (\<lambda>msg. openai_role (ms_role msg) @ '':'' @ [CHR 0x0A] @ serialize_content jv (ms_content msg) @
       [CHR 0x0A] @ ''---'' @ [CHR 0x0A]) messages) @
     (if tools = [] then []
      else ''tools:'' @ [CHR 0x0A] @ concat (map (\<lambda>t. tf_name t @ '': '' @ tf_description t @ [CHR 0x0A]) tools))"

record 'v stub_adapter =
  sa_fixtures :: "'v stub_fixtures"
  sa_default_model :: string
  sa_token_delay_ms :: u64

definition resolve_response ::
  "'v json_view \<Rightarrow> (string \<Rightarrow> bytes) \<Rightarrow> 'v stub_adapter \<Rightarrow> 'v message list \<Rightarrow> 'v completion_options \<Rightarrow>
     ('v stub_response \<times> nat, llm_error) result" where
  "resolve_response jv sha a messages options =
     (let serialized = serialize_for_match jv messages (op_tools options) in
      case fixtures_matches sha (sa_fixtures a) serialized of
        Some resp \<Rightarrow> Ok (resp, length serialized)
      | None \<Rightarrow> Err (llm_structural (''stub: no fixture match for '' @ show_nat (length serialized) @ ''-char input (hash='' @
                  hash_hex sha serialized @ '')'')))"

definition resolved_model :: "'v stub_adapter \<Rightarrow> 'v completion_options \<Rightarrow> string" where
  "resolved_model a options = or_else (op_model options) (sa_default_model a)"

definition stub_complete ::
  "'v json_view \<Rightarrow> (string \<Rightarrow> bytes) \<Rightarrow> u64 \<Rightarrow> 'v stub_adapter \<Rightarrow> 'v message list \<Rightarrow> 'v completion_options \<Rightarrow>
     ('v completion_result, llm_error) result" where
  "stub_complete jv sha elapsed a messages options =
     (case resolve_response jv sha a messages options of
        Err e \<Rightarrow> Err e
      | Ok (response, serialized_len) \<Rightarrow>
          Ok \<lparr>cr_content = sr_content response,
              cr_tool_calls = map (\<lambda>tc. \<lparr>tc_id = tc_id tc, tc_name = tc_name tc, tc_arguments = tc_arguments tc\<rparr>) (sr_tool_calls response),
              cr_usage = \<lparr>tu_input_tokens = of_nat (serialized_len div 4), tu_output_tokens = sr_output_tokens response\<rparr>,
              cr_cost = None, cr_model = resolved_model a options, cr_latency_ms = elapsed, cr_truncated = False\<rparr>)"

text \<open>\<open>str::chars\<close>: a character is a byte and the continuation bytes after it.\<close>

function utf8_chars :: "string \<Rightarrow> string list" where
  "utf8_chars [] = []"
| "utf8_chars (c # cs) = (c # takeWhile is_continuation cs) # utf8_chars (dropWhile is_continuation cs)"
  by pat_completeness auto

termination utf8_chars
  by (relation "measure length") (auto simp: le_imp_less_Suc length_dropWhile_le)

definition stub_tool_events :: "'v json_view \<Rightarrow> nat \<times> 'v tool_call \<Rightarrow> stream_event list" where
  "stub_tool_events jv p = (case p of (i, tc) \<Rightarrow>
     [SvToolCallDelta (of_nat i) (Some (tc_id tc)) (Some (tc_name tc)) None,
      SvToolCallDelta (of_nat i) None None (Some (jv_to_string jv (tc_arguments tc)))])"

text \<open>The stream as the list of its events; the delays between them and the random request id are left out.\<close>

definition stub_complete_stream ::
  "'v json_view \<Rightarrow> (string \<Rightarrow> bytes) \<Rightarrow> 'v stub_adapter \<Rightarrow> 'v message list \<Rightarrow> 'v completion_options \<Rightarrow>
     (stream_event list \<times> string, llm_error) result" where
  "stub_complete_stream jv sha a messages options =
     (case resolve_response jv sha a messages options of
        Err e \<Rightarrow> Err e
      | Ok (response, serialized_len) \<Rightarrow>
          Ok (map SvContentDelta (utf8_chars (sr_content response))
              @ concat (map (stub_tool_events jv) (enumerate 0 (sr_tool_calls response)))
              @ [SvUsage \<lparr>tu_input_tokens = of_nat (serialized_len div 4), tu_output_tokens = sr_output_tokens response\<rparr>, SvDone],
              resolved_model a options))"

definition stub_models :: "'v stub_adapter \<Rightarrow> model_info list" where
  "stub_models a = [\<lparr>mi_id = sa_default_model a, mi_name = Some ''Stub (deterministic)'', mi_max_context = Some 1000000,
     mi_max_output = Some 1000000, mi_supports_tools = True, mi_supports_streaming = True\<rparr>]"

definition stub_health :: provider_health where
  "stub_health = \<lparr>ph_healthy = True, ph_latency_ms = Some 0, ph_error = None, ph_models_available = 1\<rparr>"

section \<open>Streaming and completing agree\<close>

lemma concat_utf8_chars: "concat (utf8_chars s) = s"
  by (induction s rule: utf8_chars.induct) simp_all

text \<open>What a consumer of a stream puts together.\<close>

definition stream_text :: "stream_event list \<Rightarrow> string" where
  "stream_text es = concat (map (\<lambda>e. case e of SvContentDelta d \<Rightarrow> d | _ \<Rightarrow> []) es)"

definition stream_usage :: "stream_event list \<Rightarrow> token_usage list" where
  "stream_usage es = List.map_filter (\<lambda>e. case e of SvUsage u \<Rightarrow> Some u | _ \<Rightarrow> None) es"

definition stream_call :: "u32 \<Rightarrow> stream_event list \<Rightarrow> (string \<times> string) list \<times> string" where
  "stream_call i es =
     (List.map_filter (\<lambda>e. case e of SvToolCallDelta j (Some x) (Some n) _ \<Rightarrow> if j = i then Some (x, n) else None | _ \<Rightarrow> None) es,
      concat (map (\<lambda>e. case e of SvToolCallDelta j _ _ (Some d) \<Rightarrow> if j = i then d else [] | _ \<Rightarrow> []) es))"

lemma stream_simps [simp]:
  "stream_text (xs @ ys) = stream_text xs @ stream_text ys" "stream_text [] = []"
  "stream_text (e # es) = (case e of SvContentDelta d \<Rightarrow> d | _ \<Rightarrow> []) @ stream_text es"
  "stream_usage (xs @ ys) = stream_usage xs @ stream_usage ys" "stream_usage [] = []"
  by (simp_all add: stream_text_def stream_usage_def List.map_filter_def)

lemma stream_deltas [simp]:
  "stream_text (map SvContentDelta ds) = concat ds" "stream_usage (map SvContentDelta ds) = []"
  "stream_text (concat (map (stub_tool_events jv) ps)) = []" "stream_usage (concat (map (stub_tool_events jv) ps)) = []"
proof -
  show "stream_text (map SvContentDelta ds) = concat ds" by (induction ds) simp_all
  show "stream_usage (map SvContentDelta ds) = []" by (induction ds) (simp_all add: stream_usage_def List.map_filter_simps)
  show "stream_text (concat (map (stub_tool_events jv) ps)) = []" by (induction ps) (auto simp: stub_tool_events_def)
  show "stream_usage (concat (map (stub_tool_events jv) ps)) = []"
    by (induction ps) (auto simp: stub_tool_events_def stream_usage_def List.map_filter_simps)
qed

lemma stream_call_append:
  "stream_call i (xs @ ys) = (fst (stream_call i xs) @ fst (stream_call i ys), snd (stream_call i xs) @ snd (stream_call i ys))"
  by (simp add: stream_call_def List.map_filter_def)

lemma stream_call_text: "stream_call i (map SvContentDelta ds) = ([], [])"
  by (induction ds) (simp_all add: stream_call_def List.map_filter_simps)

lemma stream_call_other:
  "(\<And>k tc. (k, tc) \<in> set ps \<Longrightarrow> (of_nat k :: u32) \<noteq> i) \<Longrightarrow> stream_call i (concat (map (stub_tool_events jv) ps)) = ([], [])"
proof (induction ps)
  case (Cons p ps)
  obtain k tc where p: "p = (k, tc)" by (cases p)
  have "(of_nat k :: u32) \<noteq> i" using Cons.prems [of k tc] by (simp add: p)
  moreover have "stream_call i (concat (map (stub_tool_events jv) ps)) = ([], [])"
    using Cons.prems by (intro Cons.IH) (auto simp: p)
  ultimately show ?case
    by (simp add: p stream_call_append) (simp add: stub_tool_events_def stream_call_def List.map_filter_simps)
qed (simp add: stream_call_def List.map_filter_simps)

lemma of_nat_u32_inject: "i < 2 ^ 32 \<Longrightarrow> j < 2 ^ 32 \<Longrightarrow> (of_nat i :: u32) = of_nat j \<longleftrightarrow> i = j"
  by (simp add: word_unat_eq_iff unsigned_of_nat take_bit_nat_eq_self)

lemma stream_call_at:
  assumes "k < length tcs" "length tcs < 2 ^ 32"
  shows "stream_call (of_nat k) (concat (map (stub_tool_events jv) (enumerate 0 tcs)))
    = ([(tc_id (tcs ! k), tc_name (tcs ! k))], jv_to_string jv (tc_arguments (tcs ! k)))"
proof -
  let ?e = "enumerate 0 tcs"
  have split: "?e = take k ?e @ (k, tcs ! k) # drop (Suc k) ?e"
    using id_take_nth_drop [of k ?e] assms(1) by (simp add: nth_enumerate_eq)
  have idx: "j < 2 ^ 32 \<and> j \<noteq> k" if "(j, tc) \<in> set (take k ?e) \<union> set (drop (Suc k) ?e)" for j tc
    using that assms by (auto simp: in_set_conv_nth nth_enumerate_eq)
  have k: "k < 2 ^ 32" using assms by simp
  have none: "stream_call (of_nat k) (concat (map (stub_tool_events jv) (take k ?e))) = ([], [])"
    "stream_call (of_nat k) (concat (map (stub_tool_events jv) (drop (Suc k) ?e))) = ([], [])"
    using idx k by (intro stream_call_other, subst of_nat_u32_inject, auto)+
  have one: "stream_call (of_nat k) (stub_tool_events jv (k, tcs ! k))
      = ([(tc_id (tcs ! k), tc_name (tcs ! k))], jv_to_string jv (tc_arguments (tcs ! k)))"
    by (simp add: stub_tool_events_def stream_call_def List.map_filter_simps)
  show ?thesis by (subst split) (simp add: stream_call_append none one)
qed

text \<open>C39. The stub's stream delivers what its completion returns: they fail together with the same error; otherwise the
  text deltas concatenate to the content, the deltas of each tool call give its id, name and printed arguments, the
  usage is reported exactly once, and \<open>Done\<close> is the last event and occurs only there.\<close>
theorem stub_stream_agrees:
  assumes "case resolve_response jv sha a messages options of Ok (r, n) \<Rightarrow> length (sr_tool_calls r) < 2 ^ 32 | Err _ \<Rightarrow> True"
  shows "case stub_complete jv sha elapsed a messages options of
      Err e \<Rightarrow> stub_complete_stream jv sha a messages options = Err e
    | Ok r \<Rightarrow> (\<exists>es. stub_complete_stream jv sha a messages options = Ok (es @ [SvDone], cr_model r)
        \<and> SvDone \<notin> set es \<and> stream_text es = cr_content r \<and> stream_usage es = [cr_usage r]
        \<and> (\<forall>k < length (cr_tool_calls r). stream_call (of_nat k) es =
             ([(tc_id (cr_tool_calls r ! k), tc_name (cr_tool_calls r ! k))],
              jv_to_string jv (tc_arguments (cr_tool_calls r ! k)))))"
proof (cases "resolve_response jv sha a messages options")
  case (Err e)
  then show ?thesis by (simp add: stub_complete_def stub_complete_stream_def)
next
  case (Ok x)
  obtain r n where x: "x = (r, n)" by (cases x)
  let ?u = "\<lparr>tu_input_tokens = of_nat (n div 4), tu_output_tokens = sr_output_tokens r\<rparr> :: token_usage"
  let ?es = "map SvContentDelta (utf8_chars (sr_content r)) @ concat (map (stub_tool_events jv) (enumerate 0 (sr_tool_calls r))) @ [SvUsage ?u]"
  have "SvDone \<notin> set ?es" by (auto simp: stub_tool_events_def)
  moreover have "stream_text ?es = sr_content r" "stream_usage ?es = [?u]"
    by (simp_all add: concat_utf8_chars) (simp add: stream_usage_def List.map_filter_simps)
  moreover have "stream_call (of_nat k) ?es = ([(tc_id (sr_tool_calls r ! k), tc_name (sr_tool_calls r ! k))],
      jv_to_string jv (tc_arguments (sr_tool_calls r ! k)))" if "k < length (sr_tool_calls r)" for k
    using stream_call_at [OF that, of jv] assms Ok x
    by (simp add: stream_call_append stream_call_text) (simp add: stream_call_def List.map_filter_simps)
  ultimately show ?thesis
    by (auto simp: stub_complete_def stub_complete_stream_def Ok x intro!: exI [of _ ?es])
qed

definition sample_view :: "nat json_view" where
  "sample_view = \<lparr>jv_from_str = (\<lambda>_. None), jv_to_string = show_nat, jv_get = (\<lambda>_ _. None), jv_as_str = (\<lambda>_. None),
     jv_as_u64 = (\<lambda>_. None), jv_as_bool = (\<lambda>_. None), jv_as_array = (\<lambda>_. None), jv_object = (\<lambda>_. 0), jv_array = (\<lambda>_. 0),
     jv_str = (\<lambda>_. 0), jv_u32 = (\<lambda>_. 0), jv_bool = (\<lambda>_. 0)\<rparr>"

definition sample_stub :: "nat stub_adapter" where
  "sample_stub = \<lparr>sa_fixtures = \<lparr>sf_version = 1, sf_default = Some \<lparr>sr_content = ''hi'', sr_output_tokens = 2,
     sr_tool_calls = [\<lparr>tc_id = ''c1'', tc_name = ''run'', tc_arguments = 7\<rparr>]\<rparr>, sf_entries = []\<rparr>,
     sa_default_model = ''m'', sa_token_delay_ms = 0\<rparr>"

definition sample_options :: "nat completion_options" where
  "sample_options = \<lparr>op_model = None, op_max_tokens = None, op_stop = [], op_tools = [], op_timeout_ms = None\<rparr>"

theorem stub_stream_agrees_witness:
  "\<exists>es. stub_complete_stream sample_view (\<lambda>_. []) sample_stub [message_user ''hello''] sample_options = Ok (es @ [SvDone], ''m'')
     \<and> stream_text es = ''hi'' \<and> stream_call 0 es = ([(''c1'', ''run'')], show_nat 7)"
proof -
  let ?r = "resolve_response sample_view (\<lambda>_. []) sample_stub [message_user ''hello''] sample_options"
  have r: "?r = Ok (\<lparr>sr_content = ''hi'', sr_output_tokens = 2, sr_tool_calls = [\<lparr>tc_id = ''c1'', tc_name = ''run'', tc_arguments = 7\<rparr>]\<rparr>,
      length (serialize_for_match sample_view [message_user ''hello''] []))"
    by (simp add: resolve_response_def sample_stub_def sample_options_def fixtures_matches_def Let_def)
  have "case ?r of Ok (s, n) \<Rightarrow> length (sr_tool_calls s) < 2 ^ 32 | Err _ \<Rightarrow> True" by (simp add: r)
  from stub_stream_agrees [where jv = sample_view and sha = "\<lambda>_. []" and a = sample_stub and
      messages = "[message_user ''hello'']" and options = sample_options and elapsed = 0, OF this]
  obtain es where "stub_complete_stream sample_view (\<lambda>_. []) sample_stub [message_user ''hello''] sample_options
      = Ok (es @ [SvDone], resolved_model sample_stub sample_options)"
    "stream_text es = ''hi''" "stream_call 0 es = ([(''c1'', ''run'')], jv_to_string sample_view 7)"
    by (auto simp: stub_complete_def r)
  moreover have "resolved_model sample_stub sample_options = ''m''" "jv_to_string sample_view 7 = show_nat 7"
    by (simp_all add: resolved_model_def sample_stub_def sample_options_def or_else_def sample_view_def)
  ultimately show ?thesis by auto
qed

section \<open>Requests\<close>

text \<open>System messages are filtered out first, so the \<open>unreachable!\<close> of the Anthropic provider is not reached.\<close>

lemma those_total: "(\<And>x. x \<in> set xs \<Longrightarrow> f x \<noteq> None) \<Longrightarrow> those (map f xs) \<noteq> None"
proof (induction xs)
  case (Cons x xs)
  then have "f x \<noteq> None" "those (map f xs) \<noteq> None" by simp_all
  then show ?case by (auto split: option.split)
qed simp

lemma anthropic_request_total: "anthropic_request jv messages model mx temp stop tools streaming \<noteq> None"
proof -
  have "those (map (message_to_anthropic jv) (filter (\<lambda>m. ms_role m \<noteq> RlSystem) messages)) \<noteq> None"
    by (rule those_total) (auto simp: message_to_anthropic_def split: role.splits)
  then show ?thesis by (simp add: anthropic_request_def Let_def)
qed

text \<open>
  A tool message with several results is sent to OpenAI with the first one only: the others leave no trace in the
  request.
\<close>

theorem openai_drops_results:
  "message_to_openai jv \<lparr>ms_role = RlTool, ms_content = CtBlocks (CbToolResult i c e # rest)\<rparr> =
   message_to_openai jv \<lparr>ms_role = RlTool, ms_content = CtBlocks [CbToolResult i c e']\<rparr>"
  by (simp add: message_to_openai_def Let_def)

text \<open>The final line of a local provider that carries usage ends the stream without a \<open>Done\<close> event.\<close>

lemma ndjson_usage_hides_done:
  assumes "jv_from_str jv s = Some v" "Option.bind (jv_get jv v ''done'') (jv_as_bool jv) = Some True"
    and "get_u64 jv v ''prompt_eval_count'' = Some p" "get_u64 jv v ''eval_count'' = Some e"
  shows "parse_ndjson_event jv s = Some (SvUsage \<lparr>tu_input_tokens = ucast p, tu_output_tokens = ucast e\<rparr>)"
  using assms by (simp add: parse_ndjson_event_def)

end
