(* ===== verification/Wacp_Orchestrator.thy ===== *)
theory Wacp_Orchestrator
  imports Wacp_Tree Wacp_Task_Graph Wacp_Migration Wacp_Integration
begin

text \<open>
  The coordinator (\<open>wacp-coordinator/src/orchestrator.rs\<close>) together with the workspace actors it
  spawns. The coordinator talks to an actor over a command channel held by a handle, agents talk to it
  over a second channel, and all actors report on one event channel. Channels are lists, first in first
  out. The model has no capacity bound on a channel, so a send never waits. The system below steps in
  every order the scheduler could choose; an actor sends the events of one input one by one, and takes
  its next input only after the last of them.
\<close>

section \<open>The coordinator\<close>

text \<open>A handle is the index of the actor it belongs to.\<close>

record coordinator =
  co_tree :: workspace_tree
  co_task_graph :: task_graph
  co_migration :: migration_coordinator
  co_handles :: "(string, nat) hmap"
  co_last_checkpoint :: "(string, checkpoint) hmap"

type_synonym sends = "(nat \<times> coordinator_command) list"

definition coordinator_new :: "workspace_id \<Rightarrow> user_id \<Rightarrow> coordinator" where
  "coordinator_new root_id owner =
     \<lparr>co_tree = tree_new root_id owner, co_task_graph = graph_new, co_migration = migration_new 60000,
      co_handles = [], co_last_checkpoint = []\<rparr>"

definition send_to :: "coordinator \<Rightarrow> workspace_id \<Rightarrow> coordinator_command \<Rightarrow> sends" where
  "send_to co wid cmd = (case hget (co_handles co) wid of None \<Rightarrow> [] | Some h \<Rightarrow> [(h, cmd)])"

text \<open>\<open>dispatch\<close>, with the handle of the actor spawned for it.\<close>

definition coord_dispatch :: "task_id \<Rightarrow> workspace_config \<Rightarrow> nat \<Rightarrow> coordinator \<Rightarrow> coordinator" where
  "coord_dispatch tid c h co =
     (let node = \<lparr>n_id = wc_id c, n_parent = Some (wc_parent c), n_children = [], n_owner = wc_owner c,
                  n_originator = wc_originator c, n_status = WsIdle, n_task_id = Some tid\<rparr>
      in co\<lparr>co_tree := snd (tree_insert node (co_tree co)), co_handles := hput (wc_id c) h (co_handles co)\<rparr>)"

definition auto_integrate :: "coordinator \<Rightarrow> workspace_id \<Rightarrow> sends" where
  "auto_integrate co wid =
     (case hget (co_handles co) wid of
        None \<Rightarrow> []
      | Some h \<Rightarrow>
          [(h, case hget (co_last_checkpoint co) wid of
                 Some cp \<Rightarrow>
                   (case integrate \<lparr>ir_workspace_id = wid, ir_strategy = Direct, ir_mode = NormalMode,
                                    ir_checkpoint = cp\<rparr> of
                      IrSuccess \<Rightarrow> CmdIntegrationSucceeded
                    | IrConflict _ \<Rightarrow> CmdConflictDetected
                    | IrFailed _ \<Rightarrow> CmdIntegrationFailed)
               | None \<Rightarrow> CmdIntegrationSucceeded)])"

fun handle_event :: "workspace_event \<Rightarrow> coordinator \<Rightarrow> (sends \<times> coordinator) option" where
  "handle_event (StateChanged wid f to) co =
     (let t1 = update_status wid to (co_tree co)
      in case (if to = WsFailed then map_option snd (cascade_failure wid t1) else Some t1) of
           None \<Rightarrow> None
         | Some t2 \<Rightarrow>
             let co' = co\<lparr>co_tree := t2\<rparr>
             in Some (if to = WsIntegrating then auto_integrate co' wid else [], co'))"
| "handle_event (CheckpointCreated cp) co =
     Some ([], co\<lparr>co_last_checkpoint := hput (cp_workspace_id cp) cp (co_last_checkpoint co)\<rparr>)"
| "handle_event (Terminated ar) co =
     Some ([], co\<lparr>co_tree := update_status (aw_id ar) (aw_terminal_state ar) (co_tree co),
                  co_handles := hdel (aw_id ar) (co_handles co),
                  co_last_checkpoint := hdel (aw_id ar) (co_last_checkpoint co)\<rparr>)"
| "handle_event (MigrationSnapshotEvent wid sn) co =
     Some ([], co\<lparr>co_migration := snd (set_snapshot wid sn (co_migration co))\<rparr>)"
| "handle_event _ co = Some ([], co)"

definition start_migration ::
  "migration_request \<Rightarrow> string \<Rightarrow> u64 \<Rightarrow> coordinator
     \<Rightarrow> (unit, migration_error) result \<times> sends \<times> coordinator" where
  "start_migration request old_agent now_ms co =
     (let wid = mr_workspace_id request
      in case tree_get (co_tree co) wid of
           None \<Rightarrow> (Err (MeWorkspaceNotFound wid), [], co)
         | Some n \<Rightarrow>
             (case migration_start request (n_status n) old_agent now_ms (co_migration co) of
                (Err e, mg) \<Rightarrow> (Err e, [], co\<lparr>co_migration := mg\<rparr>)
              | (Ok _, mg) \<Rightarrow> (Ok (), send_to co wid MigrateBegin, co\<lparr>co_migration := mg\<rparr>)))"

definition complete_migration :: "workspace_id \<Rightarrow> coordinator \<Rightarrow> migration_context option \<times> sends \<times> coordinator" where
  "complete_migration wid co =
     (case migration_get (co_migration co) wid of
        None \<Rightarrow> (None, [], co)
      | Some ctx \<Rightarrow>
          let restore_blocked = (mx_pre_migration_state ctx = WsBlocked);
              out = send_to co wid (MigrationComplete restore_blocked)
          in case migration_complete wid (co_migration co) of
               (Ok c, mg) \<Rightarrow> (Some c, out, co\<lparr>co_migration := mg\<rparr>)
             | (Err e, mg) \<Rightarrow> (None, out, co\<lparr>co_migration := mg\<rparr>))"

definition fail_migration ::
  "workspace_id \<Rightarrow> string \<Rightarrow> u32 \<Rightarrow> coordinator \<Rightarrow> migration_context option \<times> sends \<times> coordinator" where
  "fail_migration wid error step co =
     (case migration_fail wid error step (co_migration co) of
        (Err e, mg) \<Rightarrow> (None, [], co\<lparr>co_migration := mg\<rparr>)
      | (Ok ctx, mg) \<Rightarrow> (Some ctx, send_to co wid CmdMigrationFailed, co\<lparr>co_migration := mg\<rparr>))"

section \<open>Coordinator and actors\<close>

text \<open>
  A running actor: its state, its two input channels, the events of the current input that are not sent
  yet, and whether its loop still receives. A command sent to an actor whose loop has returned is lost.
\<close>

record cell =
  cl_actor :: actor
  cl_cmds :: "coordinator_command list"
  cl_msgs :: "agent_message list"
  cl_out :: "workspace_event list"
  cl_running :: bool

record system =
  sy_coord :: coordinator
  sy_cells :: "cell list"
  sy_events :: "workspace_event list"

abbreviation cell_id :: "cell \<Rightarrow> workspace_id" where "cell_id cl \<equiv> w_id (a_state (cl_actor cl))"
abbreviation cell_status :: "cell \<Rightarrow> workspace_state" where "cell_status cl \<equiv> w_status (a_state (cl_actor cl))"

definition cell_new :: "workspace_config \<Rightarrow> cell" where
  "cell_new c = \<lparr>cl_actor = actor_new c, cl_cmds = [], cl_msgs = [], cl_out = [], cl_running = True\<rparr>"

definition cell_push :: "coordinator_command \<Rightarrow> cell \<Rightarrow> cell" where
  "cell_push c cl = (if cl_running cl then cl\<lparr>cl_cmds := cl_cmds cl @ [c]\<rparr> else cl)"

text \<open>One turn of the loop in \<open>WorkspaceActor::run\<close>: commands have priority over agent messages.\<close>

definition actor_tick :: "cell \<Rightarrow> cell" where
  "actor_tick cl =
     (if \<not> cl_running cl \<or> cl_out cl \<noteq> [] then cl
      else if is_terminal (cell_status cl)
      then cl\<lparr>cl_out := [Terminated (archive (a_state (cl_actor cl)))], cl_running := False\<rparr>
      else case cl_cmds cl of
        c # cs \<Rightarrow> let (evs, a) = handle_coordinator_cmd c (cl_actor cl)
                   in cl\<lparr>cl_actor := a, cl_cmds := cs, cl_out := evs\<rparr>
      | [] \<Rightarrow> (case cl_msgs cl of
          m # ms \<Rightarrow> let (evs, a) = handle_agent_msg m (cl_actor cl)
                     in cl\<lparr>cl_actor := a, cl_msgs := ms, cl_out := evs\<rparr>
        | [] \<Rightarrow> cl))"

definition cell_upd :: "nat \<Rightarrow> (cell \<Rightarrow> cell) \<Rightarrow> system \<Rightarrow> system" where
  "cell_upd i f s = s\<lparr>sy_cells := (sy_cells s)[i := f (sy_cells s ! i)]\<rparr>"

definition post :: "sends \<Rightarrow> system \<Rightarrow> system" where
  "post out s = s\<lparr>sy_cells := fold (\<lambda>(h, c) cls. cls[h := cell_push c (cls ! h)]) out (sy_cells s)\<rparr>"

definition sys_new :: "workspace_id \<Rightarrow> user_id \<Rightarrow> system" where
  "sys_new root_id owner = \<lparr>sy_coord = coordinator_new root_id owner, sy_cells = [], sy_events = []\<rparr>"

definition sys_dispatch :: "task_id \<Rightarrow> workspace_config \<Rightarrow> system \<Rightarrow> system" where
  "sys_dispatch tid c s =
     s\<lparr>sy_coord := coord_dispatch tid c (length (sy_cells s)) (sy_coord s), sy_cells := sy_cells s @ [cell_new c]\<rparr>"

definition sys_emit :: "nat \<Rightarrow> system \<Rightarrow> system" where
  "sys_emit i s =
     (case cl_out (sy_cells s ! i) of
        [] \<Rightarrow> s
      | e # es \<Rightarrow> (cell_upd i (cl_out_update (\<lambda>_. es)) s)\<lparr>sy_events := sy_events s @ [e]\<rparr>)"

definition sys_event :: "system \<Rightarrow> system option" where
  "sys_event s =
     (case sy_events s of
        [] \<Rightarrow> None
      | e # es \<Rightarrow> map_option (\<lambda>(out, co). post out (s\<lparr>sy_coord := co, sy_events := es\<rparr>)) (handle_event e (sy_coord s)))"

definition sys_agent :: "nat \<Rightarrow> agent_message \<Rightarrow> system \<Rightarrow> system" where
  "sys_agent i m s = cell_upd i (\<lambda>cl. cl\<lparr>cl_msgs := cl_msgs cl @ [m]\<rparr>) s"

text \<open>A command over the handle of a workspace; the answer is whether the send succeeded.\<close>

definition sys_command :: "workspace_id \<Rightarrow> coordinator_command \<Rightarrow> system \<Rightarrow> bool \<times> system" where
  "sys_command wid c s =
     (case hget (co_handles (sy_coord s)) wid of
        None \<Rightarrow> (False, s)
      | Some h \<Rightarrow> (cl_running (sy_cells s ! h), post [(h, c)] s))"

definition route_envelope :: "workspace_id \<Rightarrow> envelope \<Rightarrow> system \<Rightarrow> bool \<times> system" where
  "route_envelope to env s = sys_command to (DeliverEnvelope env) s"

definition abort_workspace :: "workspace_id \<Rightarrow> system \<Rightarrow> bool \<times> system" where
  "abort_workspace wid s = sys_command wid Abort s"

definition run_coord :: "(coordinator \<Rightarrow> 'r \<times> sends \<times> coordinator) \<Rightarrow> system \<Rightarrow> 'r \<times> system" where
  "run_coord f s = (case f (sy_coord s) of (r, out, co) \<Rightarrow> (r, post out (s\<lparr>sy_coord := co\<rparr>)))"

text \<open>
  The steps of the system. A workspace is dispatched under a new id and a known parent, which the code
  leaves to the caller. Any command can be sent over a handle: besides routed envelopes and aborts the
  runtime sends suspension, resumption, budgets and conflict results that way.
\<close>

inductive sys_step :: "system \<Rightarrow> system \<Rightarrow> bool" where
  sys_dispatch: "\<not> hhas (tr_nodes (co_tree (sy_coord s))) (wc_id c) \<Longrightarrow>
     hhas (tr_nodes (co_tree (sy_coord s))) (wc_parent c) \<Longrightarrow> sys_step s (sys_dispatch tid c s)"
| sys_tick: "i < length (sy_cells s) \<Longrightarrow> sys_step s (cell_upd i actor_tick s)"
| sys_emit: "i < length (sy_cells s) \<Longrightarrow> sys_step s (sys_emit i s)"
| sys_event: "sys_event s = Some s' \<Longrightarrow> sys_step s s'"
| sys_agent: "i < length (sy_cells s) \<Longrightarrow> sys_step s (sys_agent i m s)"
| sys_command: "sys_step s (snd (sys_command wid c s))"
| sys_start: "sys_step s (snd (run_coord (start_migration r old now) s))"
| sys_complete: "sys_step s (snd (run_coord (complete_migration wid) s))"
| sys_fail: "sys_step s (snd (run_coord (fail_migration wid err st) s))"

section \<open>The tree follows the actors\<close>

text \<open>The statuses that pending events will write into the tree for a workspace, in order.\<close>

fun settings :: "workspace_id \<Rightarrow> workspace_event list \<Rightarrow> workspace_state list" where
  "settings w [] = []"
| "settings w (StateChanged v f t # evs) = (if v = w then t # settings w evs else settings w evs)"
| "settings w (Terminated ar # evs) = (if aw_id ar = w then aw_terminal_state ar # settings w evs else settings w evs)"
| "settings w (_ # evs) = settings w evs"

text \<open>An actor reports only about its own workspace.\<close>

fun about :: "workspace_id \<Rightarrow> workspace_event \<Rightarrow> bool" where
  "about w (StateChanged v f t) = (v = w)"
| "about w (Terminated ar) = (aw_id ar = w)"
| "about w _ = True"

lemma settings_append [simp]: "settings w (xs @ ys) = settings w xs @ settings w ys"
  by (induction xs rule: settings.induct) auto

lemma settings_other: "\<forall>e \<in> set evs. about v e \<Longrightarrow> w \<noteq> v \<Longrightarrow> settings w evs = []"
  by (induction evs rule: settings.induct) auto

lemma settings_changes:
  "\<forall>e \<in> set evs. about w e \<Longrightarrow> \<forall>x. Terminated x \<notin> set evs \<Longrightarrow> settings w evs = map snd (changes evs)"
  by (induction evs rule: changes.induct) auto

lemma chain_last: "chain s cs s' \<Longrightarrow> (if cs = [] then s' = s else last (map snd cs) = s')"
  by (induction s cs s' rule: chain.induct) (auto split: if_splits)

lemma about_transition: "e \<in> set (fst (actor_transition t a)) \<Longrightarrow> about (w_id (a_state a)) e"
  by (auto simp: actor_transition_def Let_def split: result.splits)

lemma about_cmd: "e \<in> set (fst (handle_coordinator_cmd c a)) \<Longrightarrow> about (w_id (a_state a)) e"
  using about_transition [of e _ a] about_transition [of e _ "a\<lparr>a_first_envelope_received := True\<rparr>"]
  by (cases c) (auto simp: Let_def case_prod_beta split: if_splits)

lemma about_msg: "e \<in> set (fst (handle_agent_msg m a)) \<Longrightarrow> about (w_id (a_state a)) e"
  using about_transition [of e AgentBlocked]
  by (cases m) (auto simp: handle_agent_msg_def handle_create_checkpoint_def push_checkpoint_def Let_def case_prod_beta
      split: if_splits option.splits dest: about_transition)

definition lag :: "workspace_tree \<Rightarrow> workspace_event list \<Rightarrow> cell \<Rightarrow> bool" where
  "lag t evs cl \<longleftrightarrow>
     (let ss = settings (cell_id cl) (evs @ cl_out cl)
      in if ss = [] then status_of t (cell_id cl) \<in> {Some (cell_status cl), Some WsFailed}
         else last ss = cell_status cl)"

lemma lag_cong:
  assumes "cell_id cl' = cell_id cl" "cell_status cl' = cell_status cl"
    "status_of t' (cell_id cl) = status_of t (cell_id cl)"
    "settings (cell_id cl) (evs' @ cl_out cl') = settings (cell_id cl) (evs @ cl_out cl)"
  shows "lag t' evs' cl' = lag t evs cl"
  unfolding lag_def assms ..

text \<open>A turn of the loop keeps the actor's identity and reports what it did.\<close>

lemma step_reports:
  assumes "step_ok a (evs, a')" "\<And>e. e \<in> set evs \<Longrightarrow> about (w_id (a_state a)) e"
  shows "w_id (a_state a') = w_id (a_state a) \<and> (\<forall>e \<in> set evs. about (w_id (a_state a)) e)
    \<and> (if settings (w_id (a_state a)) evs = [] then w_status (a_state a') = w_status (a_state a)
       else last (settings (w_id (a_state a)) evs) = w_status (a_state a'))"
proof -
  have "settings (w_id (a_state a)) evs = map snd (changes evs)"
    using assms by (intro settings_changes) (auto simp: step_ok_def)
  moreover have "chain (w_status (a_state a)) (changes evs) (w_status (a_state a'))"
    and "w_id (a_state a') = w_id (a_state a)"
    using assms(1) by (auto simp: step_ok_def grows_def ws_core_def)
  ultimately show ?thesis using chain_last assms(2) by fastforce
qed

lemma actor_tick_events:
  assumes "cl_out cl = []"
  shows "cell_id (actor_tick cl) = cell_id cl \<and> (\<forall>e \<in> set (cl_out (actor_tick cl)). about (cell_id cl) e)
    \<and> (if settings (cell_id cl) (cl_out (actor_tick cl)) = [] then cell_status (actor_tick cl) = cell_status cl
       else last (settings (cell_id cl) (cl_out (actor_tick cl))) = cell_status (actor_tick cl))"
proof (cases "\<not> cl_running cl \<or> is_terminal (cell_status cl)")
  case True
  then show ?thesis using assms by (auto simp: actor_tick_def archive_def)
next
  case False
  show ?thesis
  proof (cases "cl_cmds cl")
    case (Cons c cs)
    obtain evs a where r: "handle_coordinator_cmd c (cl_actor cl) = (evs, a)" by fastforce
    have "step_ok (cl_actor cl) (evs, a)" using step_ok_cmd [of "cl_actor cl" c] r by simp
    from step_reports [OF this] about_cmd [of _ c "cl_actor cl"] r False Cons assms show ?thesis
      by (simp add: actor_tick_def)
  next
    case Nil
    show ?thesis
    proof (cases "cl_msgs cl")
      case (Cons m ms)
      obtain evs a where r: "handle_agent_msg m (cl_actor cl) = (evs, a)" by fastforce
      have "step_ok (cl_actor cl) (evs, a)" using step_ok_msg [of "cl_actor cl" m] r by simp
      from step_reports [OF this] about_msg [of _ m "cl_actor cl"] r False Nil Cons assms show ?thesis
        by (simp add: actor_tick_def)
    qed (use False Nil assms in \<open>simp add: actor_tick_def\<close>)
  qed
qed

definition sys_inv :: "system \<Rightarrow> bool" where
  "sys_inv s \<longleftrightarrow> tree_inv (co_tree (sy_coord s))
     \<and> distinct (map cell_id (sy_cells s))
     \<and> (\<forall>w. settings w (sy_events s) \<noteq> [] \<longrightarrow> w \<in> cell_id ` set (sy_cells s))
     \<and> (\<forall>cl \<in> set (sy_cells s). hhas (tr_nodes (co_tree (sy_coord s))) (cell_id cl)
          \<and> (\<forall>e \<in> set (cl_out cl). about (cell_id cl) e) \<and> lag (co_tree (sy_coord s)) (sy_events s) cl)"

lemma sys_invD:
  assumes "sys_inv s"
  shows "tree_inv (co_tree (sy_coord s))" "distinct (map cell_id (sy_cells s))"
    and "settings w (sy_events s) \<noteq> [] \<Longrightarrow> w \<in> cell_id ` set (sy_cells s)"
    and "i < length (sy_cells s) \<Longrightarrow> hhas (tr_nodes (co_tree (sy_coord s))) (cell_id (sy_cells s ! i))"
    and "i < length (sy_cells s) \<Longrightarrow> e \<in> set (cl_out (sy_cells s ! i)) \<Longrightarrow> about (cell_id (sy_cells s ! i)) e"
    and "i < length (sy_cells s) \<Longrightarrow> lag (co_tree (sy_coord s)) (sy_events s) (sy_cells s ! i)"
  using assms unfolding sys_inv_def by auto

text \<open>Changing one cell: the other cells are as before.\<close>

lemma sys_inv_cell_upd:
  assumes inv: "sys_inv s" and i: "i < length (sy_cells s)"
    and same: "cell_id (f (sy_cells s ! i)) = cell_id (sy_cells s ! i)"
    and own: "\<And>e. e \<in> set (cl_out (f (sy_cells s ! i))) \<Longrightarrow> about (cell_id (sy_cells s ! i)) e"
    and ok: "lag (co_tree (sy_coord s)) (sy_events s) (f (sy_cells s ! i))"
  shows "sys_inv (cell_upd i f s)"
proof -
  let ?cs = "sy_cells s" and ?c = "f (sy_cells s ! i)"
  have ids: "map cell_id (?cs[i := ?c]) = map cell_id ?cs"
    using i same by (simp add: map_update list_update_same_conv)
  have old: "hhas (tr_nodes (co_tree (sy_coord s))) (cell_id (?cs ! i))" using sys_invD(4) [OF inv i] .
  have mem: "cl \<in> set (?cs[i := ?c]) \<Longrightarrow> cl = ?c \<or> cl \<in> set ?cs" for cl
    using set_update_subset_insert [of ?cs i ?c] by auto
  have img: "cell_id ` set (?cs[i := ?c]) = cell_id ` set ?cs"
    using arg_cong [OF ids, of set] by (simp only: set_map)
  show ?thesis
    using inv ids img same own ok old mem unfolding sys_inv_def cell_upd_def
    by simp metis
qed

lemma cell_push_frame [simp]:
  "cl_actor (cell_push c cl) = cl_actor cl" "cl_out (cell_push c cl) = cl_out cl"
  by (simp_all add: cell_push_def)

lemma sys_inv_push [keeps]:
  assumes inv: "sys_inv s"
  shows "sys_inv (cell_upd h (cell_push c) s)"
proof (cases "h < length (sy_cells s)")
  case True
  have "lag (co_tree (sy_coord s)) (sy_events s) (cell_push c (sy_cells s ! h))"
    using sys_invD(6) [OF inv True] lag_cong [of "cell_push c (sy_cells s ! h)" "sy_cells s ! h"] by simp
  then show ?thesis
    using sys_invD(5) [OF inv True] by (intro sys_inv_cell_upd [OF inv True]) simp_all
next
  case False
  then have "cell_upd h (cell_push c) s = s" by (simp add: cell_upd_def list_update_beyond)
  then show ?thesis using inv by simp
qed

lemma post_simps [simp]: "post [] s = s" "post ((h, c) # out) s = post out (cell_upd h (cell_push c) s)"
  by (simp_all add: post_def cell_upd_def)

lemma sys_inv_post [keeps]: "sys_inv s \<Longrightarrow> sys_inv (post out s)"
  by (induction out arbitrary: s) (auto simp: keeps)

lemma sys_inv_tick [keeps]:
  assumes inv: "sys_inv s" and i: "i < length (sy_cells s)"
  shows "sys_inv (cell_upd i actor_tick s)"
proof (cases "cl_out (sy_cells s ! i) = []")
  case True
  from actor_tick_events [OF True] sys_invD(6) [OF inv i] True show ?thesis
    by (intro sys_inv_cell_upd [OF inv i]) (auto simp: lag_def Let_def split: if_splits)
next
  case False
  then have "actor_tick (sy_cells s ! i) = sy_cells s ! i" by (simp add: actor_tick_def)
  then show ?thesis using inv by (simp add: cell_upd_def)
qed

lemma sys_inv_emit [keeps]:
  assumes inv: "sys_inv s" and i: "i < length (sy_cells s)"
  shows "sys_inv (sys_emit i s)"
proof (cases "cl_out (sy_cells s ! i)")
  case (Cons e es)
  let ?cs = "sy_cells s" and ?c = "sy_cells s ! i"
  let ?c' = "?c\<lparr>cl_out := es\<rparr>"
  have ids: "map cell_id (?cs[i := ?c']) = map cell_id ?cs"
    using i by (simp add: map_update list_update_same_conv)
  then have img: "cell_id ` set (?cs[i := ?c']) = cell_id ` set ?cs"
    by (metis set_map)
  have own: "about (cell_id ?c) x" if "x \<in> set (e # es)" for x
    using sys_invD(5) [OF inv i, of x] that Cons by simp
  have "settings w (sy_events s @ [e]) \<noteq> [] \<Longrightarrow> w \<in> cell_id ` set ?cs" for w
    using sys_invD(3) [OF inv, of w] settings_other [of "[e]" "cell_id ?c" w] own i by fastforce
  moreover have "hhas (tr_nodes (co_tree (sy_coord s))) (cell_id cl) \<and> (\<forall>e \<in> set (cl_out cl). about (cell_id cl) e)
      \<and> lag (co_tree (sy_coord s)) (sy_events s @ [e]) cl" if m: "cl \<in> set (?cs[i := ?c'])" for cl
  proof -
    from m obtain j where j: "j < length ?cs" "cl = (if j = i then ?c' else ?cs ! j)"
      by (auto simp: in_set_conv_nth nth_list_update)
    have other: "cell_id (?cs ! j) \<noteq> cell_id ?c" if "j \<noteq> i"
      using sys_invD(2) [OF inv] that i j(1) by (auto simp: distinct_conv_nth)
    have "settings (cell_id (?cs ! j)) [e] = []" if "j \<noteq> i"
      using settings_other [of "[e]" "cell_id ?c" "cell_id (?cs ! j)"] own other [OF that] by simp
    then have "settings (cell_id (?cs ! j)) ((sy_events s @ [e]) @ cl_out cl)
        = settings (cell_id (?cs ! j)) (sy_events s @ cl_out (?cs ! j))"
      using j(2) Cons settings_append [of "cell_id (?cs ! j)" "[e]" "cl_out cl"] by (cases "j = i") simp_all
    then have "lag (co_tree (sy_coord s)) (sy_events s @ [e]) cl = lag (co_tree (sy_coord s)) (sy_events s) (?cs ! j)"
      using j(2) by (intro lag_cong) auto
    then show ?thesis
      using sys_invD(4-6) [OF inv j(1)] j(2) own by (cases "j = i") auto
  qed
  ultimately show ?thesis
    using inv Cons ids img unfolding sys_inv_def sys_emit_def cell_upd_def by simp
qed (use inv in \<open>simp add: sys_emit_def\<close>)

text \<open>Handling an event: the tree takes the status reported, or fails descendants.\<close>

lemma cascade_returns:
  assumes "tree_inv t"
  shows "\<exists>rep t'. cascade_failure w t = Some (rep, t') \<and> tree_inv t' \<and> owner_of t' = owner_of t
    \<and> (\<forall>k. status_of t' k \<in> {status_of t k, Some WsFailed})"
proof (cases "hget (tr_nodes t) w")
  case None
  then show ?thesis using assms by (simp add: cascade_failure_def)
next
  case (Some n)
  from cascade_failure_spec [OF assms Some] show ?thesis by auto
qed

lemma hhas_owner: "hhas (tr_nodes t) w \<longleftrightarrow> owner_of t w \<noteq> None"
  by (simp add: hhas_def owner_of_def)

text \<open>The status an event writes for a workspace.\<close>

definition written :: "workspace_event \<Rightarrow> workspace_id \<Rightarrow> workspace_state option \<Rightarrow> workspace_state option" where
  "written e w old = (case settings w [e] of [] \<Rightarrow> old | t # _ \<Rightarrow> map_option (\<lambda>_. t) old)"

lemma handle_event_returns:
  assumes "tree_inv (co_tree co)"
  shows "\<exists>out co'. handle_event e co = Some (out, co') \<and> tree_inv (co_tree co')
    \<and> owner_of (co_tree co') = owner_of (co_tree co)
    \<and> (\<forall>w. status_of (co_tree co') w \<in> {written e w (status_of (co_tree co) w), Some WsFailed})"
proof (cases e)
  case (StateChanged v f t)
  let ?t1 = "update_status v t (co_tree co)"
  have inv1: "tree_inv ?t1" using assms by (rule tree_inv_update_status)
  show ?thesis
  proof (cases "t = WsFailed")
    case True
    from cascade_returns [OF inv1, of v] obtain rep t' where c: "cascade_failure v ?t1 = Some (rep, t')"
      "tree_inv t'" "owner_of t' = owner_of ?t1" "\<And>k. status_of t' k \<in> {status_of ?t1 k, Some WsFailed}" by blast
    have "handle_event e co = Some ([], co\<lparr>co_tree := t'\<rparr>)"
      using c(1) True by (simp add: StateChanged)
    moreover have "status_of t' w \<in> {written e w (status_of (co_tree co) w), Some WsFailed}" for w
      using c(4) [of w] True by (auto simp: StateChanged written_def)
    ultimately show ?thesis using c(2,3) by auto
  next
    case False
    then show ?thesis using inv1 by (auto simp: StateChanged written_def Let_def)
  qed
qed (use assms tree_inv_update_status in \<open>auto simp: written_def\<close>)

lemma sys_inv_event [keeps]:
  assumes inv: "sys_inv s" and ev: "sys_event s = Some s'"
  shows "sys_inv s'"
proof -
  let ?t = "co_tree (sy_coord s)"
  obtain e es where es: "sy_events s = e # es" using ev by (auto simp: sys_event_def split: list.splits)
  obtain out co' where h: "handle_event e (sy_coord s) = Some (out, co')" "tree_inv (co_tree co')"
    "owner_of (co_tree co') = owner_of ?t"
    "\<And>w. status_of (co_tree co') w \<in> {written e w (status_of ?t w), Some WsFailed}"
    using handle_event_returns [OF sys_invD(1) [OF inv], of e] by blast
  let ?s = "s\<lparr>sy_coord := co', sy_events := es\<rparr>"
  have cons: "settings w (e # xs) = settings w [e] @ settings w xs" for w xs
    using settings_append [of w "[e]" xs] by simp
  have "lag (co_tree co') es cl" if m: "cl \<in> set (sy_cells s)" for cl
  proof -
    have old: "lag ?t (e # es) cl" "hhas (tr_nodes ?t) (cell_id cl)"
      using inv m es by (auto simp: sys_inv_def)
    then obtain st where "status_of ?t (cell_id cl) = Some st" by (auto simp: hhas_def status_of_def)
    moreover have "length (settings (cell_id cl) [e]) \<le> 1" by (cases e) auto
    ultimately show ?thesis
      using old(1) h(4) [of "cell_id cl"] cons [of "cell_id cl" "es @ cl_out cl"]
      by (cases "settings (cell_id cl) [e]") (auto simp: lag_def written_def Let_def split: if_splits)
  qed
  moreover have "settings w es \<noteq> [] \<Longrightarrow> w \<in> cell_id ` set (sy_cells s)" for w
    using sys_invD(3) [OF inv, of w] es cons [of w es] by simp
  ultimately have "sys_inv ?s"
    using inv h(2,3) unfolding sys_inv_def hhas_owner by simp
  then show ?thesis
    using ev es h(1) sys_inv_post by (auto simp: sys_event_def)
qed

lemma sys_inv_coord:
  assumes "sys_inv s" "co_tree co = co_tree (sy_coord s)"
  shows "sys_inv (s\<lparr>sy_coord := co\<rparr>)"
  using assms by (simp add: sys_inv_def)

lemma sys_inv_run_coord [keeps]:
  assumes "sys_inv s" "co_tree (snd (snd (f (sy_coord s)))) = co_tree (sy_coord s)"
  shows "sys_inv (snd (run_coord f s))"
  using assms sys_inv_post [OF sys_inv_coord] by (simp add: run_coord_def split_beta)

lemma migration_calls_tree [simp]:
  "co_tree (snd (snd (start_migration r old now co))) = co_tree co"
  "co_tree (snd (snd (complete_migration wid co))) = co_tree co"
  "co_tree (snd (snd (fail_migration wid err st co))) = co_tree co"
  by (simp_all add: start_migration_def complete_migration_def fail_migration_def Let_def
      split: option.splits prod.splits result.splits)

lemma sys_inv_agent [keeps]:
  assumes inv: "sys_inv s" and i: "i < length (sy_cells s)"
  shows "sys_inv (sys_agent i m s)"
proof -
  let ?c = "sy_cells s ! i"
  have "lag (co_tree (sy_coord s)) (sy_events s) (?c\<lparr>cl_msgs := cl_msgs ?c @ [m]\<rparr>)"
    using sys_invD(6) [OF inv i] lag_cong [of "?c\<lparr>cl_msgs := cl_msgs ?c @ [m]\<rparr>" ?c] by simp
  then show ?thesis
    unfolding sys_agent_def using sys_invD(5) [OF inv i] by (intro sys_inv_cell_upd [OF inv i]) simp_all
qed

lemma sys_inv_command [keeps]: "sys_inv s \<Longrightarrow> sys_inv (snd (sys_command wid c s))"
  by (simp add: sys_command_def keeps split: option.splits)

lemma sys_inv_dispatch [keeps]:
  assumes inv: "sys_inv s" and new: "\<not> hhas (tr_nodes (co_tree (sy_coord s))) (wc_id c)"
    and par: "hhas (tr_nodes (co_tree (sy_coord s))) (wc_parent c)"
  shows "sys_inv (sys_dispatch tid c s)"
proof -
  let ?t = "co_tree (sy_coord s)"
  let ?n = "\<lparr>n_id = wc_id c, n_parent = Some (wc_parent c), n_children = [], n_owner = wc_owner c,
             n_originator = wc_originator c, n_status = WsIdle, n_task_id = Some tid\<rparr>"
  let ?t' = "snd (tree_insert ?n ?t)"
  have ok: "fst (tree_insert ?n ?t) = Ok ()" using new par by (simp add: tree_insert_def)
  have tree: "tree_inv ?t'" using sys_invD(1) [OF inv] ok by (rule tree_inv_insert) simp
  note eff = tree_insert_node [OF ok]
  have fresh: "cell_id cl \<noteq> wc_id c" if "cl \<in> set (sy_cells s)" for cl
    using inv that new by (auto simp: sys_inv_def)
  have "lag ?t' (sy_events s) cl" if "cl \<in> set (sy_cells s)" for cl
    using inv that fresh [OF that] eff(2) [of "cell_id cl"] lag_cong [of cl cl ?t' ?t] by (auto simp: sys_inv_def)
  moreover have none: "settings (wc_id c) (sy_events s) = []"
    using sys_invD(3) [OF inv, of "wc_id c"] fresh by force
  then have "lag ?t' (sy_events s) (cell_new c)"
    using eff(2) [of "wc_id c"] by (auto simp: lag_def cell_new_def actor_new_def workspace_new_def)
  moreover have id: "cell_id (cell_new c) = wc_id c" "cl_out (cell_new c) = []"
    by (simp_all add: cell_new_def actor_new_def workspace_new_def)
  moreover have "wc_id c \<notin> cell_id ` set (sy_cells s)" using fresh by force
  ultimately show ?thesis
    using inv tree eff(3) unfolding sys_inv_def sys_dispatch_def coord_dispatch_def
    by (auto simp: Let_def)
qed

lemma sys_step_inv: "sys_step s s' \<Longrightarrow> sys_inv s \<Longrightarrow> sys_inv s'"
  by (induction rule: sys_step.induct) (simp_all add: keeps)

lemma sys_reachable_inv: "sys_step\<^sup>*\<^sup>* (sys_new root owner) s \<Longrightarrow> sys_inv s"
proof (induction rule: rtranclp_induct)
  case base
  show ?case by (simp add: sys_inv_def sys_new_def coordinator_new_def tree_inv_new)
qed (rule sys_step_inv)


section \<open>Runs of the system\<close>

lemma sys_emit_all:
  "i < length (sy_cells s) \<Longrightarrow>
   sys_step\<^sup>*\<^sup>* s ((cell_upd i (cl_out_update (\<lambda>_. [])) s)\<lparr>sy_events := sy_events s @ cl_out (sy_cells s ! i)\<rparr>)"
proof (induction "cl_out (sy_cells s ! i)" arbitrary: s)
  case Nil
  have same: "(sy_cells s ! i)\<lparr>cl_out := []\<rparr> = sy_cells s ! i"
    using Nil(1) by (cases "sy_cells s ! i") simp
  then have "(cell_upd i (cl_out_update (\<lambda>_. [])) s)\<lparr>sy_events := sy_events s @ cl_out (sy_cells s ! i)\<rparr> = s"
    using Nil(1) by (simp add: cell_upd_def same)
  then show ?case by simp
next
  case (Cons e es)
  let ?s = "sys_emit i s"
  have s1: "?s = (cell_upd i (cl_out_update (\<lambda>_. es)) s)\<lparr>sy_events := sy_events s @ [e]\<rparr>"
    using Cons.hyps(2) [symmetric] by (simp add: sys_emit_def)
  have "sys_step s ?s" using Cons.prems by (rule sys_step.sys_emit)
  moreover have "sys_step\<^sup>*\<^sup>* ?s ((cell_upd i (cl_out_update (\<lambda>_. [])) ?s)\<lparr>sy_events := sy_events ?s @ cl_out (sy_cells ?s ! i)\<rparr>)"
    using Cons.prems by (intro Cons.hyps(1)) (simp_all add: s1 cell_upd_def)
  moreover have "(cell_upd i (cl_out_update (\<lambda>_. [])) ?s)\<lparr>sy_events := sy_events ?s @ cl_out (sy_cells ?s ! i)\<rparr>
      = (cell_upd i (cl_out_update (\<lambda>_. [])) s)\<lparr>sy_events := sy_events s @ cl_out (sy_cells s ! i)\<rparr>"
    using Cons.prems Cons.hyps(2) [symmetric] by (simp add: s1 cell_upd_def)
  ultimately show ?case by (metis converse_rtranclp_into_rtranclp)
qed

text \<open>A turn of an actor whose events are then all sent.\<close>

lemma sys_turn:
  assumes "i < length (sy_cells s)" "sy_events s = []" "actor_tick (sy_cells s ! i) = cl"
  shows "sys_step\<^sup>*\<^sup>* s (s\<lparr>sy_cells := (sy_cells s)[i := cl\<lparr>cl_out := []\<rparr>], sy_events := cl_out cl\<rparr>)"
proof -
  have "sys_step s (cell_upd i actor_tick s)" using assms(1) by (rule sys_step.sys_tick)
  moreover have "sys_step\<^sup>*\<^sup>* (cell_upd i actor_tick s)
      (s\<lparr>sy_cells := (sy_cells s)[i := cl\<lparr>cl_out := []\<rparr>], sy_events := cl_out cl\<rparr>)"
    using sys_emit_all [of i "cell_upd i actor_tick s"] assms by (simp add: cell_upd_def)
  ultimately show ?thesis by (rule converse_rtranclp_into_rtranclp)
qed

text \<open>The coordinator working off a list of events.\<close>

primrec handle_all :: "workspace_event list \<Rightarrow> coordinator \<Rightarrow> (sends \<times> coordinator) option" where
  "handle_all [] co = Some ([], co)"
| "handle_all (e # es) co =
     Option.bind (handle_event e co) (\<lambda>(out, co1). map_option (\<lambda>(out', co2). (out @ out', co2)) (handle_all es co1))"

lemma post_frame [simp]: "sy_coord (post out s) = sy_coord s" "sy_events (post out s) = sy_events s"
  by (simp_all add: post_def)

lemma post_append: "post (out @ out') s = post out' (post out s)"
  by (simp add: post_def)

lemma post_update:
  "(post out (s\<lparr>sy_coord := co, sy_events := es\<rparr>))\<lparr>sy_coord := co', sy_events := es'\<rparr>
     = post out (s\<lparr>sy_coord := co', sy_events := es'\<rparr>)"
  by (simp add: post_def)

lemma sys_handle_all:
  "sy_events s = evs \<Longrightarrow> handle_all evs (sy_coord s) = Some (out, co) \<Longrightarrow>
   sys_step\<^sup>*\<^sup>* s (post out (s\<lparr>sy_coord := co, sy_events := []\<rparr>))"
proof (induction evs arbitrary: s out)
  case Nil
  then have "out = []" "s\<lparr>sy_coord := co, sy_events := []\<rparr> = s" by auto
  then show ?case by (metis post_simps(1) rtranclp.rtrancl_refl)
next
  case (Cons e es)
  from Cons.prems(2) obtain out1 co1 out2 where h: "handle_event e (sy_coord s) = Some (out1, co1)"
    "handle_all es co1 = Some (out2, co)" "out = out1 @ out2" by (auto simp: bind_eq_Some_conv)
  let ?s1 = "post out1 (s\<lparr>sy_coord := co1, sy_events := es\<rparr>)"
  have "sys_step s ?s1" by (rule sys_step.sys_event) (simp add: sys_event_def Cons.prems h(1))
  moreover have "sys_step\<^sup>*\<^sup>* ?s1 (post out2 (?s1\<lparr>sy_coord := co, sy_events := []\<rparr>))"
    using h(2) by (intro Cons.IH) simp_all
  ultimately show ?case by (simp add: h(3) post_append post_update)
qed

text \<open>A round: a turn of an actor, and the coordinator's handling of all it reports.\<close>

lemma sys_round:
  assumes "i < length (sy_cells s)" "sy_events s = []" "actor_tick (sy_cells s ! i) = cl"
    "handle_all (cl_out cl) (sy_coord s) = Some (out, co)"
  shows "sys_step\<^sup>*\<^sup>* s (post out (s\<lparr>sy_cells := (sy_cells s)[i := cl\<lparr>cl_out := []\<rparr>], sy_coord := co, sy_events := []\<rparr>))"
proof -
  let ?s = "s\<lparr>sy_cells := (sy_cells s)[i := cl\<lparr>cl_out := []\<rparr>], sy_events := cl_out cl\<rparr>"
  have "sys_step\<^sup>*\<^sup>* ?s (post out (?s\<lparr>sy_coord := co, sy_events := []\<rparr>))"
    using assms(4) by (intro sys_handle_all) simp_all
  moreover have "?s\<lparr>sy_coord := co, sy_events := []\<rparr>
      = s\<lparr>sy_cells := (sy_cells s)[i := cl\<lparr>cl_out := []\<rparr>], sy_coord := co, sy_events := []\<rparr>" by simp
  ultimately show ?thesis using rtranclp_trans [OF sys_turn [OF assms(1-3)]] by metis
qed

lemma auto_integrate_succeeds:
  "hget (co_handles co) w = Some h \<Longrightarrow> auto_integrate co w = [(h, CmdIntegrationSucceeded)]"
  by (simp add: auto_integrate_def integrate_def split: option.split)

text \<open>
  A workspace at rest: its actor \<open>cl\<close> has nothing to send and no command to take, its handle is
  registered, the tree knows its status, and no event of any actor waits.
\<close>

definition at_rest :: "system \<Rightarrow> nat \<Rightarrow> cell \<Rightarrow> bool" where
  "at_rest s i cl \<longleftrightarrow> i < length (sy_cells s) \<and> sy_cells s ! i = cl \<and> sy_events s = [] \<and> cl_running cl
     \<and> cl_out cl = [] \<and> cl_cmds cl = [] \<and> hget (co_handles (sy_coord s)) (cell_id cl) = Some i
     \<and> status_of (co_tree (sy_coord s)) (cell_id cl) = Some (cell_status cl)"

lemmas at_restD = at_rest_def [THEN iffD1]

lemma tick_msg:
  assumes "cl_running cl" "cl_out cl = []" "\<not> is_terminal (cell_status cl)" "cl_cmds cl = []" "cl_msgs cl = m # ms"
    "handle_agent_msg m (cl_actor cl) = (evs, a)"
  shows "actor_tick cl = cl\<lparr>cl_actor := a, cl_msgs := ms, cl_out := evs\<rparr>"
  using assms by (simp add: actor_tick_def)

lemma tick_cmd:
  assumes "cl_running cl" "cl_out cl = []" "\<not> is_terminal (cell_status cl)" "cl_cmds cl = c # cs"
    "handle_coordinator_cmd c (cl_actor cl) = (evs, a)"
  shows "actor_tick cl = cl\<lparr>cl_actor := a, cl_cmds := cs, cl_out := evs\<rparr>"
  using assms by (simp add: actor_tick_def)

text \<open>The actor with another status.\<close>

definition set_status :: "workspace_state \<Rightarrow> actor \<Rightarrow> actor" where
  "set_status st a = a\<lparr>a_state := (a_state a)\<lparr>w_status := st\<rparr>\<rparr>"

lemma set_status_simps [simp]:
  "w_id (a_state (set_status st a)) = w_id (a_state a)" "w_status (a_state (set_status st a)) = st"
  "set_status st' (set_status st a) = set_status st' a"
  "capture_snapshot (a_state (set_status st a)) = capture_snapshot (a_state a)"
  by (simp_all add: set_status_def capture_snapshot_def)

text \<open>An actor told that integration succeeded is closed, then ends, and the coordinator forgets it.\<close>

lemma integration_closes:
  assumes i: "i < length (sy_cells s)" "sy_cells s ! i = cl" "sy_events s = []"
    and run: "cl_running cl" "cl_out cl = []" "cl_cmds cl = [CmdIntegrationSucceeded]" "cell_status cl = WsIntegrating"
  shows "sys_step\<^sup>*\<^sup>* s (s\<lparr>
      sy_cells := (sy_cells s)[i := cl\<lparr>cl_actor := set_status WsClosed (cl_actor cl), cl_cmds := [], cl_running := False, cl_out := []\<rparr>],
      sy_coord := (sy_coord s)\<lparr>
        co_tree := update_status (cell_id cl) WsClosed (update_status (cell_id cl) WsClosed (co_tree (sy_coord s))),
        co_handles := hdel (cell_id cl) (co_handles (sy_coord s)),
        co_last_checkpoint := hdel (cell_id cl) (co_last_checkpoint (sy_coord s))\<rparr>,
      sy_events := []\<rparr>)"
proof -
  let ?a = "set_status WsClosed (cl_actor cl)" and ?w = "cell_id cl"
  let ?co = "(sy_coord s)\<lparr>co_tree := update_status ?w WsClosed (co_tree (sy_coord s))\<rparr>"
  let ?s1 = "s\<lparr>sy_cells := (sy_cells s)[i := cl\<lparr>cl_actor := ?a, cl_cmds := [], cl_out := []\<rparr>], sy_coord := ?co, sy_events := []\<rparr>"
  have "handle_coordinator_cmd CmdIntegrationSucceeded (cl_actor cl) = ([StateChanged ?w WsIntegrating WsClosed], ?a)"
    using run(4) by (simp add: set_status_def actor_transition_def workspace_transition_def is_terminal_def Let_def)
  then have "actor_tick (sy_cells s ! i) = cl\<lparr>cl_actor := ?a, cl_cmds := [], cl_out := [StateChanged ?w WsIntegrating WsClosed]\<rparr>"
    using tick_cmd [OF run(1,2) _ run(3)] run(4) by (simp add: i(2) is_terminal_def)
  from sys_round [OF i(1,3) this, of "[]" ?co] have r1: "sys_step\<^sup>*\<^sup>* s ?s1"
    using run(2) by (simp add: Let_def)
  have tick: "actor_tick (sy_cells ?s1 ! i)
      = cl\<lparr>cl_actor := ?a, cl_cmds := [], cl_out := [Terminated (archive (a_state ?a))], cl_running := False\<rparr>"
    using i run by (simp add: actor_tick_def is_terminal_def)
  note r2 = sys_round [of i ?s1, OF _ _ tick]
  show ?thesis
    using rtranclp_trans [OF r1 r2] i run(2) by (simp add: archive_def)
qed


text \<open>
  The first half of a migration: the request is accepted, the actor suspends its agent, and the
  coordinator holds the snapshot. The second half: the actor goes back to the state it had.
\<close>

lemma migration_begins:
  assumes rest: "at_rest s i cl" and st: "cell_status cl \<in> {WsActive, WsBlocked}"
    and req: "mr_workspace_id req = cell_id cl" and free: "\<not> is_migrating (co_migration (sy_coord s)) (cell_id cl)"
  shows "\<exists>s1 s2 ctx. run_coord (start_migration req old now) s = (Ok (), s1) \<and> sys_step\<^sup>*\<^sup>* s1 s2
    \<and> at_rest s2 i (cl\<lparr>cl_actor := set_status WsMigrating (cl_actor cl)\<rparr>)
    \<and> migration_get (co_migration (sy_coord s2)) (cell_id cl) = Some ctx
    \<and> mx_pre_migration_state ctx = cell_status cl \<and> mx_snapshot ctx = Some (capture_snapshot (a_state (cl_actor cl)))"
proof -
  note r = rest [unfolded at_rest_def]
  let ?w = "cell_id cl" and ?a = "set_status WsMigrating (cl_actor cl)" and ?mg = "co_migration (sy_coord s)"
  let ?sn = "capture_snapshot (a_state (cl_actor cl))"
  let ?ctx = "\<lparr>mx_workspace_id = ?w, mx_pre_migration_state = cell_status cl, mx_old_agent = old,
    mx_new_agent = mr_new_agent req, mx_reason = mr_reason req, mx_snapshot = None, mx_started_at_ms = now\<rparr>"
  let ?co1 = "(sy_coord s)\<lparr>co_migration := ?mg\<lparr>mg_active := hput ?w ?ctx (mg_active ?mg)\<rparr>\<rparr>"
  let ?co2 = "?co1\<lparr>co_tree := update_status ?w WsMigrating (co_tree (sy_coord s)),
    co_migration := ?mg\<lparr>mg_active := hput ?w (?ctx\<lparr>mx_snapshot := Some ?sn\<rparr>) (hput ?w ?ctx (mg_active ?mg))\<rparr>\<rparr>"
  let ?s1 = "s\<lparr>sy_coord := ?co1, sy_cells := (sy_cells s)[i := cl\<lparr>cl_cmds := [MigrateBegin]\<rparr>]\<rparr>"
  let ?evs = "[StateChanged ?w (cell_status cl) WsMigrating, MigrationSnapshotEvent ?w ?sn]"
  let ?cl2 = "cl\<lparr>cl_actor := ?a, cl_cmds := [], cl_out := []\<rparr>"
  let ?s2 = "s\<lparr>sy_cells := (sy_cells s)[i := ?cl2], sy_coord := ?co2, sy_events := []\<rparr>"
  obtain n where n: "hget (tr_nodes (co_tree (sy_coord s))) ?w = Some n" "n_status n = cell_status cl"
    using r by (auto simp: status_of_def)
  have run: "run_coord (start_migration req old now) s = (Ok (), ?s1)"
    using r n st req free by (simp add: run_coord_def start_migration_def tree_get_def migration_start_def is_migrating_def
        send_to_def cell_upd_def cell_push_def Let_def)
  have "handle_coordinator_cmd MigrateBegin (cl_actor cl) = (?evs, ?a)"
    using st by (auto simp: set_status_def actor_transition_def workspace_transition_def is_terminal_def Let_def
        capture_snapshot_def)
  then have tick: "actor_tick (sy_cells ?s1 ! i) = cl\<lparr>cl_actor := ?a, cl_cmds := [], cl_out := ?evs\<rparr>"
    using r st tick_cmd [of "cl\<lparr>cl_cmds := [MigrateBegin]\<rparr>" MigrateBegin "[]" ?evs ?a] by (auto simp: is_terminal_def)
  have "handle_all ?evs ?co1 = Some ([], ?co2)"
    by (simp add: Let_def set_snapshot_def)
  with sys_round [of i ?s1, OF _ _ tick, of "[]" ?co2] have "sys_step\<^sup>*\<^sup>* ?s1 ?s2"
    using r by simp
  moreover have "?cl2 = cl\<lparr>cl_actor := ?a\<rparr>" using r by (cases cl) simp
  then have "at_rest ?s2 i (cl\<lparr>cl_actor := ?a\<rparr>)"
    using r by (simp add: at_rest_def)
  moreover have "migration_get (co_migration (sy_coord ?s2)) ?w = Some (?ctx\<lparr>mx_snapshot := Some ?sn\<rparr>)"
    by (simp add: migration_get_def)
  ultimately show ?thesis using run by fastforce
qed

lemma migration_ends:
  assumes rest: "at_rest s i cl" and st: "cell_status cl = WsMigrating"
    and ctx: "migration_get (co_migration (sy_coord s)) (cell_id cl) = Some ctx"
    and pre: "mx_pre_migration_state ctx \<in> {WsActive, WsBlocked}"
  shows "\<exists>s1 s2. run_coord (complete_migration (cell_id cl)) s = (Some ctx, s1) \<and> sys_step\<^sup>*\<^sup>* s1 s2
    \<and> at_rest s2 i (cl\<lparr>cl_actor := set_status (mx_pre_migration_state ctx) (cl_actor cl)\<rparr>)
    \<and> \<not> is_migrating (co_migration (sy_coord s2)) (cell_id cl)"
proof -
  note r = rest [unfolded at_rest_def]
  let ?w = "cell_id cl" and ?pre = "mx_pre_migration_state ctx"
  let ?cmd = "MigrationComplete (?pre = WsBlocked)" and ?a = "set_status ?pre (cl_actor cl)"
  let ?co1 = "(sy_coord s)\<lparr>co_migration := (co_migration (sy_coord s))\<lparr>mg_active := hdel ?w (mg_active (co_migration (sy_coord s)))\<rparr>\<rparr>"
  let ?co2 = "?co1\<lparr>co_tree := update_status ?w ?pre (co_tree (sy_coord s))\<rparr>"
  let ?s1 = "s\<lparr>sy_coord := ?co1, sy_cells := (sy_cells s)[i := cl\<lparr>cl_cmds := [?cmd]\<rparr>]\<rparr>"
  let ?cl2 = "cl\<lparr>cl_actor := ?a, cl_cmds := [], cl_out := []\<rparr>"
  let ?s2 = "s\<lparr>sy_cells := (sy_cells s)[i := ?cl2], sy_coord := ?co2, sy_events := []\<rparr>"
  have run: "run_coord (complete_migration ?w) s = (Some ctx, ?s1)"
    using r ctx by (simp add: run_coord_def complete_migration_def migration_get_def migration_complete_def send_to_def
        cell_upd_def cell_push_def)
  have "handle_coordinator_cmd ?cmd (cl_actor cl) = ([StateChanged ?w WsMigrating ?pre], ?a)"
    using st pre by (auto simp: set_status_def actor_transition_def workspace_transition_def is_terminal_def Let_def)
  then have tick: "actor_tick (sy_cells ?s1 ! i) = cl\<lparr>cl_actor := ?a, cl_cmds := [], cl_out := [StateChanged ?w WsMigrating ?pre]\<rparr>"
    using r st tick_cmd [of "cl\<lparr>cl_cmds := [?cmd]\<rparr>" ?cmd "[]"] by (simp add: is_terminal_def)
  have "handle_all [StateChanged ?w WsMigrating ?pre] ?co1 = Some ([], ?co2)"
    using pre by (auto simp: Let_def)
  with sys_round [of i ?s1, OF _ _ tick, of "[]" ?co2] have "sys_step\<^sup>*\<^sup>* ?s1 ?s2"
    using r by simp
  moreover have "?cl2 = cl\<lparr>cl_actor := ?a\<rparr>" using r by (cases cl) simp
  then have "at_rest ?s2 i (cl\<lparr>cl_actor := ?a\<rparr>)"
    using r by (simp add: at_rest_def)
  moreover have "\<not> is_migrating (co_migration (sy_coord ?s2)) ?w" by (simp add: is_migrating_def hhas_def)
  ultimately show ?thesis using run by blast
qed


section \<open>Concrete instances\<close>

text \<open>A workspace \<open>w\<close> below the root, dispatched and then put into a given status.\<close>

definition sample_cell :: "workspace_state \<Rightarrow> agent_message list \<Rightarrow> cell" where
  "sample_cell st ms = (cell_new sample_config)\<lparr>cl_actor := set_status st (actor_new sample_config), cl_msgs := ms\<rparr>"

definition sample_system :: "workspace_state \<Rightarrow> agent_message list \<Rightarrow> system" where
  "sample_system st ms =
     (let s = sys_dispatch ''t'' sample_config (sys_new ''r'' ''u'')
      in s\<lparr>sy_cells := [sample_cell st ms],
           sy_coord := (sy_coord s)\<lparr>co_tree := update_status ''w'' st (co_tree (sy_coord s))\<rparr>\<rparr>)"

lemma sample_at_rest: "at_rest (sample_system st ms) 0 (sample_cell st ms)"
  by (simp add: at_rest_def sample_system_def sample_cell_def sys_dispatch_def sys_new_def coord_dispatch_def
      coordinator_new_def cell_new_def actor_new_def workspace_new_def sample_config_def set_status_def tree_insert_def
      tree_new_def status_of_def update_status_def Let_def hupd_def hhas_def)

lemma sample_cell_simps:
  "cell_id (sample_cell st ms) = ''w''" "cell_status (sample_cell st ms) = st" "cl_msgs (sample_cell st ms) = ms"
  by (simp_all add: sample_cell_def cell_new_def actor_new_def workspace_new_def sample_config_def set_status_def)




text \<open>
  A gap. The cascade of a failure marks the descendants failed in the tree but sends them nothing: their
  actors run on, and the next status one of them reports takes the place of \<open>Failed\<close> in the tree.
\<close>

theorem cascade_leaves_actors:
  assumes inv: "tree_inv (co_tree co)" and n: "hget (tr_nodes (co_tree co)) w = Some n"
    and d: "desc_rel (co_tree co) w k" "owner_of (co_tree co) k = Some (n_owner n)"
  shows "\<exists>co1. handle_event (StateChanged w f WsFailed) co = Some ([], co1)
    \<and> status_of (co_tree co1) k = Some WsFailed
    \<and> (\<exists>co2. handle_event (StateChanged k WsActive WsBlocked) co1 = Some ([], co2)
          \<and> status_of (co_tree co2) k = Some WsBlocked)"
proof -
  let ?t = "update_status w WsFailed (co_tree co)"
  have n1: "hget (tr_nodes ?t) w = Some (n\<lparr>n_status := WsFailed\<rparr>)" using n by (simp add: hget_update_status)
  from cascade_failure_spec [OF tree_inv_update_status [OF inv] n1] obtain rep t' where
    "cascade_failure w ?t = Some (rep, t')" "status_of t' k = Some WsFailed" using d by auto
  then show ?thesis by (simp add: Let_def)
qed

end
