(* ===== verification/Wacp_Taxonomy.thy ===== *)
theory Wacp_Taxonomy
  imports Wacp_Types
begin

text \<open>
  The taxonomy loader (\<open>wacp-taxonomy\<close>: \<open>definition.rs\<close>, \<open>error.rs\<close>, \<open>resolved.rs\<close>, \<open>loader.rs\<close>, \<open>lib.rs\<close>).
  A deployment may derive roles and add envelope and checkpoint types; the loader validates the definition and
  builds the tables of the permission engine. Parsing of YAML and JSON is outside: the model starts at the
  parsed definition. Strings are sequences of UTF-8 bytes.
\<close>

section \<open>Definitions and resolved taxonomies\<close>

record role_definition =
  rd_name :: string
  rd_extends :: string
  rd_add :: "string list"
  rd_remove :: "string list"
  rd_checkpoint_types :: "string list option"

record envelope_permission =
  ep_sender_role :: string
  ep_receiver_role :: string

record envelope_type_definition =
  et_name :: string
  et_permissions :: "envelope_permission list"

record checkpoint_type_definition =
  ct_name :: string
  ct_permitted_roles :: "string list"

record taxonomy_definition =
  td_id :: string
  td_version :: string
  td_protocol_version :: string
  td_roles :: "role_definition list"
  td_envelope_types :: "envelope_type_definition list"
  td_checkpoint_types :: "checkpoint_type_definition list"

datatype taxonomy_error =
  TeParseError string
| TeProtocolVersionMismatch string string
| TeDuplicateRoleName string
| TeDuplicateEnvelopeType string
| TeDuplicateCheckpointType string
| TeBaseNameCollision string
| TeInvalidInheritance string string
| TePrivilegeEscalation string string
| TeCrossRegistryMissing string string
| TeEnvelopeRoleNotFound string string
| TeCheckpointRoleNotFound string string
| TeEmptyPermissions string
| TeEmptyRoleList string

text \<open>The set of checkpoint types of a role is iterated over, so it is a list without duplicates.\<close>

record resolved_role =
  rr_name :: string
  rr_base :: base_role
  rr_capabilities :: "string set"
  rr_checkpoint_types :: "string list"

record envelope_permission_row =
  er_sender_role :: string
  er_envelope_type :: string
  er_receiver_role :: string

record taxonomy =
  tx_id :: string
  tx_version :: string
  tx_protocol_version :: string
  tx_resolved_roles :: "(string, resolved_role) hmap"
  tx_envelope_types :: "string set"
  tx_envelope_permissions :: "envelope_permission_row list"
  tx_checkpoint_types :: "(string, string set) hmap"

section \<open>Base definitions\<close>

definition base_roles :: "string list" where
  "base_roles = [''coordinator'', ''worker'', ''observer'']"

definition base_envelope_types :: "string list" where
  "base_envelope_types = [''directive'', ''feedback'', ''query'']"

definition base_checkpoint_names :: "string list" where
  "base_checkpoint_names = [''artifact'', ''observation'']"

definition coordinator_capabilities :: "string list" where
  "coordinator_capabilities =
     [''create_workspace'', ''perform_integration'', ''manage_budgets'', ''abort_workspace'', ''assign_roles'']"

text \<open>The arrow in the first capability is one character, three bytes in UTF-8.\<close>

definition base_capabilities :: "base_role \<Rightarrow> string set" where
  "base_capabilities role = (case role of
     Worker \<Rightarrow> {''send: query '' @ [CHR 0xE2, CHR 0x86, CHR 0x92] @ '' coordinator'', ''create: artifact''}
   | Observer \<Rightarrow> {''create: observation''}
   | Coordinator \<Rightarrow> {})"

definition base_checkpoint_types :: "base_role \<Rightarrow> string list" where
  "base_checkpoint_types role =
     (case role of Worker \<Rightarrow> [''artifact''] | Observer \<Rightarrow> [''observation''] | Coordinator \<Rightarrow> [])"

definition mk_row :: "string \<Rightarrow> string \<Rightarrow> string \<Rightarrow> envelope_permission_row" where
  "mk_row s t r = \<lparr>er_sender_role = s, er_envelope_type = t, er_receiver_role = r\<rparr>"

definition base_permission_rows :: "envelope_permission_row list" where
  "base_permission_rows =
     [mk_row ''coordinator'' ''directive'' ''worker'', mk_row ''coordinator'' ''feedback'' ''worker'',
      mk_row ''worker'' ''query'' ''coordinator'']"

section \<open>Validation\<close>

definition is_known_role :: "taxonomy_definition \<Rightarrow> string \<Rightarrow> bool" where
  "is_known_role def name \<longleftrightarrow> name \<in> set base_roles \<or> name \<in> rd_name ` set (td_roles def)"

definition check_version :: "taxonomy_definition \<Rightarrow> string \<Rightarrow> taxonomy_error option" where
  "check_version def pv =
     (if td_protocol_version def \<noteq> pv then Some (TeProtocolVersionMismatch pv (td_protocol_version def)) else None)"

definition check_base_names :: "string list \<Rightarrow> string list \<Rightarrow> taxonomy_error option" where
  "check_base_names base names =
     first_error (map (\<lambda>n. if n \<in> set base then Some (TeBaseNameCollision n) else None) names)"

definition check_inheritance :: "taxonomy_definition \<Rightarrow> taxonomy_error option" where
  "check_inheritance def = first_error (map (\<lambda>role.
     if rd_extends role = ''worker'' \<or> rd_extends role = ''observer'' then None
     else Some (TeInvalidInheritance (rd_name role) (rd_extends role))) (td_roles def))"

definition check_escalation :: "taxonomy_definition \<Rightarrow> taxonomy_error option" where
  "check_escalation def = first_error (map (\<lambda>role. first_error (map (\<lambda>cap. first_error (map (\<lambda>coord_cap.
     if contains_str cap coord_cap then Some (TePrivilegeEscalation (rd_name role) cap) else None)
     coordinator_capabilities)) (rd_add role))) (td_roles def))"

definition check_registry :: "taxonomy_definition \<Rightarrow> taxonomy_error option" where
  "check_registry def = first_error (map (\<lambda>role. case rd_checkpoint_types role of
     None \<Rightarrow> None
   | Some overrides \<Rightarrow> first_error (map (\<lambda>n.
       if n \<notin> set base_checkpoint_names \<and> n \<notin> ct_name ` set (td_checkpoint_types def)
       then Some (TeCrossRegistryMissing (rd_name role) n) else None) overrides)) (td_roles def))"

definition check_envelope_roles :: "taxonomy_definition \<Rightarrow> taxonomy_error option" where
  "check_envelope_roles def = first_error (map (\<lambda>et.
     if et_permissions et = [] then Some (TeEmptyPermissions (et_name et))
     else first_error (map (\<lambda>perm.
       if \<not> is_known_role def (ep_sender_role perm) then Some (TeEnvelopeRoleNotFound (et_name et) (ep_sender_role perm))
       else if \<not> is_known_role def (ep_receiver_role perm)
            then Some (TeEnvelopeRoleNotFound (et_name et) (ep_receiver_role perm))
       else None) (et_permissions et))) (td_envelope_types def))"

definition check_checkpoint_roles :: "taxonomy_definition \<Rightarrow> taxonomy_error option" where
  "check_checkpoint_roles def = first_error (map (\<lambda>ct.
     if ct_permitted_roles ct = [] then Some (TeEmptyRoleList (ct_name ct))
     else first_error (map (\<lambda>role.
       if \<not> is_known_role def role then Some (TeCheckpointRoleNotFound (ct_name ct) role) else None)
       (ct_permitted_roles ct))) (td_checkpoint_types def))"

definition validate :: "taxonomy_definition \<Rightarrow> string \<Rightarrow> taxonomy_error option" where
  "validate def pv = first_error
     [check_version def pv,
      map_option TeDuplicateRoleName (first_dup (map rd_name (td_roles def)) {}),
      check_base_names base_roles (map rd_name (td_roles def)),
      map_option TeDuplicateEnvelopeType (first_dup (map et_name (td_envelope_types def)) {}),
      check_base_names base_envelope_types (map et_name (td_envelope_types def)),
      map_option TeDuplicateCheckpointType (first_dup (map ct_name (td_checkpoint_types def)) {}),
      check_base_names base_checkpoint_names (map ct_name (td_checkpoint_types def)),
      check_inheritance def,
      check_escalation def,
      check_registry def,
      check_envelope_roles def,
      check_checkpoint_roles def]"

section \<open>Building the taxonomy\<close>

text \<open>\<open>None\<close> is the \<open>unreachable!()\<close> arm, a panic.\<close>

definition resolve_def :: "role_definition \<Rightarrow> resolved_role option" where
  "resolve_def rd =
     map_option (\<lambda>base.
       \<lparr>rr_name = rd_name rd, rr_base = base,
        rr_capabilities = (base_capabilities base - set (rd_remove rd)) \<union> set (rd_add rd),
        rr_checkpoint_types = (case rd_checkpoint_types rd of
            Some overrides \<Rightarrow> remdups overrides | None \<Rightarrow> base_checkpoint_types base)\<rparr>)
     (if rd_extends rd = ''worker'' then Some Worker
      else if rd_extends rd = ''observer'' then Some Observer else None)"

definition resolved_map :: "resolved_role list \<Rightarrow> (string, resolved_role) hmap" where
  "resolved_map rs = foldl (\<lambda>acc r. hput (rr_name r) r acc) [] rs"

definition permission_rows :: "taxonomy_definition \<Rightarrow> envelope_permission_row list" where
  "permission_rows def = base_permission_rows @
     concat (map (\<lambda>et. map (\<lambda>p. mk_row (ep_sender_role p) (et_name et) (ep_receiver_role p)) (et_permissions et))
       (td_envelope_types def))"

definition custom_table :: "taxonomy_definition \<Rightarrow> (string, string set) hmap" where
  "custom_table def =
     foldl (\<lambda>acc ct. hput (ct_name ct) (set (ct_permitted_roles ct)) acc)
       [(''artifact'', {''worker''}), (''observation'', {''observer''})] (td_checkpoint_types def)"

definition add_permitted :: "string \<Rightarrow> (string, string set) hmap \<Rightarrow> string \<Rightarrow> (string, string set) hmap" where
  "add_permitted role table ct = hput ct (insert role (case hget table ct of None \<Rightarrow> {} | Some rs \<Rightarrow> rs)) table"

definition checkpoint_table :: "taxonomy_definition \<Rightarrow> (string, resolved_role) hmap \<Rightarrow> (string, string set) hmap" where
  "checkpoint_table def roles =
     foldl (\<lambda>table r. foldl (add_permitted (rr_name r)) table (rr_checkpoint_types r)) (custom_table def) (hvals roles)"

definition load :: "taxonomy_definition \<Rightarrow> string \<Rightarrow> (taxonomy, taxonomy_error) result option" where
  "load def pv = (case validate def pv of
     Some e \<Rightarrow> Some (Err e)
   | None \<Rightarrow> map_option (\<lambda>rs. let roles = resolved_map rs in
       Ok \<lparr>tx_id = td_id def, tx_version = td_version def, tx_protocol_version = td_protocol_version def,
           tx_resolved_roles = roles,
           tx_envelope_types = set base_envelope_types \<union> et_name ` set (td_envelope_types def),
           tx_envelope_permissions = permission_rows def,
           tx_checkpoint_types = checkpoint_table def roles\<rparr>)
       (those (map resolve_def (td_roles def))))"

text \<open>The empty taxonomy; \<open>unwrap\<close> panics on an error.\<close>

definition taxonomy_empty :: "string \<Rightarrow> taxonomy option" where
  "taxonomy_empty pv =
     (case load \<lparr>td_id = ''empty'', td_version = ''0.0.0'', td_protocol_version = pv, td_roles = [],
                 td_envelope_types = [], td_checkpoint_types = []\<rparr> pv of
        Some (Ok t) \<Rightarrow> Some t | _ \<Rightarrow> None)"

definition is_valid_role :: "taxonomy \<Rightarrow> string \<Rightarrow> bool" where
  "is_valid_role tx name \<longleftrightarrow>
     name = ''coordinator'' \<or> name = ''worker'' \<or> name = ''observer'' \<or> hhas (tx_resolved_roles tx) name"

definition is_valid_envelope_type :: "taxonomy \<Rightarrow> string \<Rightarrow> bool" where
  "is_valid_envelope_type tx name \<longleftrightarrow> name \<in> tx_envelope_types tx"

definition is_valid_checkpoint_type :: "taxonomy \<Rightarrow> string \<Rightarrow> bool" where
  "is_valid_checkpoint_type tx name \<longleftrightarrow> hhas (tx_checkpoint_types tx) name"

definition resolve_role :: "taxonomy \<Rightarrow> string \<Rightarrow> resolved_role option" where
  "resolve_role tx name = hget (tx_resolved_roles tx) name"

section \<open>Which definitions are accepted\<close>

text \<open>The rules of a valid definition, without an order among them.\<close>

definition valid_definition :: "taxonomy_definition \<Rightarrow> string \<Rightarrow> bool" where
  "valid_definition def pv \<longleftrightarrow>
     td_protocol_version def = pv
     \<and> distinct (map rd_name (td_roles def)) \<and> rd_name ` set (td_roles def) \<inter> set base_roles = {}
     \<and> distinct (map et_name (td_envelope_types def))
     \<and> et_name ` set (td_envelope_types def) \<inter> set base_envelope_types = {}
     \<and> distinct (map ct_name (td_checkpoint_types def))
     \<and> ct_name ` set (td_checkpoint_types def) \<inter> set base_checkpoint_names = {}
     \<and> (\<forall>role \<in> set (td_roles def). rd_extends role \<in> {''worker'', ''observer''}
          \<and> (\<forall>cap \<in> set (rd_add role). \<forall>c \<in> set coordinator_capabilities. \<not> sublist c cap)
          \<and> (\<forall>ns. rd_checkpoint_types role = Some ns
               \<longrightarrow> set ns \<subseteq> set base_checkpoint_names \<union> ct_name ` set (td_checkpoint_types def)))
     \<and> (\<forall>et \<in> set (td_envelope_types def). et_permissions et \<noteq> []
          \<and> (\<forall>p \<in> set (et_permissions et). is_known_role def (ep_sender_role p) \<and> is_known_role def (ep_receiver_role p)))
     \<and> (\<forall>ct \<in> set (td_checkpoint_types def). ct_permitted_roles ct \<noteq> []
          \<and> (\<forall>r \<in> set (ct_permitted_roles ct). is_known_role def r))"

lemma valid_definitionD:
  assumes "valid_definition def pv"
  shows "distinct (map rd_name (td_roles def))" "rd_name ` set (td_roles def) \<inter> set base_roles = {}"
    "et_name ` set (td_envelope_types def) \<inter> set base_envelope_types = {}"
    "role \<in> set (td_roles def) \<Longrightarrow> rd_extends role \<in> {''worker'', ''observer''}"
    "role \<in> set (td_roles def) \<Longrightarrow> cap \<in> set (rd_add role) \<Longrightarrow> c \<in> set coordinator_capabilities \<Longrightarrow> \<not> sublist c cap"
    "et \<in> set (td_envelope_types def) \<Longrightarrow> p \<in> set (et_permissions et)
     \<Longrightarrow> is_known_role def (ep_sender_role p) \<and> is_known_role def (ep_receiver_role p)"
    "ct \<in> set (td_checkpoint_types def) \<Longrightarrow> ct_permitted_roles ct \<noteq> []"
    "ct \<in> set (td_checkpoint_types def) \<Longrightarrow> r \<in> set (ct_permitted_roles ct) \<Longrightarrow> is_known_role def r"
  using assms unfolding valid_definition_def by simp_all

lemmas check_defs =
  check_version_def check_base_names_def check_inheritance_def check_escalation_def check_registry_def
  check_envelope_roles_def check_checkpoint_roles_def

lemma check_None:
  "check_version def pv = None \<longleftrightarrow> td_protocol_version def = pv"
  "check_base_names base names = None \<longleftrightarrow> set names \<inter> set base = {}"
  "check_inheritance def = None \<longleftrightarrow> (\<forall>role \<in> set (td_roles def). rd_extends role \<in> {''worker'', ''observer''})"
  "check_escalation def = None \<longleftrightarrow> (\<forall>role \<in> set (td_roles def). \<forall>cap \<in> set (rd_add role).
     \<forall>c \<in> set coordinator_capabilities. \<not> sublist c cap)"
  "check_registry def = None \<longleftrightarrow> (\<forall>role \<in> set (td_roles def). \<forall>ns. rd_checkpoint_types role = Some ns
     \<longrightarrow> set ns \<subseteq> set base_checkpoint_names \<union> ct_name ` set (td_checkpoint_types def))"
  "check_envelope_roles def = None \<longleftrightarrow> (\<forall>et \<in> set (td_envelope_types def). et_permissions et \<noteq> []
     \<and> (\<forall>p \<in> set (et_permissions et). is_known_role def (ep_sender_role p) \<and> is_known_role def (ep_receiver_role p)))"
  "check_checkpoint_roles def = None \<longleftrightarrow> (\<forall>ct \<in> set (td_checkpoint_types def). ct_permitted_roles ct \<noteq> []
     \<and> (\<forall>r \<in> set (ct_permitted_roles ct). is_known_role def r))"
  subgoal by (simp add: check_defs)
  subgoal by (auto simp: check_defs first_error_map_None)
  subgoal by (auto simp: check_defs first_error_map_None)
  subgoal by (simp add: check_defs first_error_map_None contains_str_sublist)
  subgoal by (auto simp: check_defs first_error_map_None split: option.splits)
  subgoal by (auto simp: check_defs first_error_map_None)
  subgoal by (auto simp: check_defs first_error_map_None)
  done

lemma validate_None: "validate def pv = None \<longleftrightarrow> valid_definition def pv"
  unfolding validate_def valid_definition_def first_error_None
  by (simp add: check_None first_dup_None ball_conj_distrib)

lemma those_Some: "those (map f xs) = Some ys \<longleftrightarrow> map f xs = map Some ys"
  by (induction xs arbitrary: ys) (auto split: option.splits simp: Cons_eq_map_conv)

lemma map_Some_image:
  "map f xs = map Some ys \<Longrightarrow> \<forall>x \<in> set xs. map_option g (f x) = Some (h x) \<Longrightarrow> map g ys = map h xs"
  by (induction xs arbitrary: ys) (auto simp: Cons_eq_map_conv)

lemma those_None: "those (map f xs) = None \<longleftrightarrow> (\<exists>x \<in> set xs. f x = None)"
  by (induction xs) (auto split: option.splits)

text \<open>The loader never panics, and it accepts a definition exactly when every rule holds: the protocol
  version, unique names apart from the base names, roles that extend worker or observer and add no
  coordinator capability, and references to known roles and checkpoint types only.\<close>

theorem load_accepts_exactly:
  "load def pv \<noteq> None \<and> ((\<exists>tx. load def pv = Some (Ok tx)) \<longleftrightarrow> valid_definition def pv)"
proof (cases "validate def pv")
  case None
  then have v: "valid_definition def pv" by (simp add: validate_None)
  then have "those (map resolve_def (td_roles def)) \<noteq> None"
    by (auto simp: those_None resolve_def_def valid_definition_def)
  with None v show ?thesis by (auto simp: load_def Let_def)
next
  case (Some e)
  then have "\<not> valid_definition def pv" by (simp flip: validate_None)
  with Some show ?thesis by (simp add: load_def)
qed

section \<open>Loaded taxonomies are well formed\<close>

text \<open>
  Names resolve, base envelope types keep the base rows, derived roles are not coordinators and hold no
  coordinator capability, and the checkpoint table permits known roles only.
\<close>

definition role_wf :: "taxonomy \<Rightarrow> string \<Rightarrow> resolved_role \<Rightarrow> bool" where
  "role_wf tx name r \<longleftrightarrow>
     rr_name r = name \<and> name \<notin> set base_roles \<and> rr_base r \<noteq> Coordinator
     \<and> (\<forall>cap \<in> rr_capabilities r. \<forall>c \<in> set coordinator_capabilities. \<not> sublist c cap)
     \<and> (\<forall>ct \<in> set (rr_checkpoint_types r). \<exists>rs. hget (tx_checkpoint_types tx) ct = Some rs \<and> name \<in> rs)"

definition row_wf :: "taxonomy \<Rightarrow> envelope_permission_row \<Rightarrow> bool" where
  "row_wf tx row \<longleftrightarrow>
     is_valid_role tx (er_sender_role row) \<and> is_valid_role tx (er_receiver_role row)
     \<and> is_valid_envelope_type tx (er_envelope_type row)
     \<and> (er_envelope_type row \<in> set base_envelope_types \<longrightarrow> row \<in> set base_permission_rows)"

definition taxonomy_wf :: "taxonomy \<Rightarrow> bool" where
  "taxonomy_wf tx \<longleftrightarrow>
     hmap_ok (tx_resolved_roles tx) \<and> (\<forall>name r. hget (tx_resolved_roles tx) name = Some r \<longrightarrow> role_wf tx name r)
     \<and> (\<forall>row \<in> set (tx_envelope_permissions tx). row_wf tx row)
     \<and> hmap_ok (tx_checkpoint_types tx)
     \<and> (\<forall>ct rs. hget (tx_checkpoint_types tx) ct = Some rs \<longrightarrow> rs \<noteq> {} \<and> (\<forall>role \<in> rs. is_valid_role tx role))"

lemma resolved_map_append: "resolved_map (rs @ [r]) = hput (rr_name r) r (resolved_map rs)"
  by (simp add: resolved_map_def)

lemma hmap_ok_resolved_map [simp]: "hmap_ok (resolved_map rs)"
  by (induction rs rule: rev_induct) (simp_all add: resolved_map_append, simp add: resolved_map_def)

lemma hget_resolved_map:
  "distinct (map rr_name rs) \<Longrightarrow> hget (resolved_map rs) n = Some r \<longleftrightarrow> r \<in> set rs \<and> rr_name r = n"
proof (induction rs rule: rev_induct)
  case Nil
  show ?case by (simp add: resolved_map_def)
next
  case (snoc x rs)
  then show ?case by (auto simp: resolved_map_append rev_image_eqI)
qed

lemma hhas_resolved_map: "distinct (map rr_name rs) \<Longrightarrow> hhas (resolved_map rs) n \<longleftrightarrow> n \<in> rr_name ` set rs"
  by (auto simp: hhas_def hget_resolved_map)

lemma base_capabilities_checked:
  "list_all (\<lambda>cap. list_all (\<lambda>c. \<not> contains_str cap c) coordinator_capabilities)
     [''send: query '' @ [CHR 0xE2, CHR 0x86, CHR 0x92] @ '' coordinator'', ''create: artifact'', ''create: observation'']"
  by code_simp

lemma base_capabilities_safe:
  "cap \<in> base_capabilities b \<Longrightarrow> c \<in> set coordinator_capabilities \<Longrightarrow> \<not> sublist c cap"
  using base_capabilities_checked unfolding contains_str_sublist
  by (cases b) (auto simp only: base_capabilities_def base_role.case list.set list_all_iff insert_iff empty_iff)

text \<open>The checkpoint table grows from the custom table by the roles that list a type.\<close>

lemma hget_custom_table:
  assumes "hget (custom_table def) n = Some rs"
  shows "rs = {''worker''} \<or> rs = {''observer''} \<or> (\<exists>ct \<in> set (td_checkpoint_types def). rs = set (ct_permitted_roles ct))"
proof -
  have "rs = {''worker''} \<or> rs = {''observer''} \<or> (\<exists>ct \<in> set cts. rs = set (ct_permitted_roles ct))"
    if "hget (foldl (\<lambda>acc ct. hput (ct_name ct) (set (ct_permitted_roles ct)) acc)
       [(''artifact'', {''worker''}), (''observation'', {''observer''})] cts) n = Some rs" for cts
    using that by (induction cts rule: rev_induct) (simp_all split: if_splits, blast+)
  with assms show ?thesis by (simp add: custom_table_def)
qed

lemma hmap_ok_custom_table [simp]: "hmap_ok (custom_table def)"
proof -
  have "hmap_ok (foldl (\<lambda>acc ct. hput (ct_name ct) (set (ct_permitted_roles ct)) acc)
       [(''artifact'', {''worker''}), (''observation'', {''observer''})] cts)" for cts
    by (induction cts rule: rev_induct) (simp_all, simp add: hmap_ok_def)
  then show ?thesis by (simp add: custom_table_def)
qed

definition permitted :: "(string, string set) hmap \<Rightarrow> string \<Rightarrow> string set" where
  "permitted table ct = (case hget table ct of None \<Rightarrow> {} | Some rs \<Rightarrow> rs)"

lemma permitted_add [simp]:
  "permitted (add_permitted role table ct) n = (if n = ct then insert role (permitted table n) else permitted table n)"
  by (simp add: permitted_def add_permitted_def)

lemma permitted_add_all:
  "permitted (foldl (add_permitted role) table cts) n
   = permitted table n \<union> (if n \<in> set cts then {role} else {})"
  by (induction cts arbitrary: table) auto

lemma permitted_table:
  "permitted (foldl (\<lambda>table r. foldl (add_permitted (rr_name r)) table (rr_checkpoint_types r)) table rs) n
   = permitted table n \<union> {rr_name r | r. r \<in> set rs \<and> n \<in> set (rr_checkpoint_types r)}"
  by (induction rs arbitrary: table) (auto simp: permitted_add_all)

lemma table_keeps:
  assumes "hmap_ok table" "\<And>ct. hget table ct \<noteq> Some {}"
  shows "hmap_ok (foldl (\<lambda>table r. foldl (add_permitted (rr_name r)) table (rr_checkpoint_types r)) table rs)
    \<and> hget (foldl (\<lambda>table r. foldl (add_permitted (rr_name r)) table (rr_checkpoint_types r)) table rs) ct \<noteq> Some {}"
proof -
  have add: "hmap_ok (foldl (add_permitted role) t cts) \<and> (\<forall>ct. hget (foldl (add_permitted role) t cts) ct \<noteq> Some {})"
    if "hmap_ok t" "\<forall>ct. hget t ct \<noteq> Some {}" for role t cts
    using that by (induction cts arbitrary: t) (simp_all add: add_permitted_def)
  have "hmap_ok (foldl (\<lambda>table r. foldl (add_permitted (rr_name r)) table (rr_checkpoint_types r)) t rs)
    \<and> (\<forall>ct. hget (foldl (\<lambda>table r. foldl (add_permitted (rr_name r)) table (rr_checkpoint_types r)) t rs) ct \<noteq> Some {})"
    if "hmap_ok t" "\<forall>ct. hget t ct \<noteq> Some {}" for t
    using that by (induction rs arbitrary: t) (simp_all add: add)
  with assms show ?thesis by blast
qed

text \<open>What a loaded taxonomy consists of.\<close>

lemma load_Ok:
  assumes "load def pv = Some (Ok tx)"
  obtains rs where "valid_definition def pv" "map resolve_def (td_roles def) = map Some rs"
    "distinct (map rr_name rs)" "rr_name ` set rs = rd_name ` set (td_roles def)"
    "tx_resolved_roles tx = resolved_map rs"
    "tx_envelope_types tx = set base_envelope_types \<union> et_name ` set (td_envelope_types def)"
    "tx_envelope_permissions tx = permission_rows def"
    "tx_checkpoint_types tx = checkpoint_table def (resolved_map rs)"
proof -
  from assms have "validate def pv = None" by (auto simp: load_def split: option.splits)
  then have v: "valid_definition def pv" by (simp add: validate_None)
  from assms \<open>validate def pv = None\<close> obtain rs where r: "those (map resolve_def (td_roles def)) = Some rs"
    by (auto simp: load_def)
  then have m: "map resolve_def (td_roles def) = map Some rs" by (simp add: those_Some)
  have "\<forall>rd \<in> set (td_roles def). map_option rr_name (resolve_def rd) = Some (rd_name rd)"
    using v by (auto simp: resolve_def_def valid_definition_def)
  with m have n: "map rr_name rs = map rd_name (td_roles def)" by (rule map_Some_image)
  then have "rr_name ` set rs = rd_name ` set (td_roles def)" by (metis list.set_map)
  moreover have "distinct (map rr_name rs)" using n v by (simp add: valid_definition_def)
  ultimately show ?thesis using that [OF v m] assms r \<open>validate def pv = None\<close> by (auto simp: load_def Let_def)
qed

lemma base_rows_known:
  "row \<in> set base_permission_rows \<Longrightarrow>
   {er_sender_role row, er_receiver_role row} \<subseteq> set base_roles \<and> er_envelope_type row \<in> set base_envelope_types"
  by (auto simp: base_permission_rows_def base_roles_def base_envelope_types_def mk_row_def)

lemma permission_rows_wf:
  assumes v: "valid_definition def pv" and "row \<in> set (permission_rows def)"
  shows "is_known_role def (er_sender_role row) \<and> is_known_role def (er_receiver_role row)
    \<and> er_envelope_type row \<in> set base_envelope_types \<union> et_name ` set (td_envelope_types def)
    \<and> (er_envelope_type row \<in> set base_envelope_types \<longrightarrow> row \<in> set base_permission_rows)"
proof -
  consider "row \<in> set base_permission_rows"
    | et p where "et \<in> set (td_envelope_types def)" "p \<in> set (et_permissions et)"
        "row = mk_row (ep_sender_role p) (et_name et) (ep_receiver_role p)"
    using assms(2) by (auto simp: permission_rows_def)
  then show ?thesis
  proof cases
    case 1
    with base_rows_known show ?thesis by (auto simp: is_known_role_def)
  next
    case 2
    moreover have "et_name et \<notin> set base_envelope_types" using valid_definitionD(3) [OF v] 2(1) by blast
    moreover have "is_known_role def (ep_sender_role p) \<and> is_known_role def (ep_receiver_role p)"
      by (rule valid_definitionD(6) [OF v 2(1,2)])
    ultimately show ?thesis by (simp add: mk_row_def)
  qed
qed

lemma load_wf:
  assumes "load def pv = Some (Ok tx)"
  shows "taxonomy_wf tx"
proof -
  from load_Ok [OF assms] obtain rs where v: "valid_definition def pv"
    and m: "map resolve_def (td_roles def) = map Some rs" and d: "distinct (map rr_name rs)"
    and n: "rr_name ` set rs = rd_name ` set (td_roles def)" and t: "tx_resolved_roles tx = resolved_map rs"
      "tx_envelope_types tx = set base_envelope_types \<union> et_name ` set (td_envelope_types def)"
      "tx_envelope_permissions tx = permission_rows def"
      "tx_checkpoint_types tx = checkpoint_table def (resolved_map rs)" .
  have known: "is_valid_role tx role \<longleftrightarrow> is_known_role def role" for role
    by (auto simp: is_valid_role_def is_known_role_def base_roles_def t(1) hhas_resolved_map [OF d] n)
  have vals: "set (hvals (resolved_map rs)) = set rs"
    by (auto simp: hvals_iff hget_resolved_map [OF d])
  have perm: "permitted (tx_checkpoint_types tx) ct
     = permitted (custom_table def) ct \<union> {rr_name r | r. r \<in> set rs \<and> ct \<in> set (rr_checkpoint_types r)}" for ct
    by (simp add: t(4) checkpoint_table_def permitted_table vals)
  have custom: "rs' \<noteq> {} \<and> (\<forall>role \<in> rs'. is_known_role def role)" if "hget (custom_table def) ct = Some rs'" for ct rs'
  proof -
    have base: "is_known_role def ''worker''" "is_known_role def ''observer''"
      by (simp_all add: is_known_role_def base_roles_def)
    from hget_custom_table [OF that] show ?thesis using base valid_definitionD(7,8) [OF v] by (elim disjE bexE) simp_all
  qed
  then have "hget (custom_table def) ct \<noteq> Some {}" for ct by blast
  note table = table_keeps [OF hmap_ok_custom_table this]
  have roles: "role_wf tx name r" if "hget (resolved_map rs) name = Some r" for name r
  proof -
    from that have r: "r \<in> set rs" "rr_name r = name" by (simp_all add: hget_resolved_map [OF d])
    then obtain rd where rd: "rd \<in> set (td_roles def)" "resolve_def rd = Some r"
      by (metis (no_types, lifting) m imageE image_eqI list.set_map)
    have "name \<in> permitted (tx_checkpoint_types tx) ct" if "ct \<in> set (rr_checkpoint_types r)" for ct
      using r that by (auto simp: perm)
    then have "\<forall>ct \<in> set (rr_checkpoint_types r). \<exists>rs. hget (tx_checkpoint_types tx) ct = Some rs \<and> name \<in> rs"
      by (fastforce simp: permitted_def split: option.splits)
    moreover have "rr_base r \<noteq> Coordinator" "rr_capabilities r \<subseteq> base_capabilities (rr_base r) \<union> set (rd_add rd)"
      using rd(2) by (auto simp: resolve_def_def split: if_splits)
    moreover have "name \<notin> set base_roles" using valid_definitionD(2) [OF v] r n by (metis disjoint_iff imageI)
    ultimately show ?thesis
      unfolding role_wf_def using r(2) base_capabilities_safe valid_definitionD(5) [OF v rd(1)] by blast
  qed
  have "is_valid_role tx role" if "hget (tx_checkpoint_types tx) ct = Some rs'" "role \<in> rs'" for ct rs' role
  proof -
    have "role \<in> permitted (tx_checkpoint_types tx) ct" using that by (simp add: permitted_def)
    then show ?thesis unfolding perm known
      using custom n by (auto simp: permitted_def is_known_role_def split: option.splits)
  qed
  moreover have "row_wf tx row" if "row \<in> set (permission_rows def)" for row
    using permission_rows_wf [OF v that] by (simp add: row_wf_def known is_valid_envelope_type_def t(2))
  moreover have "hmap_ok (tx_checkpoint_types tx)" "hget (tx_checkpoint_types tx) ct \<noteq> Some {}" for ct
    using table [of "hvals (resolved_map rs)"] by (simp_all add: t(4) checkpoint_table_def)
  ultimately show ?thesis using roles unfolding taxonomy_wf_def t(1,3) by auto
qed


section \<open>Concrete instances\<close>

lemma taxonomy_empty_total: "taxonomy_empty pv \<noteq> None"
proof -
  let ?def = "\<lparr>td_id = ''empty'', td_version = ''0.0.0'', td_protocol_version = pv, td_roles = [],
                 td_envelope_types = [], td_checkpoint_types = []\<rparr>"
  have "valid_definition ?def pv" by (simp add: valid_definition_def)
  then have "validate ?def pv = None" by (simp add: validate_None)
  then show ?thesis by (simp add: taxonomy_empty_def load_def Let_def)
qed

text \<open>A reviewer derived from worker, with its own checkpoint type and a custom envelope type.\<close>

definition sample_definition :: taxonomy_definition where
  "sample_definition =
     \<lparr>td_id = ''t'', td_version = ''1'', td_protocol_version = ''1'',
      td_roles = [\<lparr>rd_name = ''reviewer'', rd_extends = ''worker'', rd_add = [''create: review''], rd_remove = [],
                   rd_checkpoint_types = Some [''review'']\<rparr>],
      td_envelope_types = [\<lparr>et_name = ''notice'',
                            et_permissions = [\<lparr>ep_sender_role = ''reviewer'', ep_receiver_role = ''coordinator''\<rparr>]\<rparr>],
      td_checkpoint_types = [\<lparr>ct_name = ''review'', ct_permitted_roles = [''reviewer'']\<rparr>]\<rparr>"

lemma sample_definition_valid: "validate sample_definition ''1'' = None"
  by code_simp

lemma sample_definition_loads: obtains tx where "load sample_definition ''1'' = Some (Ok tx)"
  using sample_definition_valid that
  by (auto simp: load_def Let_def) (auto simp: sample_definition_def resolve_def_def)


end
