(* ===== verification/Wacp_Permissions.thy ===== *)
theory Wacp_Permissions
  imports Wacp_Taxonomy
begin

text \<open>
  The permission engine (\<open>wacp-permissions/src/lib.rs\<close>): three tables built from a taxonomy, and the evaluation of
  protocol actions against them. Everything not allowed by a table is denied.
\<close>

section \<open>The engine\<close>

record permission_engine =
  pn_permission_matrix :: "(string \<times> string \<times> string) set"
  pn_checkpoint_table :: "(string, string set) hmap"
  pn_signal_emit_sets :: "(string, signal_type set) hmap"
  pn_role_bases :: "(string, string) hmap"
  pn_port_rights :: "(workspace_id, port_right list) hmap"

text \<open>Sender role, envelope type, receiver role, sender workspace, receiver workspace, origin; role and checkpoint
  type; role and signal.\<close>

datatype action =
  AcSendEnvelope string string string workspace_id workspace_id envelope_origin
| AcCreateCheckpoint string string
| AcEmitSignal string signal_type

datatype permission_denied =
  PdNotInPermissionMatrix string | PdNoPortRight string
| PdCheckpointTypeNotPermitted string | PdSignalTypeNotPermitted string

text \<open>A rule is a section of the protocol document; the section sign is two bytes in UTF-8.\<close>

definition rule_ref :: "string \<Rightarrow> string" where
  "rule_ref n = [CHR 0xC2, CHR 0xA7] @ n"

definition coordinator_emit_set :: "signal_type set" where
  "coordinator_emit_set = {SigReady, SigStarted, SigFailed, SigIntegrate, SigAcknowledged}"

definition worker_emit_set :: "signal_type set" where
  "worker_emit_set = {SigReady, SigStarted, SigBlocked, SigCheckpoint, SigComplete, SigFailed, SigEscalation}"

definition observer_emit_set :: "signal_type set" where
  "observer_emit_set = {SigReady, SigStarted, SigComplete, SigFailed, SigEscalation}"

definition base_name :: "base_role \<Rightarrow> string" where
  "base_name b = (case b of Coordinator \<Rightarrow> ''coordinator'' | Worker \<Rightarrow> ''worker'' | Observer \<Rightarrow> ''observer'')"

definition add_role ::
  "(string, string) hmap \<times> (string, signal_type set) hmap \<Rightarrow> string \<times> resolved_role
   \<Rightarrow> (string, string) hmap \<times> (string, signal_type set) hmap" where
  "add_role acc entry =
     (let (role_bases, emit_sets) = acc; (name, resolved) = entry; base = base_name (rr_base resolved)
      in (hput name base role_bases,
          hput name (case hget emit_sets base of None \<Rightarrow> {} | Some s \<Rightarrow> s) emit_sets))"

definition engine_new :: "taxonomy \<Rightarrow> permission_engine" where
  "engine_new tx =
     (let (role_bases, emit_sets) = foldl add_role
            ([(''coordinator'', ''coordinator''), (''worker'', ''worker''), (''observer'', ''observer'')],
             [(''coordinator'', coordinator_emit_set), (''worker'', worker_emit_set), (''observer'', observer_emit_set)])
            (tx_resolved_roles tx)
      in \<lparr>pn_permission_matrix =
             (\<lambda>row. (er_sender_role row, er_envelope_type row, er_receiver_role row)) ` set (tx_envelope_permissions tx),
          pn_checkpoint_table = tx_checkpoint_types tx, pn_signal_emit_sets = emit_sets,
          pn_role_bases = role_bases, pn_port_rights = []\<rparr>)"

section \<open>Evaluation\<close>

definition has_send_right :: "permission_engine \<Rightarrow> workspace_id \<Rightarrow> workspace_id \<Rightarrow> bool" where
  "has_send_right e holder target =
     (case hget (pn_port_rights e) holder of
        None \<Rightarrow> False
      | Some rights \<Rightarrow> list_ex (\<lambda>r. pr_target r = target \<and> (pr_right_type r = Send \<or> pr_right_type r = SendOnce)) rights)"

definition matrix_allows :: "permission_engine \<Rightarrow> string \<Rightarrow> string \<Rightarrow> string \<Rightarrow> bool" where
  "matrix_allows e sender et receiver =
     (let mx = pn_permission_matrix e; sender_base = hget (pn_role_bases e) sender;
          receiver_base = hget (pn_role_bases e) receiver
      in if (sender, et, receiver) \<in> mx then True
         else if (case sender_base of None \<Rightarrow> False
                  | Some sb \<Rightarrow> (sb, et, receiver) \<in> mx
                      \<or> (case receiver_base of None \<Rightarrow> False | Some rb \<Rightarrow> (sb, et, rb) \<in> mx)) then True
         else (case receiver_base of None \<Rightarrow> False | Some rb \<Rightarrow> (sender, et, rb) \<in> mx))"

fun check_envelope_send ::
  "permission_engine \<Rightarrow> string \<Rightarrow> string \<Rightarrow> string \<Rightarrow> workspace_id \<Rightarrow> workspace_id \<Rightarrow> envelope_origin
   \<Rightarrow> (unit, permission_denied) result" where
  "check_envelope_send e sender et receiver sender_ws receiver_ws origin =
     (if origin = Human then Ok ()
      else if \<not> matrix_allows e sender et receiver then Err (PdNotInPermissionMatrix (rule_ref ''5.5''))
      else if \<not> has_send_right e sender_ws receiver_ws then Err (PdNoPortRight (rule_ref ''5.6''))
      else Ok ())"

definition check_checkpoint_create :: "permission_engine \<Rightarrow> string \<Rightarrow> string \<Rightarrow> (unit, permission_denied) result" where
  "check_checkpoint_create e role ct =
     (if (case hget (pn_checkpoint_table e) ct of
            None \<Rightarrow> False
          | Some roles \<Rightarrow> role \<in> roles
              \<or> (case hget (pn_role_bases e) role of None \<Rightarrow> False | Some base \<Rightarrow> base \<in> roles))
      then Ok () else Err (PdCheckpointTypeNotPermitted (rule_ref ''7.2'')))"

definition check_signal_emit :: "permission_engine \<Rightarrow> string \<Rightarrow> signal_type \<Rightarrow> (unit, permission_denied) result" where
  "check_signal_emit e role st =
     (if (case hget (pn_signal_emit_sets e) role of None \<Rightarrow> False | Some emit_set \<Rightarrow> st \<in> emit_set)
      then Ok () else Err (PdSignalTypeNotPermitted (rule_ref ''5.2'')))"

fun evaluate :: "permission_engine \<Rightarrow> action \<Rightarrow> (unit, permission_denied) result" where
  "evaluate e (AcSendEnvelope s et r sw rw origin) = check_envelope_send e s et r sw rw origin"
| "evaluate e (AcCreateCheckpoint role ct) = check_checkpoint_create e role ct"
| "evaluate e (AcEmitSignal role st) = check_signal_emit e role st"

section \<open>Port rights of the engine\<close>

definition grant_port_right :: "port_right \<Rightarrow> permission_engine \<Rightarrow> permission_engine" where
  "grant_port_right right e = e\<lparr>pn_port_rights := hpush (pr_holder right) right (pn_port_rights e)\<rparr>"

definition revoke_port_right ::
  "workspace_id \<Rightarrow> workspace_id \<Rightarrow> port_right_type \<Rightarrow> permission_engine \<Rightarrow> permission_engine" where
  "revoke_port_right holder target ty e =
     e\<lparr>pn_port_rights :=
         hupd holder (filter (\<lambda>r. \<not> (pr_target r = target \<and> pr_right_type r = ty))) (pn_port_rights e)\<rparr>"

definition consume_send_once :: "workspace_id \<Rightarrow> workspace_id \<Rightarrow> permission_engine \<Rightarrow> bool \<times> permission_engine" where
  "consume_send_once holder target e =
     (case hget (pn_port_rights e) holder of
        None \<Rightarrow> (False, e)
      | Some rights \<Rightarrow>
          (case position (\<lambda>r. pr_target r = target \<and> pr_right_type r = SendOnce) rights of
             None \<Rightarrow> (False, e)
           | Some pos \<Rightarrow>
               (True, e\<lparr>pn_port_rights := hput holder (take pos rights @ drop (Suc pos) rights) (pn_port_rights e)\<rparr>)))"

datatype port_op = GrantRight port_right | RevokeRight workspace_id workspace_id port_right_type
  | ConsumeOnce workspace_id workspace_id

fun port_step :: "port_op \<Rightarrow> permission_engine \<Rightarrow> bool \<times> permission_engine" where
  "port_step (GrantRight right) e = (False, grant_port_right right e)"
| "port_step (RevokeRight h t ty) e = (False, revoke_port_right h t ty e)"
| "port_step (ConsumeOnce h t) e = consume_send_once h t e"

text \<open>A run of port operations; the answer of each operation says whether it consumed a right.\<close>

fun port_run :: "port_op list \<Rightarrow> permission_engine \<Rightarrow> bool list \<times> permission_engine" where
  "port_run [] e = ([], e)"
| "port_run (p # ps) e = (let (b, e1) = port_step p e; (bs, e2) = port_run ps e1 in (b # bs, e2))"

section \<open>The tables of a new engine\<close>

text \<open>The base role of a role name, as the taxonomy defines it.\<close>

definition role_base :: "taxonomy \<Rightarrow> string \<Rightarrow> base_role option" where
  "role_base tx role =
     (if role = ''coordinator'' then Some Coordinator else if role = ''worker'' then Some Worker
      else if role = ''observer'' then Some Observer else map_option rr_base (resolve_role tx role))"

definition emit_set :: "base_role \<Rightarrow> signal_type set" where
  "emit_set b = (case b of Coordinator \<Rightarrow> coordinator_emit_set | Worker \<Rightarrow> worker_emit_set | Observer \<Rightarrow> observer_emit_set)"

lemma add_roles_spec:
  assumes "hmap_ok roles" "\<forall>p \<in> set roles. fst p \<notin> set base_roles" "\<forall>b. hget em (base_name b) = Some (emit_set b)"
  shows "hget (fst (foldl add_role (bs, em) roles)) n
       = (case hget roles n of None \<Rightarrow> hget bs n | Some r \<Rightarrow> Some (base_name (rr_base r)))
    \<and> hget (snd (foldl add_role (bs, em) roles)) n
       = (case hget roles n of None \<Rightarrow> hget em n | Some r \<Rightarrow> Some (emit_set (rr_base r)))"
  using assms
proof (induction roles arbitrary: bs em)
  case (Cons p roles)
  obtain name r where p: "p = (name, r)" by (cases p)
  have new: "hget roles name = None" using Cons.prems(1) by (simp add: p hmap_ok_def hget_None_iff)
  have base: "base_name b \<noteq> name" for b
    using Cons.prems(2) by (cases b) (auto simp: p base_name_def base_roles_def)
  have step: "add_role (bs, em) p = (hput name (base_name (rr_base r)) bs, hput name (emit_set (rr_base r)) em)"
    using Cons.prems(3) by (simp add: add_role_def p)
  have "\<forall>b. hget (hput name (emit_set (rr_base r)) em) (base_name b) = Some (emit_set b)"
    using Cons.prems(3) base by simp
  with Cons.IH [OF _ _ this] Cons.prems(1,2) new show ?case
    by (auto simp: step [unfolded p] p hmap_ok_def split: option.splits)
qed simp

lemma engine_tables:
  assumes "taxonomy_wf tx"
  shows "hget (pn_role_bases (engine_new tx)) n = map_option base_name (role_base tx n)"
    "hget (pn_signal_emit_sets (engine_new tx)) n = map_option emit_set (role_base tx n)"
proof -
  let ?bs = "[(''coordinator'', ''coordinator''), (''worker'', ''worker''), (''observer'', ''observer'')]"
  let ?em = "[(''coordinator'', coordinator_emit_set), (''worker'', worker_emit_set), (''observer'', observer_emit_set)]"
  have ok: "hmap_ok (tx_resolved_roles tx)" using assms by (simp add: taxonomy_wf_def)
  have none: "hget (tx_resolved_roles tx) k = None" if "k \<in> set base_roles" for k
    using assms that by (cases "hget (tx_resolved_roles tx) k") (auto simp: taxonomy_wf_def role_wf_def)
  have names: "\<forall>p \<in> set (tx_resolved_roles tx). fst p \<notin> set base_roles"
    using none by (metis hget_None_iff imageI)
  have em: "hget ?em (base_name b) = Some (emit_set b)" "hget ?bs (base_name b) = Some (base_name b)" for b
    by (cases b; simp add: base_name_def emit_set_def)+
  then have "\<forall>b. hget ?em (base_name b) = Some (emit_set b)" by blast
  note spec = add_roles_spec [OF ok names this, of ?bs n]
  have tables: "pn_role_bases (engine_new tx) = fst (foldl add_role (?bs, ?em) (tx_resolved_roles tx))"
    "pn_signal_emit_sets (engine_new tx) = snd (foldl add_role (?bs, ?em) (tx_resolved_roles tx))"
    by (simp_all add: engine_new_def split_beta Let_def)
  have "hget (pn_role_bases (engine_new tx)) n = map_option base_name (role_base tx n)
      \<and> hget (pn_signal_emit_sets (engine_new tx)) n = map_option emit_set (role_base tx n)"
  proof (cases "n \<in> set base_roles")
    case True
    then have "n = base_name Coordinator \<or> n = base_name Worker \<or> n = base_name Observer"
      by (simp add: base_roles_def base_name_def)
    then obtain b where b: "n = base_name b" by blast
    moreover have "role_base tx n = Some b" unfolding b by (cases b) (simp_all add: role_base_def base_name_def)
    ultimately show ?thesis using spec none [OF True] em [of b] unfolding tables by simp
  next
    case False
    then have "hget ?bs n = None" "hget ?em n = None" "role_base tx n = map_option rr_base (hget (tx_resolved_roles tx) n)"
      by (auto simp: base_roles_def role_base_def resolve_role_def)
    then show ?thesis using spec unfolding tables by (cases "hget (tx_resolved_roles tx) n") simp_all
  qed
  then show "hget (pn_role_bases (engine_new tx)) n = map_option base_name (role_base tx n)"
    "hget (pn_signal_emit_sets (engine_new tx)) n = map_option emit_set (role_base tx n)" by simp_all
qed

section \<open>What is permitted\<close>

text \<open>A table entry for \<open>name\<close> covers a role that has this name or this base role.\<close>

definition covers :: "taxonomy \<Rightarrow> string \<Rightarrow> string \<Rightarrow> bool" where
  "covers tx name role \<longleftrightarrow> name = role \<or> map_option base_name (role_base tx role) = Some name"

definition on_tables :: "taxonomy \<Rightarrow> permission_engine \<Rightarrow> bool" where
  "on_tables tx e \<longleftrightarrow> e\<lparr>pn_port_rights := []\<rparr> = engine_new tx"

lemma engine_new_on_tables: "on_tables tx (engine_new tx)"
  by (simp add: on_tables_def engine_new_def split_beta Let_def)

lemma port_step_on_tables [keeps]: "on_tables tx e \<Longrightarrow> on_tables tx (snd (port_step p e))"
  by (cases p) (auto simp: on_tables_def grant_port_right_def revoke_port_right_def consume_send_once_def
      split: option.splits)

lemma port_run_on_tables [keeps]: "on_tables tx e \<Longrightarrow> on_tables tx (snd (port_run ps e))"
proof (induction ps arbitrary: e)
  case (Cons p ps)
  from Cons.IH [OF port_step_on_tables [OF Cons.prems]] show ?case by (simp add: split_beta Let_def)
qed simp

lemma on_tables_eq:
  assumes "on_tables tx e"
  shows "pn_permission_matrix e = pn_permission_matrix (engine_new tx)"
    "pn_checkpoint_table e = tx_checkpoint_types tx" "pn_role_bases e = pn_role_bases (engine_new tx)"
    "pn_signal_emit_sets e = pn_signal_emit_sets (engine_new tx)"
  using assms by (auto simp: on_tables_def engine_new_def split_beta Let_def
      dest: arg_cong [of _ _ pn_permission_matrix] arg_cong [of _ _ pn_checkpoint_table]
        arg_cong [of _ _ pn_role_bases] arg_cong [of _ _ pn_signal_emit_sets])

lemma matrix_allows_iff:
  assumes "taxonomy_wf tx" "on_tables tx e"
  shows "matrix_allows e s et r \<longleftrightarrow> (\<exists>row \<in> set (tx_envelope_permissions tx).
     er_envelope_type row = et \<and> covers tx (er_sender_role row) s \<and> covers tx (er_receiver_role row) r)"
proof -
  have m: "(a, b, c) \<in> pn_permission_matrix e \<longleftrightarrow>
      (\<exists>row \<in> set (tx_envelope_permissions tx). er_sender_role row = a \<and> er_envelope_type row = b \<and> er_receiver_role row = c)" for a b c
    by (auto simp: on_tables_eq(1) [OF assms(2)] engine_new_def split_beta Let_def)
  show ?thesis
    unfolding matrix_allows_def Let_def on_tables_eq(3) [OF assms(2)] engine_tables(1) [OF assms(1)] m covers_def
    by (cases "role_base tx s"; cases "role_base tx r") auto
qed

lemma evaluate_iff:
  assumes wf: "taxonomy_wf tx" and e: "on_tables tx e"
  shows "is_ok (evaluate e (AcSendEnvelope s et r sw rw Agent)) \<longleftrightarrow>
       (\<exists>row \<in> set (tx_envelope_permissions tx). er_envelope_type row = et \<and> covers tx (er_sender_role row) s
          \<and> covers tx (er_receiver_role row) r) \<and> has_send_right e sw rw"
    "is_ok (evaluate e (AcCreateCheckpoint role ct)) \<longleftrightarrow>
       (\<exists>name roles. hget (tx_checkpoint_types tx) ct = Some roles \<and> name \<in> roles \<and> covers tx name role)"
    "is_ok (evaluate e (AcEmitSignal role st)) \<longleftrightarrow> (\<exists>b. role_base tx role = Some b \<and> st \<in> emit_set b)"
proof -
  show "is_ok (evaluate e (AcSendEnvelope s et r sw rw Agent)) \<longleftrightarrow>
       (\<exists>row \<in> set (tx_envelope_permissions tx). er_envelope_type row = et \<and> covers tx (er_sender_role row) s
          \<and> covers tx (er_receiver_role row) r) \<and> has_send_right e sw rw"
    using matrix_allows_iff [OF assms, of s et r] by auto
  show "is_ok (evaluate e (AcCreateCheckpoint role ct)) \<longleftrightarrow>
       (\<exists>name roles. hget (tx_checkpoint_types tx) ct = Some roles \<and> name \<in> roles \<and> covers tx name role)"
    by (auto simp: check_checkpoint_create_def on_tables_eq [OF e] engine_tables [OF wf] covers_def split: option.splits)
  show "is_ok (evaluate e (AcEmitSignal role st)) \<longleftrightarrow> (\<exists>b. role_base tx role = Some b \<and> st \<in> emit_set b)"
    by (auto simp: check_signal_emit_def on_tables_eq [OF e] engine_tables [OF wf] split: option.splits)
qed


text \<open>Base rows cover few roles.\<close>

lemma base_name_inject [simp]: "base_name a = base_name b \<longleftrightarrow> a = b"
  by (cases a; cases b) (simp_all add: base_name_def)

lemma covers_base:
  assumes "taxonomy_wf tx"
  shows "covers tx (base_name b) role \<longleftrightarrow> role_base tx role = Some b"
proof -
  have "role_base tx (base_name b) = Some b" by (cases b) (simp_all add: role_base_def base_name_def)
  then show ?thesis by (auto simp: covers_def)
qed

lemma role_base_Coordinator:
  assumes "taxonomy_wf tx"
  shows "role_base tx role = Some Coordinator \<longleftrightarrow> role = ''coordinator''"
  using assms by (auto simp: role_base_def resolve_role_def taxonomy_wf_def role_wf_def)

lemma role_base_valid: "role_base tx role = None \<longleftrightarrow> \<not> is_valid_role tx role"
  by (auto simp: role_base_def is_valid_role_def resolve_role_def hhas_def)

lemma covers_valid: "is_valid_role tx name \<Longrightarrow> covers tx name role \<Longrightarrow> is_valid_role tx role"
  using role_base_valid [of tx role] by (auto simp: covers_def)

lemma base_rows_covered:
  assumes "taxonomy_wf tx" "row \<in> set (tx_envelope_permissions tx)" "er_envelope_type row \<in> set base_envelope_types"
    "covers tx (er_sender_role row) s" "covers tx (er_receiver_role row) r"
  shows "if er_envelope_type row = ''query'' then role_base tx s = Some Worker \<and> r = ''coordinator''
    else s = ''coordinator'' \<and> role_base tx r = Some Worker"
proof -
  have c: "covers tx ''coordinator'' x \<longleftrightarrow> x = ''coordinator''" "covers tx ''worker'' x \<longleftrightarrow> role_base tx x = Some Worker" for x
    using covers_base [OF assms(1), of Coordinator x] covers_base [OF assms(1), of Worker x]
      role_base_Coordinator [OF assms(1)] by (simp_all add: base_name_def)
  have "row \<in> set base_permission_rows" using assms(1-3) unfolding taxonomy_wf_def row_wf_def by blast
  then consider "row = mk_row ''coordinator'' ''directive'' ''worker''" | "row = mk_row ''coordinator'' ''feedback'' ''worker''"
    | "row = mk_row ''worker'' ''query'' ''coordinator''" unfolding base_permission_rows_def by auto
  then show ?thesis using assms(4,5) by cases (simp_all add: mk_row_def c)
qed


section \<open>Send-once rights\<close>

definition once_right :: "workspace_id \<Rightarrow> port_right \<Rightarrow> bool" where
  "once_right t r \<longleftrightarrow> pr_target r = t \<and> pr_right_type r = SendOnce"

definition held_once :: "permission_engine \<Rightarrow> workspace_id \<Rightarrow> workspace_id \<Rightarrow> nat" where
  "held_once e h t = length (filter (once_right t) (hlist (pn_port_rights e) h))"

definition granted_once :: "port_op list \<Rightarrow> workspace_id \<Rightarrow> workspace_id \<Rightarrow> nat" where
  "granted_once ops h t = length (filter (\<lambda>p. \<exists>r. p = GrantRight r \<and> pr_holder r = h \<and> once_right t r) ops)"

definition spent_once :: "port_op list \<Rightarrow> bool list \<Rightarrow> workspace_id \<Rightarrow> workspace_id \<Rightarrow> nat" where
  "spent_once ops answers h t = length (filter (\<lambda>(p, b). p = ConsumeOnce h t \<and> b) (zip ops answers))"

lemma filter_remove_at:
  assumes "position P xs = Some i"
  shows "length (filter Q xs) = length (filter Q (take i xs @ drop (Suc i) xs)) + (if Q (xs ! i) then 1 else 0)"
proof -
  have "i < length xs" using position_Some [OF assms] by simp
  then have "filter Q xs = filter Q (take i xs) @ filter Q (xs ! i # drop (Suc i) xs)"
    by (metis filter_append id_take_nth_drop)
  then show ?thesis by simp
qed

lemma port_step_once:
  "(if fst (port_step p e) \<and> p = ConsumeOnce h t then 1 else 0) + held_once (snd (port_step p e)) h t
   \<le> (if \<exists>r. p = GrantRight r \<and> pr_holder r = h \<and> once_right t r then 1 else 0) + held_once e h t"
proof (cases p)
  case (GrantRight r)
  then show ?thesis by (simp add: held_once_def grant_port_right_def)
next
  case (RevokeRight h' t' ty)
  have "length (filter P (filter Q xs)) \<le> length (filter P xs)" for P Q and xs :: "port_right list"
    by (induction xs) auto
  from this [of "once_right t"] show ?thesis using RevokeRight by (simp add: held_once_def revoke_port_right_def)
next
  case (ConsumeOnce h' t')
  show ?thesis
  proof (cases "\<exists>rs i. hget (pn_port_rights e) h' = Some rs \<and> position (once_right t') rs = Some i")
    case True
    then obtain rs i where rs: "hget (pn_port_rights e) h' = Some rs" "position (once_right t') rs = Some i" by blast
    then have "once_right t' (rs ! i)" using position_Some by metis
    moreover have "consume_send_once h' t' e
        = (True, e\<lparr>pn_port_rights := hput h' (take i rs @ drop (Suc i) rs) (pn_port_rights e)\<rparr>)"
      using rs by (simp add: consume_send_once_def once_right_def [abs_def])
    ultimately show ?thesis using filter_remove_at [OF rs(2), of "once_right t"] rs(1) ConsumeOnce
      by (auto simp: held_once_def hlist_def)
  next
    case False
    then have "consume_send_once h' t' e = (False, e)"
      by (auto simp: consume_send_once_def once_right_def [abs_def] split: option.splits)
    then show ?thesis using ConsumeOnce by simp
  qed
qed

lemma port_run_once:
  "spent_once ops (fst (port_run ops e)) h t + held_once (snd (port_run ops e)) h t
   \<le> granted_once ops h t + held_once e h t"
proof (induction ops arbitrary: e)
  case (Cons p ops)
  from Cons.IH [of "snd (port_step p e)"] port_step_once [of p e h t] show ?case
    by (cases "fst (port_step p e)") (simp_all add: spent_once_def granted_once_def split_beta Let_def split: if_splits)
qed (simp add: spent_once_def granted_once_def)

text \<open>In every run of grants, revocations and consumptions, send-once rights from one workspace to another are
  consumed at most as often as they were granted, and the rights left over are within what remains.\<close>

theorem send_once_within_grants:
  "spent_once ops (fst (port_run ops (engine_new tx))) h t + held_once (snd (port_run ops (engine_new tx))) h t
   \<le> granted_once ops h t"
proof -
  have "held_once (engine_new tx) h t = 0" by (simp add: held_once_def engine_new_def split_beta Let_def)
  with port_run_once [of ops "engine_new tx" h t] show ?thesis by simp
qed

section \<open>Concrete instances\<close>



end
