(* ===== verification/Wacp_Trail.thy ===== *)
theory Wacp_Trail
  imports Wacp_Types
begin

text \<open>
  The audit trail (\<open>wacp-trail\<close>): the hash chain (\<open>chain.rs\<close>), the storage interfaces (\<open>traits.rs\<close>,
  \<open>error.rs\<close>) and their in-memory implementations (\<open>memory.rs\<close>). SHA-256 comes from the \<open>sha2\<close> crate and is an
  argument of the definitions that use it. The interfaces are the locales \<open>trail_storage\<close> and
  \<open>checkpoint_storage\<close>.
\<close>

section \<open>The hash chain\<close>

text \<open>A chain hash is an array of 32 bytes.\<close>

type_synonym chain_hash = bytes

definition genesis :: chain_hash where
  "genesis = replicate 32 0"

definition compute_chain_hash :: "(bytes \<Rightarrow> bytes) \<Rightarrow> chain_hash \<Rightarrow> bytes \<Rightarrow> chain_hash" where
  "compute_chain_hash sha previous entry_bytes = sha (previous @ entry_bytes)"

definition verify_chain_link :: "(bytes \<Rightarrow> bytes) \<Rightarrow> chain_hash \<Rightarrow> bytes \<Rightarrow> chain_hash \<Rightarrow> bool" where
  "verify_chain_link sha previous entry_bytes expected = (compute_chain_hash sha previous entry_bytes = expected)"

text \<open>\<open>Display\<close> of a chain hash.\<close>

definition show_chain_hash :: "chain_hash \<Rightarrow> string" where
  "show_chain_hash h = concat (map hex_byte h)"

record chain_verification_error =
  cv_index :: nat
  cv_expected :: chain_hash
  cv_computed :: chain_hash

type_synonym chain = "(bytes \<times> chain_hash) list"

fun verify_loop ::
  "(bytes \<Rightarrow> bytes) \<Rightarrow> nat \<Rightarrow> chain_hash \<Rightarrow> chain \<Rightarrow> (unit, chain_verification_error) result" where
  "verify_loop sha i previous [] = Ok ()"
| "verify_loop sha i previous ((entry_bytes, expected) # entries) =
     (let computed = compute_chain_hash sha previous entry_bytes
      in if computed \<noteq> expected then Err \<lparr>cv_index = i, cv_expected = expected, cv_computed = computed\<rparr>
         else verify_loop sha (Suc i) expected entries)"

definition verify_chain :: "(bytes \<Rightarrow> bytes) \<Rightarrow> chain \<Rightarrow> (unit, chain_verification_error) result" where
  "verify_chain sha entries = verify_loop sha 0 genesis entries"

section \<open>Storage interfaces\<close>

type_synonym segment_id = u64

datatype storage_error =
  SeIo string | SeCorruption string | SeCapacityExceeded | SeSegmentNotFound u64 | SeNotFound

record write_receipt =
  wr_segment :: segment_id
  wr_offset :: u64
  wr_sequence :: u64

record storage_metadata =
  sm_current_segment :: segment_id
  sm_total_entries :: u64
  sm_chain_head :: chain_hash
  sm_total_bytes :: u64

type_synonym scanned_entry = "u64 \<times> bytes \<times> chain_hash"

text \<open>The entry and its hash, without the offset.\<close>

abbreviation entry_of :: "scanned_entry \<Rightarrow> bytes \<times> chain_hash" where
  "entry_of \<equiv> snd"

definition head_of :: "chain \<Rightarrow> chain_hash" where
  "head_of es = (if es = [] then genesis else snd (last es))"

lemma head_of_simps [simp]: "head_of [] = genesis" "head_of (es @ [(e, h)]) = h"
  by (simp_all add: head_of_def)

text \<open>
  \<open>TrailStorage\<close>. Appending adds one entry at the end of the contents when it fits, rotation keeps the contents,
  the segments from 0 to the current one can be scanned and together hold the contents, and the
  metadata describe them.
\<close>

locale trail_storage =
  fixes append :: "bytes \<Rightarrow> chain_hash \<Rightarrow> 's \<Rightarrow> 's option"
    and rotate :: "'s \<Rightarrow> 's"
    and scan :: "'s \<Rightarrow> segment_id \<Rightarrow> u64 \<Rightarrow> (scanned_entry list, storage_error) result"
    and metadata :: "'s \<Rightarrow> storage_metadata"
    and ok :: "'s \<Rightarrow> bool"
    and fits :: "'s \<Rightarrow> bytes \<Rightarrow> bool"
    and contents :: "'s \<Rightarrow> chain"
  assumes append_spec: "ok s \<Longrightarrow> fits s e \<Longrightarrow> length h = 32 \<Longrightarrow>
      \<exists>s'. append e h s = Some s' \<and> ok s' \<and> contents s' = contents s @ [(e, h)]"
    and rotate_spec: "ok s \<Longrightarrow> fits s e \<Longrightarrow> ok (rotate s) \<and> contents (rotate s) = contents s"
    and scan_spec: "ok s \<Longrightarrow> \<exists>ess. length ess = Suc (unat (sm_current_segment (metadata s)))
      \<and> (\<forall>i < length ess. scan s (of_nat i) 0 = Ok (ess ! i)) \<and> contents s = concat (map (map entry_of) ess)"
    and metadata_spec: "ok s \<Longrightarrow> sm_total_entries (metadata s) = of_nat (length (contents s))
      \<and> sm_chain_head (metadata s) = head_of (contents s)"

text \<open>\<open>CheckpointStorage\<close>: content-addressed, a stored payload is never replaced.\<close>

locale checkpoint_storage =
  fixes store :: "chain_hash \<Rightarrow> bytes \<Rightarrow> 's \<Rightarrow> (bool, storage_error) result \<times> 's"
    and read :: "'s \<Rightarrow> chain_hash \<Rightarrow> (bytes option, storage_error) result"
    and exists :: "'s \<Rightarrow> chain_hash \<Rightarrow> (bool, storage_error) result"
    and delete :: "chain_hash \<Rightarrow> 's \<Rightarrow> (bool, storage_error) result \<times> 's"
    and stored :: "'s \<Rightarrow> chain_hash \<Rightarrow> bytes option"
    and addressed :: "chain_hash \<Rightarrow> bytes \<Rightarrow> bool"
  assumes store_spec: "length h = 32 \<Longrightarrow> fst (store h p s) = Ok (stored s h = None)
      \<and> (\<forall>k. length k = 32 \<longrightarrow> stored (snd (store h p s)) k = (if k = h \<and> stored s h = None then Some p else stored s k))"
    and read_spec: "length h = 32 \<Longrightarrow> stored s h = None \<or> (\<exists>p. stored s h = Some p \<and> addressed h p) \<Longrightarrow> read s h = Ok (stored s h)"
    and exists_spec: "length h = 32 \<Longrightarrow> exists s h = Ok (stored s h \<noteq> None)"
    and delete_spec: "length h = 32 \<Longrightarrow> fst (delete h s) = Ok (stored s h \<noteq> None)
      \<and> (\<forall>k. length k = 32 \<longrightarrow> stored (snd (delete h s)) k = (if k = h then None else stored s k))"
begin

text \<open>What was stored under its own hash is read back until it is deleted, whatever is stored afterwards.\<close>

lemma read_after_store:
  assumes "length h = 32" "addressed h p" "stored s h = None"
  shows "read (snd (store h p s)) h = Ok (Some p)"
  using assms store_spec [OF assms(1), of p s] by (simp add: read_spec)

lemma store_keeps:
  assumes "length h = 32" "length k = 32" "addressed h p" "stored s h = Some p"
  shows "read (snd (store k q s)) h = Ok (Some p)"
proof -
  have "stored (snd (store k q s)) h = Some p" using assms store_spec [OF assms(2), of q s] by auto
  with assms(1,3) show ?thesis by (simp add: read_spec)
qed

end

section \<open>In-memory storage\<close>

record mem_trail =
  mt_segments :: "(bytes \<times> chain_hash) list list"
  mt_sequence_counter :: u64
  mt_chain_head :: chain_hash
  mt_total_bytes :: u64

definition mem_new :: mem_trail where
  "mem_new = \<lparr>mt_segments = [[]], mt_sequence_counter = 0, mt_chain_head = genesis, mt_total_bytes = 0\<rparr>"

text \<open>\<open>None\<close> is the panic of \<open>last_mut().unwrap()\<close>.\<close>

definition mem_append ::
  "bytes \<Rightarrow> chain_hash \<Rightarrow> mem_trail \<Rightarrow> ((write_receipt, storage_error) result \<times> mem_trail) option" where
  "mem_append entry h s =
     (if mt_segments s = [] then None
      else let segment = last (mt_segments s);
               s' = \<lparr>mt_segments = butlast (mt_segments s) @ [segment @ [(entry, h)]],
                     mt_sequence_counter = mt_sequence_counter s + 1, mt_chain_head = h,
                     mt_total_bytes = mt_total_bytes s + of_nat (length entry)\<rparr>
           in Some (Ok \<lparr>wr_segment = of_nat (length (mt_segments s) - 1), wr_offset = of_nat (length segment),
                        wr_sequence = mt_sequence_counter s'\<rparr>, s'))"

definition mem_read :: "mem_trail \<Rightarrow> segment_id \<Rightarrow> u64 \<Rightarrow> u32 \<Rightarrow> (bytes, storage_error) result" where
  "mem_read s segment offset len =
     (if length (mt_segments s) \<le> unat segment then Err (SeSegmentNotFound segment)
      else let seg = mt_segments s ! unat segment
           in if length seg \<le> unat offset then Err SeNotFound else Ok (fst (seg ! unat offset)))"

definition mem_rotate :: "mem_trail \<Rightarrow> (segment_id, storage_error) result \<times> mem_trail" where
  "mem_rotate s =
     (let s' = s\<lparr>mt_segments := mt_segments s @ [[]]\<rparr> in (Ok (of_nat (length (mt_segments s') - 1)), s'))"

definition mem_scan :: "mem_trail \<Rightarrow> segment_id \<Rightarrow> u64 \<Rightarrow> (scanned_entry list, storage_error) result" where
  "mem_scan s segment from_offset =
     (if length (mt_segments s) \<le> unat segment then Err (SeSegmentNotFound segment)
      else Ok (map (\<lambda>(i, e). (of_nat i, e))
        (drop (unat from_offset) (enumerate 0 (mt_segments s ! unat segment)))))"

definition mem_metadata :: "mem_trail \<Rightarrow> storage_metadata" where
  "mem_metadata s =
     \<lparr>sm_current_segment = of_nat (length (mt_segments s) - 1), sm_total_entries = mt_sequence_counter s,
      sm_chain_head = mt_chain_head s, sm_total_bytes = mt_total_bytes s\<rparr>"

type_synonym mem_checkpoints = "(chain_hash, bytes) hmap"

definition mem_cp_store :: "chain_hash \<Rightarrow> bytes \<Rightarrow> mem_checkpoints \<Rightarrow> (bool, storage_error) result \<times> mem_checkpoints" where
  "mem_cp_store h payload s = (if hhas s h then (Ok False, s) else (Ok True, hput h payload s))"

definition mem_cp_read :: "mem_checkpoints \<Rightarrow> chain_hash \<Rightarrow> (bytes option, storage_error) result" where
  "mem_cp_read s h = Ok (hget s h)"

definition mem_cp_exists :: "mem_checkpoints \<Rightarrow> chain_hash \<Rightarrow> (bool, storage_error) result" where
  "mem_cp_exists s h = Ok (hhas s h)"

definition mem_cp_delete :: "chain_hash \<Rightarrow> mem_checkpoints \<Rightarrow> (bool, storage_error) result \<times> mem_checkpoints" where
  "mem_cp_delete h s = (Ok (hhas s h), hdel h s)"

record mem_snapshots =
  ms_workspaces :: "(string, bytes) hmap"
  ms_systems :: "(u64 \<times> bytes) list"

definition mem_write_workspace :: "workspace_id \<Rightarrow> bytes \<Rightarrow> mem_snapshots \<Rightarrow> (unit, storage_error) result \<times> mem_snapshots" where
  "mem_write_workspace w data s = (Ok (), s\<lparr>ms_workspaces := hput w data (ms_workspaces s)\<rparr>)"

definition mem_read_workspace :: "mem_snapshots \<Rightarrow> workspace_id \<Rightarrow> (bytes option, storage_error) result" where
  "mem_read_workspace s w = Ok (hget (ms_workspaces s) w)"

definition mem_delete_workspace :: "workspace_id \<Rightarrow> mem_snapshots \<Rightarrow> (unit, storage_error) result \<times> mem_snapshots" where
  "mem_delete_workspace w s = (Ok (), s\<lparr>ms_workspaces := hdel w (ms_workspaces s)\<rparr>)"

definition mem_write_system :: "u64 \<Rightarrow> bytes \<Rightarrow> mem_snapshots \<Rightarrow> (unit, storage_error) result \<times> mem_snapshots" where
  "mem_write_system sequence data s = (Ok (), s\<lparr>ms_systems := ms_systems s @ [(sequence, data)]\<rparr>)"

definition mem_read_latest_system :: "mem_snapshots \<Rightarrow> ((u64 \<times> bytes) option, storage_error) result" where
  "mem_read_latest_system s = Ok (if ms_systems s = [] then None else Some (last (ms_systems s)))"

section \<open>The chain is tamper evident\<close>

text \<open>Every hash is the hash of its predecessor and its entry.\<close>

fun linked :: "(bytes \<Rightarrow> bytes) \<Rightarrow> chain_hash \<Rightarrow> chain \<Rightarrow> bool" where
  "linked sha previous [] = True"
| "linked sha previous ((e, h) # es) = (h = sha (previous @ e) \<and> linked sha h es)"

lemma linked_append: "linked sha p (es @ fs) \<longleftrightarrow> linked sha p es \<and> linked sha (if es = [] then p else snd (last es)) fs"
  by (induction sha p es rule: linked.induct) auto

lemma linked_snoc: "linked sha genesis (es @ [(e, h)]) \<longleftrightarrow> linked sha genesis es \<and> h = sha (head_of es @ e)"
  by (auto simp: linked_append head_of_def)

lemma verify_loop_iff: "verify_loop sha i p es = Ok () \<longleftrightarrow> linked sha p es"
  by (induction sha i p es rule: verify_loop.induct) (auto simp: compute_chain_hash_def Let_def)

lemma verify_chain_iff: "verify_chain sha es = Ok () \<longleftrightarrow> linked sha genesis es"
  by (simp add: verify_chain_def verify_loop_iff)

lemma verify_loop_Err:
  "verify_loop sha i p es = Err err \<Longrightarrow>
     \<exists>k < length es. cv_index err = i + k \<and> linked sha p (take k es)
       \<and> cv_expected err = snd (es ! k) \<and> cv_computed err \<noteq> cv_expected err
       \<and> cv_computed err = sha ((if k = 0 then p else snd (es ! (k - 1))) @ fst (es ! k))"
proof (induction sha i p es arbitrary: err rule: verify_loop.induct)
  case (2 sha i p e h es)
  show ?case
  proof (cases "sha (p @ e) = h")
    case True
    with 2(2) have "verify_loop sha (Suc i) h es = Err err" by (simp add: compute_chain_hash_def Let_def)
    from 2(1) [OF refl _ this] True obtain k where "k < length es" "cv_index err = Suc i + k" "linked sha h (take k es)"
      "cv_expected err = snd (es ! k)" "cv_computed err \<noteq> cv_expected err"
      "cv_computed err = sha ((if k = 0 then h else snd (es ! (k - 1))) @ fst (es ! k))"
      by (auto simp: compute_chain_hash_def)
    then show ?thesis using True by (intro exI [of _ "Suc k"]) (auto simp: nth_Cons split: nat.splits)
  next
    case False
    with 2(2) show ?thesis by (intro exI [of _ 0]) (auto simp: compute_chain_hash_def Let_def)
  qed
qed simp

text \<open>Verification accepts exactly the chains in which every hash links an entry to its predecessor, and
  an error names the first broken link: all entries before it verify, and the hash computed there
  differs from the one stored.\<close>

theorem verify_chain_first_break:
  "case verify_chain sha es of
     Ok _ \<Rightarrow> linked sha genesis es
   | Err err \<Rightarrow> cv_index err < length es \<and> linked sha genesis (take (cv_index err) es)
       \<and> \<not> linked sha genesis (take (Suc (cv_index err)) es)
       \<and> cv_expected err = snd (es ! cv_index err) \<and> cv_computed err \<noteq> cv_expected err"
proof (cases "verify_chain sha es")
  case (Ok u)
  with verify_chain_iff [of sha es] show ?thesis by simp
next
  case (Err err)
  from verify_loop_Err [OF this [unfolded verify_chain_def]] obtain k where k: "k < length es" "cv_index err = k"
    "linked sha genesis (take k es)" "cv_expected err = snd (es ! k)" "cv_computed err \<noteq> cv_expected err"
    "cv_computed err = sha ((if k = 0 then genesis else snd (es ! (k - 1))) @ fst (es ! k))" by auto
  have "head_of (take k es) = (if k = 0 then genesis else snd (es ! (k - 1)))"
    using k(1) by (cases k) (auto simp: head_of_def last_conv_nth)
  moreover obtain e h where eh: "es ! k = (e, h)" by (cases "es ! k")
  moreover have "take (Suc k) es = take k es @ [(e, h)]" using k(1) eh by (simp add: take_Suc_conv_app_nth)
  ultimately have "\<not> linked sha genesis (take (Suc k) es)" using k(4-6) by (auto simp: linked_snoc)
  with Err k show ?thesis by simp
qed

text \<open>The byte strings that are hashed along a chain.\<close>

fun hashed :: "chain_hash \<Rightarrow> chain \<Rightarrow> bytes set" where
  "hashed previous [] = {}"
| "hashed previous ((e, h) # es) = insert (previous @ e) (hashed h es)"

lemma hashed_append: "hashed p (es @ fs) = hashed p es \<union> hashed (if es = [] then p else snd (last es)) fs"
  by (induction p es rule: hashed.induct) auto

lemma hashed_snoc: "hashed genesis (es @ [(e, h)]) = insert (head_of es @ e) (hashed genesis es)"
  by (simp add: hashed_append head_of_def)

abbreviation hashes32 :: "chain \<Rightarrow> bool" where
  "hashes32 es \<equiv> \<forall>(e, h) \<in> set es. length h = 32"

lemma length_head_of: "hashes32 es \<Longrightarrow> length (head_of es) = 32"
  by (auto simp: head_of_def genesis_def dest!: bspec [OF _ last_in_set])

text \<open>C30. The trail is tamper evident: two chains that both verify and have the same head hash are equal, entry
  by entry, so no entry can be changed, dropped, added or moved without changing the head, unless SHA-256
  collides on the byte strings hashed, or hashes one of them to the genesis value.\<close>

theorem chain_tamper_evident:
  assumes "verify_chain sha es = Ok ()" "verify_chain sha fs = Ok ()" "head_of es = head_of fs"
    "hashes32 es" "hashes32 fs"
    and collision_free: "\<forall>x \<in> hashed genesis es. \<forall>y \<in> hashed genesis fs. sha x = sha y \<longrightarrow> x = y"
    and no_genesis: "\<forall>x \<in> hashed genesis es \<union> hashed genesis fs. sha x \<noteq> genesis"
  shows "es = fs"
  using assms unfolding verify_chain_iff
proof (induction es arbitrary: fs rule: rev_induct)
  case Nil
  then show ?case by (cases fs rule: rev_cases) (auto simp: linked_snoc hashed_snoc)
next
  case (snoc x es)
  obtain e h where x: "x = (e, h)" by (cases x)
  show ?case
  proof (cases fs rule: rev_cases)
    case Nil
    with snoc.prems show ?thesis by (auto simp: x linked_snoc hashed_snoc)
  next
    case (snoc fs' y)
    obtain e' h' where y: "y = (e', h')" by (cases y)
    have "sha (head_of es @ e) = sha (head_of fs' @ e')"
      using snoc.prems(1-3) snoc unfolding x y by (simp add: linked_snoc)
    then have eq: "head_of es @ e = head_of fs' @ e'"
      using snoc.prems(6) snoc unfolding x y by (simp add: hashed_snoc)
    have "length (head_of es) = length (head_of fs')" using snoc.prems(4,5) snoc by (simp add: length_head_of)
    with eq have "head_of es = head_of fs'" "e = e'" by auto
    moreover have "h = h'" using snoc.prems(3) snoc by (simp add: x y)
    ultimately show ?thesis using snoc.IH [of fs'] snoc.prems snoc by (simp add: x y linked_snoc hashed_snoc)
  qed
qed

section \<open>The in-memory storage implements the interfaces\<close>

definition mem_contents :: "mem_trail \<Rightarrow> chain" where
  "mem_contents s = concat (mt_segments s)"

definition mem_ok :: "mem_trail \<Rightarrow> bool" where
  "mem_ok s \<longleftrightarrow> mt_segments s \<noteq> [] \<and> length (mt_segments s) \<le> 2 ^ 64
     \<and> mt_sequence_counter s = of_nat (length (mem_contents s)) \<and> mt_chain_head s = head_of (mem_contents s)"

definition mem_fits :: "mem_trail \<Rightarrow> bytes \<Rightarrow> bool" where
  "mem_fits s e \<longleftrightarrow> length (mt_segments s) < 2 ^ 64"

lemma mem_append_spec:
  assumes "mem_ok s"
  shows "\<exists>r s'. mem_append e h s = Some (Ok r, s') \<and> mem_ok s' \<and> mem_contents s' = mem_contents s @ [(e, h)]
    \<and> wr_sequence r = of_nat (length (mem_contents s'))"
proof -
  obtain ss seg where "mt_segments s = ss @ [seg]" using assms by (cases "mt_segments s" rule: rev_cases) (auto simp: mem_ok_def)
  then show ?thesis using assms
    by (auto simp: mem_append_def mem_ok_def mem_contents_def Let_def head_of_def)
qed

lemma mem_scan_Ok:
  assumes "mem_ok s" "i < length (mt_segments s)"
  shows "mem_scan s (of_nat i) 0 = Ok (map (\<lambda>(i, e). (of_nat i, e)) (enumerate 0 (mt_segments s ! i)))"
proof -
  have "unat (of_nat i :: u64) = i" using assms by (intro unat_of_nat_u64) (simp add: mem_ok_def)
  with assms(2) show ?thesis by (simp add: mem_scan_def)
qed

lemma map_entry_enumerate: "map entry_of (map (\<lambda>(i, e). (of_nat i, e)) (enumerate n es)) = es"
  by (simp add: o_def split_beta)

interpretation mem_store: trail_storage
  "\<lambda>e h s. map_option snd (mem_append e h s)" "\<lambda>s. snd (mem_rotate s)" mem_scan mem_metadata mem_ok mem_fits mem_contents
proof
  fix s e and h :: chain_hash
  assume "mem_ok s"
  from mem_append_spec [OF this, of e h]
  show "\<exists>s'. map_option snd (mem_append e h s) = Some s' \<and> mem_ok s' \<and> mem_contents s' = mem_contents s @ [(e, h)]"
    by auto
next
  fix s e
  assume "mem_ok s" "mem_fits s e"
  then show "mem_ok (snd (mem_rotate s)) \<and> mem_contents (snd (mem_rotate s)) = mem_contents s"
    by (simp add: mem_rotate_def mem_ok_def mem_contents_def mem_fits_def Let_def)
next
  fix s
  assume ok: "mem_ok s"
  let ?ess = "map (\<lambda>seg. map (\<lambda>(i, e). (of_nat i, e)) (enumerate 0 seg)) (mt_segments s)"
  have "unat (of_nat (length (mt_segments s) - 1) :: u64) = length (mt_segments s) - 1"
    using ok by (intro unat_of_nat_u64) (auto simp: mem_ok_def)
  then have "length ?ess = Suc (unat (sm_current_segment (mem_metadata s)))"
    using ok by (simp add: mem_metadata_def mem_ok_def)
  moreover have "map (map entry_of) ?ess = mt_segments s"
    by (rule nth_equalityI) (simp_all del: map_map add: map_entry_enumerate)
  then have "concat (map (map entry_of) ?ess) = mem_contents s" by (simp only: mem_contents_def)
  ultimately show "\<exists>ess. length ess = Suc (unat (sm_current_segment (mem_metadata s)))
      \<and> (\<forall>i < length ess. mem_scan s (of_nat i) 0 = Ok (ess ! i)) \<and> mem_contents s = concat (map (map entry_of) ess)"
    using mem_scan_Ok [OF ok] by (intro exI [of _ ?ess]) simp
next
  fix s
  assume "mem_ok s"
  then show "sm_total_entries (mem_metadata s) = of_nat (length (mem_contents s))
      \<and> sm_chain_head (mem_metadata s) = head_of (mem_contents s)"
    by (simp add: mem_metadata_def mem_ok_def)
qed

interpretation mem_cps: checkpoint_storage
  mem_cp_store mem_cp_read mem_cp_exists mem_cp_delete hget "\<lambda>h p. True"
  by unfold_locales (auto simp: mem_cp_store_def mem_cp_read_def mem_cp_exists_def mem_cp_delete_def hhas_def)

text \<open>Replacing the entry of a chain changes its head.\<close>

theorem chain_tamper_evident_witness:
  "let sha = (\<lambda>x :: bytes. replicate 31 0 @ [last x]);
       es = [([1], sha (genesis @ [1]))]; fs = [([2], sha (genesis @ [2]))]
   in verify_chain sha es = Ok () \<and> verify_chain sha fs = Ok () \<and> head_of es \<noteq> head_of fs"
proof -
  let ?sha = "\<lambda>x :: bytes. replicate 31 0 @ [last x]"
  let ?es = "[([1], ?sha (genesis @ [1]))] :: chain" and ?fs = "[([2], ?sha (genesis @ [2]))] :: chain"
  have v: "verify_chain ?sha ?es = Ok ()" "verify_chain ?sha ?fs = Ok ()" by (simp_all add: verify_chain_iff)
  have "replicate 31 0 @ [b] \<noteq> genesis" if "b \<noteq> 0" for b
    using that by (intro notI) (drule arg_cong [where f = last], simp add: genesis_def)
  then have "\<forall>x \<in> hashed genesis ?es \<union> hashed genesis ?fs. ?sha x \<noteq> genesis" by simp
  then have "head_of ?es \<noteq> head_of ?fs"
    using chain_tamper_evident [OF v] by auto
  with v show ?thesis by (simp add: Let_def)
qed

end
