(* ===== verification/Wacp_Clock.thy ===== *)
theory Wacp_Clock
  imports Wacp_Types
begin

text \<open>
  The hybrid logical clock (crate \<open>wacp-clock\<close>): 80-bit timestamps with their total order,
  successor and 10-byte big-endian encoding, and the clock's three generation rules. The
  physical time source is an argument: each operation receives the value its call of
  \<open>now_us\<close> returned, with nothing assumed about it (it may repeat or go backwards).
\<close>

section \<open>Big-endian byte strings\<close>

text \<open>\<open>to_be_bytes\<close> of a \<open>k\<close>-byte unsigned integer, and its inverse; the order of byte
  strings is that of slices (and of blobs in the trail index).\<close>

primrec be_bytes :: "nat \<Rightarrow> nat \<Rightarrow> bytes" where
  "be_bytes 0 n = []"
| "be_bytes (Suc k) n = be_bytes k (n div 256) @ [word_of_nat (n mod 256)]"

definition be_value :: "bytes \<Rightarrow> nat" where
  "be_value bs = foldl (\<lambda>a b. 256 * a + unat b) 0 bs"

fun bytes_less :: "bytes \<Rightarrow> bytes \<Rightarrow> bool" where
  "bytes_less _ [] = False"
| "bytes_less [] (b # bs) = True"
| "bytes_less (a # as) (b # bs) = (a < b \<or> a = b \<and> bytes_less as bs)"

lemma length_be_bytes [simp]: "length (be_bytes k n) = k"
  by (induction k arbitrary: n) auto

lemma be_value_snoc [simp]: "be_value (bs @ [b]) = 256 * be_value bs + unat b"
  by (simp add: be_value_def)

lemma be_value_Nil [simp]: "be_value [] = 0"
  by (simp add: be_value_def)

lemma unat_byte [simp]: "n < 256 \<Longrightarrow> unat (word_of_nat n :: u8) = n"
  by (simp add: unat_of_nat)

lemma be_value_be_bytes: "be_value (be_bytes k n) = n mod 256 ^ k"
proof (induction k arbitrary: n)
  case (Suc k)
  have "be_value (be_bytes (Suc k) n) = 256 * ((n div 256) mod 256 ^ k) + n mod 256"
    by (simp add: Suc)
  also have "\<dots> = n mod 256 ^ Suc k"
    by (simp add: mod_mult2_eq)
  finally show ?case .
qed simp

lemma be_value_Cons: "be_value (b # bs) = unat b * 256 ^ length bs + be_value bs"
  by (induction bs rule: rev_induct) (simp_all add: be_value_def)

lemma be_value_bound: "be_value bs < 256 ^ length bs"
proof (induction bs)
  case (Cons b bs)
  have "unat b < 256" using unat_bound [of b] by simp
  then have le: "(unat b + 1) * 256 ^ length bs \<le> 256 * 256 ^ length bs"
    by (intro mult_right_mono) auto
  have "be_value (b # bs) < (unat b + 1) * 256 ^ length bs"
    using Cons by (simp add: be_value_Cons)
  also note le
  finally show ?case by simp
qed simp

lemma be_bytes_be_value: "be_bytes (length bs) (be_value bs) = bs"
proof (induction bs rule: rev_induct)
  case (snoc b bs)
  have "unat b < 256" using unat_bound [of b] by simp
  with snoc show ?case by simp
qed simp

lemma bytes_less_value:
  "length as = length bs \<Longrightarrow> bytes_less as bs \<longleftrightarrow> be_value as < be_value bs"
proof (induction as bs rule: list_induct2)
  case (Cons a as b bs)
  have ba: "be_value as < 256 ^ length as" and bb: "be_value bs < 256 ^ length as"
    using be_value_bound [of as] be_value_bound [of bs] Cons.hyps by simp_all
  consider "unat a < unat b" | "unat a = unat b" | "unat b < unat a" by linarith
  then show ?case
  proof cases
    case 1
    then have "(unat a + 1) * 256 ^ length as \<le> unat b * 256 ^ length as"
      by (intro mult_right_mono) auto
    with 1 ba Cons.hyps show ?thesis by (simp add: be_value_Cons word_less_nat_alt)
  next
    case 2
    then have "a = b" by (simp add: word_unat_eq_iff)
    with Cons show ?thesis by (simp add: be_value_Cons)
  next
    case 3
    then have "(unat b + 1) * 256 ^ length as \<le> unat a * 256 ^ length as"
      by (intro mult_right_mono) auto
    with 3 bb Cons.hyps show ?thesis by (auto simp: be_value_Cons word_less_nat_alt)
  qed
qed simp

section \<open>Timestamps\<close>

datatype timestamp = Timestamp (physical_us: u64) (logical: u16)

definition ZERO :: timestamp where
  "ZERO = Timestamp 0 0"

definition to_bytes :: "timestamp \<Rightarrow> bytes" where
  "to_bytes t = be_bytes 8 (unat (physical_us t)) @ be_bytes 2 (unat (logical t))"

text \<open>The argument is a 10-byte array; the slices \<open>[..8]\<close> and \<open>[8..10]\<close> are total on it.\<close>

definition from_bytes :: "bytes \<Rightarrow> timestamp" where
  "from_bytes bs =
     Timestamp (word_of_nat (be_value (take 8 bs))) (word_of_nat (be_value (take 2 (drop 8 bs))))"

definition succ :: "timestamp \<Rightarrow> timestamp" where
  "succ t = (if logical t = - 1 then Timestamp (physical_us t + 1) 0
             else Timestamp (physical_us t) (logical t + 1))"

lemma timestamp_eq_iff:
  "s = t \<longleftrightarrow> physical_us s = physical_us t \<and> logical s = logical t"
  by (cases s; cases t) simp

text \<open>\<open>Ord for Timestamp\<close>: physical first, then logical.\<close>

instantiation timestamp :: linorder
begin

definition less_timestamp :: "timestamp \<Rightarrow> timestamp \<Rightarrow> bool" where
  "s < t \<longleftrightarrow> physical_us s < physical_us t
            \<or> physical_us s = physical_us t \<and> logical s < logical t"

definition less_eq_timestamp :: "timestamp \<Rightarrow> timestamp \<Rightarrow> bool" where
  "s \<le> (t :: timestamp) \<longleftrightarrow> s < t \<or> s = t"

instance
  by intro_classes
    (auto simp: less_timestamp_def less_eq_timestamp_def timestamp_eq_iff)

end

definition timestamp_value :: "timestamp \<Rightarrow> nat" where
  "timestamp_value t = unat (physical_us t) * 65536 + unat (logical t)"

lemma unat_u16_bound: "unat (x :: u16) < 65536"
  using unat_bound [of x] by simp

lemma timestamp_less_value: "s < t \<longleftrightarrow> timestamp_value s < timestamp_value t"
proof -
  have "unat (logical s) < 65536" "unat (logical t) < 65536" by (rule unat_u16_bound)+
  then show ?thesis
    unfolding less_timestamp_def timestamp_value_def word_less_nat_alt word_unat_eq_iff
    by (auto; linarith)
qed

lemma be_value_to_bytes: "be_value (to_bytes t) = timestamp_value t"
proof -
  have split: "be_value (as @ bs) = be_value as * 256 ^ length bs + be_value bs" for as bs
    by (induction as) (simp_all add: be_value_Cons power_add algebra_simps)
  have "unat (physical_us t) < 256 ^ 8" "unat (logical t) < 256 ^ 2"
    using unat_bound [of "physical_us t"] unat_u16_bound [of "logical t"]
    by simp_all
  then show ?thesis
    unfolding to_bytes_def split be_value_be_bytes timestamp_value_def
    by (simp only: mod_less length_be_bytes) simp
qed

lemma timestamp_roundtrip: "from_bytes (to_bytes t) = t"
proof -
  have "unat (physical_us t) < 256 ^ 8" "unat (logical t) < 256 ^ 2"
    using unat_bound [of "physical_us t"] unat_u16_bound [of "logical t"]
    by simp_all
  then show ?thesis
    unfolding from_bytes_def to_bytes_def
    by (simp add: be_value_be_bytes del: be_bytes.simps)
qed

text \<open>C12. The 10-byte encoding of timestamps is faithful, has the fixed length, and the byte order of
  encodings is the order of timestamps, so an index sorted by encoded bytes is sorted by time.\<close>

theorem timestamp_encoding:
  "from_bytes (to_bytes t) = t \<and> length (to_bytes t) = 10
   \<and> (bytes_less (to_bytes s) (to_bytes t) \<longleftrightarrow> s < t)"
proof -
  have len: "length (to_bytes u) = 10" for u by (simp add: to_bytes_def del: be_bytes.simps)
  show ?thesis
    using len by (simp add: timestamp_roundtrip bytes_less_value timestamp_less_value be_value_to_bytes)
qed

lemma succ_greater:
  assumes "t \<noteq> Timestamp (- 1) (- 1)"
  shows "t < succ t"
proof (cases "logical t = - 1")
  case True
  with assms have "physical_us t \<noteq> - 1" by (auto simp: timestamp_eq_iff)
  then have "physical_us t < physical_us t + 1" by (simp add: word_less_nat_alt unat_plus_one)
  with True show ?thesis by (simp add: succ_def less_timestamp_def)
next
  case False
  then have "logical t < logical t + 1" by (simp add: word_less_nat_alt unat_plus_one)
  with False show ?thesis by (simp add: succ_def less_timestamp_def)
qed

text \<open>The one timestamp without a successor: the physical part wraps and time restarts.\<close>

lemma succ_wraps: "succ (Timestamp (- 1) (- 1)) = ZERO"
  by (simp add: succ_def ZERO_def)

section \<open>The clock\<close>

text \<open>The clock's state is its last timestamp; \<open>pt\<close> is what the time source returned.\<close>

record clock =
  last_ts :: timestamp

definition clock_new :: clock where
  "clock_new = \<lparr>last_ts = ZERO\<rparr>"

definition with_initial :: "timestamp \<Rightarrow> clock" where
  "with_initial t = \<lparr>last_ts = t\<rparr>"

definition clock_now :: "u64 \<Rightarrow> clock \<Rightarrow> timestamp \<times> clock" where
  "clock_now pt c =
     (let t = (if pt > physical_us (last_ts c) then Timestamp pt 0
               else Timestamp (physical_us (last_ts c)) (saturating_add (logical (last_ts c)) 1))
      in (t, c\<lparr>last_ts := t\<rparr>))"

definition clock_send :: "u64 \<Rightarrow> clock \<Rightarrow> timestamp \<times> clock" where
  "clock_send pt c = clock_now pt c"

definition clock_recv :: "u64 \<Rightarrow> timestamp \<Rightarrow> clock \<Rightarrow> timestamp \<times> clock" where
  "clock_recv pt remote c =
     (let lp = physical_us (last_ts c); ll = logical (last_ts c);
          rp = physical_us remote; rl = logical remote;
          max_physical = max (max pt lp) rp;
          lg = (if max_physical > lp \<and> max_physical > rp then 0
                else if max_physical = lp \<and> max_physical = rp then saturating_add (max ll rl) 1
                else if max_physical = lp then saturating_add ll 1
                else saturating_add rl 1);
          t = Timestamp max_physical lg
      in (t, c\<lparr>last_ts := t\<rparr>))"

text \<open>Each operation as one event, and a run of events with the timestamps it produced.\<close>

datatype clock_op = OpNow u64 | OpSend u64 | OpRecv u64 timestamp

fun clock_step :: "clock_op \<Rightarrow> clock \<Rightarrow> timestamp \<times> clock" where
  "clock_step (OpNow pt) c = clock_now pt c"
| "clock_step (OpSend pt) c = clock_send pt c"
| "clock_step (OpRecv pt r) c = clock_recv pt r c"

fun clock_run :: "clock_op list \<Rightarrow> clock \<Rightarrow> timestamp list" where
  "clock_run [] c = []"
| "clock_run (e # es) c = (let (t, c') = clock_step e c in t # clock_run es c')"

text \<open>A logical counter is saturated when it holds the largest \<open>u16\<close>.\<close>

definition saturated :: "timestamp \<Rightarrow> bool" where
  "saturated t \<longleftrightarrow> logical t = - 1"

lemma clock_step_last [simp]: "last_ts (snd (clock_step e c)) = fst (clock_step e c)"
  by (cases e) (simp_all add: clock_now_def clock_send_def clock_recv_def Let_def)

lemma saturating_add_one_gr: "(a :: u16) < saturating_add b 1 \<longleftrightarrow> a \<le> b \<and> b \<noteq> - 1 \<or> a < b"
proof (cases "b = - 1")
  case False
  then have "unat (b + 1) = Suc (unat b)" by (rule unat_plus_one)
  with False show ?thesis
    by (auto simp: saturating_add_one word_less_nat_alt word_le_nat_alt)
qed simp

lemmas max_u16 = word_order.not_eq_extremum [symmetric, where 'a = 16]
  word_order.extremum_unique [where 'a = 16]

lemmas clock_defs = max_u16 clock_now_def clock_send_def clock_recv_def Let_def
  less_timestamp_def less_eq_timestamp_def saturated_def timestamp_eq_iff

lemma clock_now_greater:
  assumes "\<not> saturated (last_ts c) \<or> physical_us (last_ts c) < pt"
  shows "last_ts c < fst (clock_now pt c)"
  using assms by (auto simp: clock_defs saturating_add_one_gr)

lemma clock_recv_greater_last:
  "\<not> saturated (last_ts c) \<Longrightarrow> last_ts c < fst (clock_recv pt remote c)"
  by (auto simp: clock_defs saturating_add_one_gr max_def not_le split: if_splits)

lemma clock_step_greater: "\<not> saturated (last_ts c) \<Longrightarrow> last_ts c < fst (clock_step e c)"
  by (cases e) (simp_all add: clock_now_greater clock_recv_greater_last clock_send_def)

lemma clock_recv_ge:
  "last_ts c \<le> fst (clock_recv pt remote c)" "remote \<le> fst (clock_recv pt remote c)"
  by (auto simp: clock_defs saturating_add_one_gr max_def not_le split: if_splits)

lemma clock_step_mono: "last_ts c \<le> fst (clock_step e c)"
proof (cases e)
  case (OpRecv pt r)
  then show ?thesis by (simp add: clock_recv_ge)
qed (auto simp: clock_defs saturating_add_one_gr)

text \<open>A received timestamp advances the clock strictly past both the last local and the remote
  timestamp, except in one situation: the one of the two that carries the largest physical time
  has a saturated logical counter. This is exact, for every reading of the physical clock.\<close>

theorem clock_recv_strict_iff:
  "(last_ts c < fst (clock_recv pt remote c) \<and> remote < fst (clock_recv pt remote c))
   \<longleftrightarrow> \<not> (let m = max (max pt (physical_us (last_ts c))) (physical_us remote) in
         physical_us (last_ts c) = m \<and> saturated (last_ts c)
         \<or> physical_us remote = m \<and> saturated remote)"
  by (auto simp: clock_defs saturating_add_one_gr max_def not_le not_less split: if_splits)

text \<open>C11. The timestamps a clock issues never go backwards, whatever the physical clock reads and
  whatever is received, and they are strictly increasing as long as no logical counter has
  saturated.\<close>

theorem clock_run_increasing:
  "sorted (last_ts c # clock_run es c)
   \<and> ((\<forall>t \<in> set (butlast (last_ts c # clock_run es c)). \<not> saturated t)
        \<longrightarrow> sorted_wrt (<) (last_ts c # clock_run es c))"
proof (induction es arbitrary: c)
  case (Cons e es)
  obtain t c' where step: "clock_step e c = (t, c')" by fastforce
  then have [simp]: "last_ts c' = t" using clock_step_last [of e c] by simp
  have le: "last_ts c \<le> t" using clock_step_mono [of c e] step by simp
  have less: "\<not> saturated (last_ts c) \<Longrightarrow> last_ts c < t"
    using clock_step_greater [of c e] step by simp
  from Cons [of c'] step le less show ?case
    by (auto simp: order.strict_trans2 dest: order.strict_trans)
qed simp

theorem clock_run_increasing_witness:
  "clock_run [OpNow 5, OpNow 3, OpRecv 4 (Timestamp 9 2), OpSend 9] clock_new
     = [Timestamp 5 0, Timestamp 5 1, Timestamp 9 3, Timestamp 9 4]
   \<and> sorted_wrt (<) (clock_run [OpNow 5, OpNow 3, OpRecv 4 (Timestamp 9 2), OpSend 9] clock_new)"
proof -
  have run: "clock_run [OpNow 5, OpNow 3, OpRecv 4 (Timestamp 9 2), OpSend 9] clock_new
     = [Timestamp 5 0, Timestamp 5 1, Timestamp 9 3, Timestamp 9 4]"
    by (simp add: clock_new_def ZERO_def clock_now_def clock_send_def clock_recv_def Let_def
        saturating_add_def max_def)
  moreover have "\<forall>t \<in> set (butlast (last_ts clock_new # clock_run [OpNow 5, OpNow 3, OpRecv 4 (Timestamp 9 2), OpSend 9] clock_new)). \<not> saturated t"
    unfolding run by (simp add: clock_new_def ZERO_def saturated_def)
  ultimately show ?thesis
    using clock_run_increasing [of clock_new "[OpNow 5, OpNow 3, OpRecv 4 (Timestamp 9 2), OpSend 9]"]
    by (simp del: clock_run.simps)
qed

end
