(* ===== verification/Wacp_File_Trail.thy ===== *)
theory Wacp_File_Trail
  imports Wacp_Trail Wacp_Clock
begin

text \<open>
  The trail on disk (\<open>wacp-trail/src/fs_trail.rs\<close>): segment files of framed entries, opening, crash recovery,
  appending with rotation, reading and scanning. The directory is a map from file names to contents and part
  of the state. Input and output succeed; what an interrupted write leaves behind is a prefix of the bytes it
  was to add, and the theorems on recovery are about every such prefix.
\<close>

section \<open>File names\<close>

type_synonym directory = "(string, bytes) hmap"

definition segment_path :: "segment_id \<Rightarrow> string" where
  "segment_path n = ''segment-'' @ pad6 (unat n) @ ''.trail''"

definition segment_of :: "string \<Rightarrow> segment_id option" where
  "segment_of name =
     (case strip_prefix ''segment-'' name of
        None \<Rightarrow> None
      | Some rest \<Rightarrow> (case strip_suffix ''.trail'' rest of None \<Rightarrow> None | Some num_str \<Rightarrow> parse_u64 num_str))"

definition list_segments :: "directory \<Rightarrow> segment_id list" where
  "list_segments dir = sort (List.map_filter segment_of (map fst dir))"

definition create_segment_file :: "directory \<Rightarrow> segment_id \<Rightarrow> directory" where
  "create_segment_file dir n = (if hhas dir (segment_path n) then dir else hput (segment_path n) [] dir)"

section \<open>Frames\<close>

text \<open>The length of the entry as a big-endian \<open>u32\<close>, the entry, its hash.\<close>

definition frame_length :: "bytes \<Rightarrow> u32" where
  "frame_length entry = of_nat (length entry)"

definition frame :: "bytes \<times> chain_hash \<Rightarrow> bytes" where
  "frame p = be_bytes 4 (unat (frame_length (fst p))) @ fst p @ snd p"

definition entry_overhead :: u64 where
  "entry_overhead = 4 + 32"

function scan_frames :: "bytes \<Rightarrow> nat \<Rightarrow> (nat \<times> bytes \<times> chain_hash) list" where
  "scan_frames data pos =
     (if pos + 4 \<le> length data then
        let len = be_value (take 4 (drop pos data))
        in if pos + 4 + len + 32 > length data then []
           else (pos, take len (drop (pos + 4) data), take 32 (drop (pos + 4 + len) data))
                # scan_frames data (pos + 4 + len + 32)
      else [])"
  by pat_completeness auto

termination by (relation "measure (\<lambda>(data, pos). length data - pos)") auto

declare scan_frames.simps [simp del]

definition scan_segment_file_from :: "directory \<Rightarrow> segment_id \<Rightarrow> u64 \<Rightarrow> (scanned_entry list, storage_error) result" where
  "scan_segment_file_from dir n from_offset =
     (case hget dir (segment_path n) of
        None \<Rightarrow> Err (SeSegmentNotFound n)
      | Some data \<Rightarrow> Ok (map (\<lambda>(pos, e). (of_nat pos, e)) (scan_frames data (unat from_offset))))"

definition scan_segment_file :: "directory \<Rightarrow> segment_id \<Rightarrow> (scanned_entry list, storage_error) result" where
  "scan_segment_file dir n = scan_segment_file_from dir n 0"

text \<open>The end of the last complete entry, and the file without what follows it.\<close>

function tail_loop :: "bytes \<Rightarrow> nat \<Rightarrow> nat \<Rightarrow> nat" where
  "tail_loop data pos last_valid_end =
     (if pos + 4 \<le> length data then
        let len = be_value (take 4 (drop pos data)); entry_end = pos + 4 + len + 32
        in if entry_end > length data then last_valid_end else tail_loop data entry_end entry_end
      else last_valid_end)"
  by pat_completeness auto

termination by (relation "measure (\<lambda>(data, pos, _). length data - pos)") auto

declare tail_loop.simps [simp del]

definition truncate_partial_tail :: "string \<Rightarrow> directory \<Rightarrow> directory" where
  "truncate_partial_tail path dir =
     (case hget dir path of
        None \<Rightarrow> dir
      | Some data \<Rightarrow>
          let last_valid_end = tail_loop data 0 0
          in if last_valid_end < length data then hput path (take last_valid_end data) dir else dir)"

section \<open>The storage\<close>

text \<open>The open file is the one of the active segment; the directory stands for \<open>dir\<close> and its files.\<close>

record file_trail =
  ft_dir :: directory
  ft_active_segment :: segment_id
  ft_active_size :: u64
  ft_sequence_counter :: u64
  ft_chain_head :: chain_hash
  ft_max_segment_size :: u64

record file_trail_config =
  fc_dir :: directory
  fc_max_segment_size :: u64

fun resume_loop :: "directory \<Rightarrow> segment_id list \<Rightarrow> u64 \<Rightarrow> chain_hash \<Rightarrow> (u64 \<times> chain_hash, storage_error) result" where
  "resume_loop dir [] sequence_counter chain_head = Ok (sequence_counter, chain_head)"
| "resume_loop dir (n # ns) sequence_counter chain_head =
     (case scan_segment_file dir n of
        Err e \<Rightarrow> Err e
      | Ok entries \<Rightarrow>
          (let (c, h) = foldl (\<lambda>(c, h) entry. (c + 1, snd (entry_of entry))) (sequence_counter, chain_head) entries
           in resume_loop dir ns c h))"

definition ft_open :: "file_trail_config \<Rightarrow> (file_trail, storage_error) result" where
  "ft_open cfg =
     (let dir = fc_dir cfg; seg_ids = sort (list_segments dir)
      in if seg_ids = [] then
           Ok \<lparr>ft_dir = create_segment_file dir 0, ft_active_segment = 0, ft_active_size = 0,
               ft_sequence_counter = 0, ft_chain_head = genesis, ft_max_segment_size = fc_max_segment_size cfg\<rparr>
         else case resume_loop dir seg_ids 0 genesis of
           Err e \<Rightarrow> Err e
         | Ok (sequence_counter, chain_head) \<Rightarrow>
             (let active_seg = last seg_ids
              in case hget dir (segment_path active_seg) of
                   None \<Rightarrow> Err (SeIo ''entity not found'')
                 | Some data \<Rightarrow>
                     Ok \<lparr>ft_dir = dir, ft_active_segment = active_seg, ft_active_size = of_nat (length data),
                         ft_sequence_counter = sequence_counter, ft_chain_head = chain_head,
                         ft_max_segment_size = fc_max_segment_size cfg\<rparr>))"

definition ft_recover :: "file_trail_config \<Rightarrow> (file_trail, storage_error) result" where
  "ft_recover cfg =
     (let seg_ids = sort (list_segments (fc_dir cfg))
      in if seg_ids = [] then ft_open cfg
         else ft_open (cfg\<lparr>fc_dir := truncate_partial_tail (segment_path (last seg_ids)) (fc_dir cfg)\<rparr>))"

definition ft_rotate :: "file_trail \<Rightarrow> (segment_id, storage_error) result \<times> file_trail" where
  "ft_rotate s =
     (let new_id = ft_active_segment s + 1
      in (Ok new_id, s\<lparr>ft_dir := create_segment_file (ft_dir s) new_id, ft_active_segment := new_id, ft_active_size := 0\<rparr>))"

definition ft_write :: "bytes \<Rightarrow> file_trail \<Rightarrow> file_trail" where
  "ft_write bs s = s\<lparr>ft_dir := hupd (segment_path (ft_active_segment s)) (\<lambda>data. data @ bs) (ft_dir s)\<rparr>"

definition ft_append :: "bytes \<Rightarrow> chain_hash \<Rightarrow> file_trail \<Rightarrow> (write_receipt, storage_error) result \<times> file_trail" where
  "ft_append entry h s =
     (let s1 = ft_write h (ft_write entry (ft_write (be_bytes 4 (unat (frame_length entry))) s));
          s2 = s1\<lparr>ft_active_size := ft_active_size s + (entry_overhead + of_nat (length entry)),
                  ft_sequence_counter := ft_sequence_counter s + 1, ft_chain_head := h\<rparr>;
          receipt = \<lparr>wr_segment = ft_active_segment s, wr_offset = ft_active_size s, wr_sequence = ft_sequence_counter s2\<rparr>
      in if ft_max_segment_size s \<le> ft_active_size s2
         then (case ft_rotate s2 of (Err e, s3) \<Rightarrow> (Err e, s3) | (Ok _, s3) \<Rightarrow> (Ok receipt, s3))
         else (Ok receipt, s2))"

text \<open>The error of \<open>read_exact\<close> at the end of the file.\<close>

definition eof_error :: storage_error where
  "eof_error = SeIo ''failed to fill whole buffer''"

definition ft_read :: "file_trail \<Rightarrow> segment_id \<Rightarrow> u64 \<Rightarrow> u32 \<Rightarrow> (bytes, storage_error) result" where
  "ft_read s segment offset len =
     (case hget (ft_dir s) (segment_path segment) of
        None \<Rightarrow> Err (SeSegmentNotFound segment)
      | Some data \<Rightarrow>
          let rest = drop (unat offset) data
          in if length rest < 4 then Err eof_error
             else let n = be_value (take 4 rest)
                  in if length rest < 4 + n then Err eof_error else Ok (take n (drop 4 rest)))"

definition ft_scan :: "file_trail \<Rightarrow> segment_id \<Rightarrow> u64 \<Rightarrow> (scanned_entry list, storage_error) result" where
  "ft_scan s segment from_offset = scan_segment_file_from (ft_dir s) segment from_offset"

definition ft_metadata :: "file_trail \<Rightarrow> storage_metadata" where
  "ft_metadata s =
     \<lparr>sm_current_segment = ft_active_segment s, sm_total_entries = ft_sequence_counter s,
      sm_chain_head = ft_chain_head s, sm_total_bytes = ft_active_size s\<rparr>"

section \<open>Segment names are read back\<close>

lemma read_nat_zeros: "read_nat (replicate k (CHR ''0'') @ s) = read_nat s"
proof -
  have "foldl (\<lambda>acc c. 10 * acc + (of_char c - 48)) 0 (replicate k (CHR ''0'')) = (0::nat)"
    by (induction k) simp_all
  then show ?thesis by (simp add: read_nat_def)
qed

lemma parse_pad6: "parse_u64 (pad6 (unat n)) = Some n"
proof -
  have "list_all is_digit (pad6 (unat n))" "pad6 (unat n) \<noteq> []"
    using show_nat_digits by (auto simp: pad6_def list_all_iff is_digit_def)
  moreover have "read_nat (pad6 (unat n)) = unat n" by (simp add: pad6_def read_nat_zeros read_show_nat)
  moreover have "unat n < 2 ^ 64" using unat_bound [of n] by simp
  ultimately show ?thesis by (simp add: parse_u64_def parse_digits)
qed

lemma segment_of_path [simp]: "segment_of (segment_path n) = Some n"
proof -
  have "strip_prefix ''segment-'' (segment_path n) = Some (pad6 (unat n) @ ''.trail'')"
    by (simp add: strip_prefix_def segment_path_def)
  moreover have "strip_suffix ''.trail'' (pad6 (unat n) @ ''.trail'') = Some (pad6 (unat n))"
    by (simp add: strip_suffix_def)
  ultimately show ?thesis by (simp add: segment_of_def parse_pad6)
qed

lemma segment_path_inject [simp]: "segment_path m = segment_path n \<longleftrightarrow> m = n"
  by (metis option.inject segment_of_path)

section \<open>Frames are read back\<close>

definition framed :: "bytes \<times> chain_hash \<Rightarrow> bool" where
  "framed p \<longleftrightarrow> length (fst p) < 2 ^ 32 \<and> length (snd p) = 32"

definition frames :: "chain \<Rightarrow> bytes" where
  "frames es = concat (map frame es)"

lemma length_frame: "framed p \<Longrightarrow> length (frame p) = length (fst p) + 36"
  by (simp add: frame_def framed_def)

lemma take_frame:
  assumes "framed p"
  shows "be_value (take 4 (frame p @ post)) = length (fst p)"
    "take (length (fst p)) (drop 4 (frame p @ post)) = fst p"
    "take 32 (drop (4 + length (fst p)) (frame p @ post)) = snd p"
proof -
  have "unat (frame_length (fst p)) = length (fst p)" "length (fst p) < 256 ^ 4"
    using assms by (simp_all add: framed_def frame_length_def unsigned_of_nat take_bit_nat_eq_self)
  then show "be_value (take 4 (frame p @ post)) = length (fst p)"
    by (simp add: frame_def be_value_be_bytes)
  show "take (length (fst p)) (drop 4 (frame p @ post)) = fst p" by (simp add: frame_def)
  show "take 32 (drop (4 + length (fst p)) (frame p @ post)) = snd p"
    using assms by (simp add: frame_def framed_def)
qed

text \<open>One step of either loop over a complete frame, and the end of either loop at a torn one.\<close>

lemma scan_step:
  assumes "framed p"
  shows "scan_frames (pre @ frame p @ post) (length pre)
     = (length pre, p) # scan_frames (pre @ frame p @ post) (length pre + length (frame p))"
  using take_frame [OF assms, of post] length_frame [OF assms] assms [unfolded framed_def]
  by (subst scan_frames.simps) (simp add: Let_def add.commute add.left_commute)

lemma tail_step:
  assumes "framed p"
  shows "tail_loop (pre @ frame p @ post) (length pre) k
     = tail_loop (pre @ frame p @ post) (length pre + length (frame p)) (length pre + length (frame p))"
  using take_frame(1) [OF assms, of post] length_frame [OF assms]
  by (subst tail_loop.simps) (simp add: Let_def add.commute add.left_commute)

lemma torn_frame:
  assumes "framed p" "n < length (frame p)" "4 \<le> n"
  shows "be_value (take 4 (take n (frame p))) + 36 > n"
  using take_frame(1) [OF assms(1), of "[]"] assms(2,3) length_frame [OF assms(1)] by (simp add: min_def)

lemma scan_torn:
  assumes "framed p" "n < length (frame p)"
  shows "scan_frames (pre @ take n (frame p)) (length pre) = []"
proof (cases "4 \<le> n")
  case True
  then show ?thesis using torn_frame [OF assms True] assms(2) by (subst scan_frames.simps) (simp add: Let_def min_def)
next
  case False
  then show ?thesis using assms(2) by (subst scan_frames.simps) (simp add: min_def)
qed

lemma tail_torn:
  assumes "framed p" "n < length (frame p)"
  shows "tail_loop (pre @ take n (frame p)) (length pre) k = k"
proof (cases "4 \<le> n")
  case True
  then show ?thesis using torn_frame [OF assms True] assms(2) by (subst tail_loop.simps) (simp add: Let_def min_def)
next
  case False
  then show ?thesis using assms(2) by (subst tail_loop.simps) (simp add: min_def)
qed

text \<open>Scanning frames followed by a torn one gives the framed entries with their offsets.\<close>

fun offsets :: "nat \<Rightarrow> chain \<Rightarrow> (nat \<times> bytes \<times> chain_hash) list" where
  "offsets pos [] = []"
| "offsets pos (p # es) = (pos, p) # offsets (pos + length (frame p)) es"

lemma map_snd_offsets [simp]: "map snd (offsets pos es) = es"
  by (induction pos es rule: offsets.induct) auto

lemma frames_simps [simp]: "frames [] = []" "frames (p # es) = frame p @ frames es" "frames (es @ fs) = frames es @ frames fs"
  by (simp_all add: frames_def)

lemma scan_frames_torn:
  assumes "\<forall>p \<in> set es. framed p" "framed q" "n < length (frame q)"
  shows "scan_frames (pre @ frames es @ take n (frame q)) (length pre) = offsets (length pre) es"
  using assms(1)
proof (induction es arbitrary: pre)
  case Nil
  show ?case using scan_torn [OF assms(2,3)] by simp
next
  case (Cons p es)
  then show ?case
    using scan_step [of p pre "frames es @ take n (frame q)"] Cons.IH [of "pre @ frame p"] by simp
qed

lemma tail_loop_torn:
  assumes "\<forall>p \<in> set es. framed p" "framed q" "n < length (frame q)" "k = length pre"
  shows "tail_loop (pre @ frames es @ take n (frame q)) (length pre) k = length pre + length (frames es)"
  using assms(1,4)
proof (induction es arbitrary: pre k)
  case Nil
  show ?case using tail_torn [OF assms(2,3)] Nil by simp
next
  case (Cons p es)
  then show ?case
    using tail_step [of p pre "frames es @ take n (frame q)" k] Cons.IH [of _ "pre @ frame p"] by simp
qed

text \<open>The frames of a segment are read back exactly, with a torn frame at the end ignored, however many of its bytes
  reached the disk; and truncation removes exactly the torn frame.\<close>

theorem frames_roundtrip:
  assumes "\<forall>p \<in> set es. framed p" "framed q" "n < length (frame q)"
  shows "map snd (scan_frames (frames es @ take n (frame q)) 0) = es
    \<and> take (tail_loop (frames es @ take n (frame q)) 0 0) (frames es @ take n (frame q)) = frames es"
  using scan_frames_torn [OF assms, of "[]"] tail_loop_torn [OF assms, of 0 "[]"] by simp

lemma scan_frames_exact: "\<forall>p \<in> set es. framed p \<Longrightarrow> scan_frames (frames es) 0 = offsets 0 es"
  using scan_frames_torn [of es "([], replicate 32 0)" 0 "[]"] by (simp add: framed_def length_frame)

lemma tail_loop_exact: "\<forall>p \<in> set es. framed p \<Longrightarrow> tail_loop (frames es) 0 0 = length (frames es)"
  using tail_loop_torn [of es "([], replicate 32 0)" 0 0 "[]"] by (simp add: framed_def length_frame)

section \<open>The state on disk\<close>

text \<open>
  The segments \<open>ess\<close> are on disk: files for the segments 0 to the active one and no other segment file, each
  holding the frames of its entries, and the counters of the storage agree with them.
\<close>

definition on_disk :: "directory \<Rightarrow> chain list \<Rightarrow> bool" where
  "on_disk dir ess \<longleftrightarrow> hmap_ok dir \<and> ess \<noteq> [] \<and> length ess \<le> 2 ^ 64
     \<and> (\<forall>i < length ess. hget dir (segment_path (of_nat i)) = Some (frames (ess ! i)))
     \<and> (\<forall>name n. hhas dir name \<longrightarrow> segment_of name = Some n \<longrightarrow> name = segment_path n \<and> unat n < length ess)
     \<and> (\<forall>es \<in> set ess. \<forall>p \<in> set es. framed p)"

definition counters_ok :: "file_trail \<Rightarrow> chain list \<Rightarrow> bool" where
  "counters_ok s ess \<longleftrightarrow> unat (ft_active_segment s) = length ess - 1
     \<and> ft_active_size s = of_nat (length (frames (last ess)))
     \<and> ft_sequence_counter s = of_nat (length (concat ess)) \<and> ft_chain_head s = head_of (concat ess)"

definition file_rep :: "file_trail \<Rightarrow> chain list \<Rightarrow> bool" where
  "file_rep s ess \<longleftrightarrow> on_disk (ft_dir s) ess \<and> counters_ok s ess"

lemma segments_listed:
  assumes "on_disk dir ess"
  shows "list_segments dir = map of_nat [0..<length ess]"
proof -
  let ?ns = "List.map_filter segment_of (map fst dir)"
  have d: "hmap_ok dir" and path: "segment_of name = Some n \<Longrightarrow> name = segment_path n \<and> unat n < length ess"
    if "hhas dir name" for name n
    using assms that by (auto simp: on_disk_def)
  have keys: "name \<in> set (map fst dir) \<longleftrightarrow> hhas dir name" for name
    using hget_None_iff [of dir name] by (auto simp: hhas_def)
  have bound: "length ess \<le> 2 ^ 64" and there: "\<forall>i < length ess. hhas dir (segment_path (of_nat i))"
    using assms by (auto simp: on_disk_def hhas_def)
  have nat: "unat (of_nat i :: u64) = i" if "i < length ess" for i using bound that by (intro unat_of_nat_u64) simp
  have "distinct ?ns"
  proof -
    have "distinct (List.map_filter segment_of ks)" if "distinct ks" "\<forall>k \<in> set ks. hhas dir k" for ks
      using that
    proof (induction ks)
      case (Cons k ks)
      have "n \<notin> set (List.map_filter segment_of ks)" if k: "segment_of k = Some n" for n
      proof
        assume "n \<in> set (List.map_filter segment_of ks)"
        then obtain k' where "k' \<in> set ks" "segment_of k' = Some n" by (auto simp: map_filter_def)
        moreover have "hhas dir k" "hhas dir k'" using Cons.prems(2) \<open>k' \<in> set ks\<close> by simp_all
        ultimately have "k = k'" using path k by metis
        with \<open>k' \<in> set ks\<close> Cons.prems(1) show False by simp
      qed
      with Cons show ?case by (auto simp: map_filter_simps split: option.splits)
    qed (simp add: map_filter_simps)
    moreover have "distinct (map fst dir)" using assms by (simp add: on_disk_def hmap_ok_def)
    ultimately show ?thesis using keys by blast
  qed
  moreover have "set ?ns = set (map of_nat [0..<length ess])"
  proof (intro set_eqI iffI)
    fix n assume "n \<in> set ?ns"
    then obtain name where "hhas dir name" "segment_of name = Some n" using keys by (auto simp: map_filter_def)
    then have "unat n < length ess" using path by blast
    moreover have "n = of_nat (unat n)" by simp
    ultimately show "n \<in> set (map of_nat [0..<length ess])" by (metis atLeastLessThan_iff image_eqI list.set_map set_upt zero_le)
  next
    fix n :: u64 assume "n \<in> set (map of_nat [0..<length ess])"
    then obtain i where "i < length ess" "n = of_nat i" by auto
    then have "segment_path n \<in> set (map fst dir)" using there keys by blast
    then show "n \<in> set ?ns" by (force simp: map_filter_def)
  qed
  moreover have "sorted (map of_nat [0..<length ess] :: u64 list)" "distinct (map of_nat [0..<length ess] :: u64 list)"
    using nat by (auto simp: sorted_iff_nth_mono word_le_nat_alt distinct_map intro!: inj_onI) (metis nat)
  ultimately show ?thesis
    unfolding list_segments_def by (metis distinct_sort set_sort sorted_distinct_set_unique sorted_sort)
qed

text \<open>Opening a directory of segments reconstructs the counters.\<close>

lemma count_entries:
  "foldl (\<lambda>(c, h) entry. (c + 1, snd (entry_of entry))) (c :: u64, h) entries
   = (c + of_nat (length (map entry_of entries)),
      if map entry_of entries = [] then h else snd (last (map entry_of entries)))"
  by (induction entries rule: rev_induct) (simp_all add: split_beta algebra_simps)

lemma scan_segment:
  assumes "on_disk dir ess" "i < length ess"
  shows "scan_segment_file dir (of_nat i) = Ok (map (\<lambda>(pos, e). (of_nat pos, e)) (offsets 0 (ess ! i)))"
proof -
  have "\<forall>p \<in> set (ess ! i). framed p" "hget dir (segment_path (of_nat i)) = Some (frames (ess ! i))"
    using assms nth_mem unfolding on_disk_def by blast+
  then show ?thesis by (simp add: scan_segment_file_def scan_segment_file_from_def scan_frames_exact)
qed

lemma map_entry_offsets: "map entry_of (map (\<lambda>(pos, e). (of_nat pos, e)) (offsets n es)) = es"
  using map_snd_offsets [of n es] by (simp add: o_def split_beta)

lemma resume_segment:
  assumes "on_disk dir ess" "i < length ess"
  shows "resume_loop dir (of_nat i # ns) c h
    = resume_loop dir ns (c + of_nat (length (ess ! i))) (if ess ! i = [] then h else snd (last (ess ! i)))"
  unfolding resume_loop.simps scan_segment [OF assms] result.case count_entries map_entry_offsets by simp

lemma resume_loop_disk:
  assumes "on_disk dir ess" "k \<le> length ess"
  shows "resume_loop dir (map of_nat [k..<length ess]) (of_nat (length (concat (take k ess)))) (head_of (concat (take k ess)))
    = Ok (of_nat (length (concat ess)), head_of (concat ess))"
  using assms(2)
proof (induction k rule: inc_induct)
  case base
  show ?case by simp
next
  case (step k)
  have "take (Suc k) ess = take k ess @ [ess ! k]" using step.hyps by (simp add: take_Suc_conv_app_nth)
  then have "length (concat (take (Suc k) ess)) = length (concat (take k ess)) + length (ess ! k)"
    "head_of (concat (take (Suc k) ess)) = (if ess ! k = [] then head_of (concat (take k ess)) else snd (last (ess ! k)))"
    by (auto simp: head_of_def)
  with step show ?case by (simp add: upt_conv_Cons resume_segment [OF assms(1)] del: resume_loop.simps)
qed

lemma open_disk:
  assumes "on_disk dir ess"
  shows "ft_open \<lparr>fc_dir = dir, fc_max_segment_size = mx\<rparr> =
    Ok \<lparr>ft_dir = dir, ft_active_segment = of_nat (length ess - 1),
        ft_active_size = of_nat (length (frames (last ess))), ft_sequence_counter = of_nat (length (concat ess)),
        ft_chain_head = head_of (concat ess), ft_max_segment_size = mx\<rparr>"
proof -
  have ne: "ess \<noteq> []" and seg: "\<forall>i < length ess. hget dir (segment_path (of_nat i)) = Some (frames (ess ! i))"
    using assms by (auto simp: on_disk_def)
  have srt: "sort (list_segments dir) = map of_nat [0..<length ess]"
    unfolding segments_listed [OF assms, symmetric] list_segments_def by (simp only: sorted_sort_id sorted_sort)
  have "hget dir (segment_path (of_nat (length ess - 1))) = Some (frames (last ess))"
    using seg ne by (simp add: last_conv_nth)
  moreover have "last (map of_nat [0..<length ess] :: u64 list) = of_nat (length ess - 1)" using ne by (simp add: last_map)
  moreover have "resume_loop dir (map of_nat [0..<length ess]) 0 genesis = Ok (of_nat (length (concat ess)), head_of (concat ess))"
    using resume_loop_disk [OF assms, of 0] by simp
  ultimately show ?thesis using ne by (simp add: ft_open_def srt Let_def)
qed

lemma file_rep_eq:
  assumes "file_rep s ess"
  shows "ft_active_segment s = of_nat (length ess - 1)" "ft_active_size s = of_nat (length (frames (last ess)))"
    "ft_sequence_counter s = of_nat (length (concat ess))" "ft_chain_head s = head_of (concat ess)"
    "hget (ft_dir s) (segment_path (ft_active_segment s)) = Some (frames (last ess))"
proof -
  show a: "ft_active_segment s = of_nat (length ess - 1)"
  proof -
    have "of_nat (unat (ft_active_segment s)) = ft_active_segment s" by simp
    then show ?thesis using assms unfolding file_rep_def counters_ok_def by metis
  qed
  then show "hget (ft_dir s) (segment_path (ft_active_segment s)) = Some (frames (last ess))"
    using assms by (simp add: file_rep_def on_disk_def last_conv_nth)
qed (use assms in \<open>simp_all add: file_rep_def counters_ok_def\<close>)

text \<open>Steps on disk: appending a frame to the last segment, and a new segment.\<close>

declare hput_hput [simp]

lemma on_disk_last:
  assumes "on_disk dir ess"
  shows "hget dir (segment_path (of_nat (length ess - 1))) = Some (frames (last ess))"
  using assms by (simp add: on_disk_def last_conv_nth)

lemma on_disk_append:
  assumes d: "on_disk dir ess" and p: "framed p"
  shows "on_disk (hput (segment_path (of_nat (length ess - 1))) (frames (last ess) @ frame p) dir)
    (butlast ess @ [last ess @ [p]])"
proof -
  obtain ss es where ess: "ess = ss @ [es]" using d by (cases ess rule: rev_cases) (auto simp: on_disk_def)
  have b: "length ess \<le> 2 ^ 64" using d by (simp add: on_disk_def)
  have inj: "segment_path (of_nat i) = segment_path (of_nat (length ss)) \<longleftrightarrow> i = length ss" if "i < length ess" for i
  proof -
    have "unat (of_nat i :: u64) = i" "unat (of_nat (length ss) :: u64) = length ss"
      using b that by (auto intro!: unat_of_nat_u64 simp: ess)
    then show ?thesis by (metis segment_path_inject)
  qed
  have "hhas dir (segment_path (of_nat (length ss)))" using on_disk_last [OF d] by (simp add: ess hhas_def)
  then have "hhas (hput (segment_path (of_nat (length ss))) v dir) name = hhas dir name" for name v
    by (auto simp: hhas_def)
  with d p inj show ?thesis unfolding on_disk_def ess by (auto simp: nth_append less_Suc_eq)
qed

lemma on_disk_rotate:
  assumes d: "on_disk dir ess" and "length ess < 2 ^ 64"
  shows "on_disk (create_segment_file dir (of_nat (length ess))) (ess @ [[]])"
proof -
  have n: "unat (of_nat (length ess) :: u64) = length ess" by (rule unat_of_nat_u64) fact
  then have new: "\<not> hhas dir (segment_path (of_nat (length ess)))" using d unfolding on_disk_def
    by (metis less_irrefl segment_of_path)
  have old: "segment_path (of_nat i) \<noteq> segment_path (of_nat (length ess))" if "i < length ess" for i
    using n unat_of_nat_u64 [of i] assms(2) that by (metis less_irrefl less_trans segment_path_inject)
  show ?thesis using d new old n assms(2) unfolding on_disk_def create_segment_file_def
    by (auto simp: nth_append less_Suc_eq)
qed

section \<open>Opening and crash recovery\<close>

lemma open_rep:
  assumes "file_rep s ess"
  shows "ft_open \<lparr>fc_dir = ft_dir s, fc_max_segment_size = ft_max_segment_size s\<rparr> = Ok s"
  using open_disk [of "ft_dir s" ess "ft_max_segment_size s"] file_rep_eq(1-4) [OF assms] assms
  by (simp add: file_rep_def)

lemma sort_listed: "sort (list_segments dir) = list_segments dir"
  unfolding list_segments_def by (simp only: sorted_sort_id sorted_sort)

lemma recover_torn:
  assumes r: "file_rep s ess" and p: "framed p" "n < length (frame p)"
  shows "ft_recover \<lparr>fc_dir = ft_dir (ft_write (take n (frame p)) s), fc_max_segment_size = ft_max_segment_size s\<rparr> = Ok s"
proof -
  let ?path = "segment_path (ft_active_segment s)" and ?dir = "ft_dir (ft_write (take n (frame p)) s)"
  have d: "on_disk (ft_dir s) ess" using r by (simp add: file_rep_def)
  have content: "hget (ft_dir s) ?path = Some (frames (last ess))" by (rule file_rep_eq(5) [OF r])
  have torn: "?dir = hput ?path (frames (last ess) @ take n (frame p)) (ft_dir s)"
    using content by (simp add: ft_write_def hupd_def)
  then have "map fst ?dir = map fst (ft_dir s)" using content by (simp add: map_fst_hput hhas_def)
  then have "list_segments ?dir = list_segments (ft_dir s)" by (simp only: list_segments_def)
  then have ids: "sort (list_segments ?dir) = map of_nat [0..<length ess]"
    unfolding sort_listed segments_listed [OF d] .
  have ne: "ess \<noteq> []" and fr: "\<forall>p \<in> set (last ess). framed p" using d last_in_set unfolding on_disk_def by blast+
  have "tail_loop (frames (last ess) @ take n (frame p)) 0 0 = length (frames (last ess))"
    using tail_loop_torn [OF fr p, of 0 "[]"] by simp
  then have "truncate_partial_tail ?path ?dir = ft_dir s"
    using hput_known [OF content] unfolding torn by (simp add: truncate_partial_tail_def Let_def)
  moreover have "last (map of_nat [0..<length ess] :: u64 list) = ft_active_segment s"
    using ne file_rep_eq(1) [OF r] by (simp add: last_map)
  ultimately show ?thesis using ne open_rep [OF r] by (simp add: ft_recover_def ids Let_def)
qed

lemma recover_complete:
  assumes r: "file_rep s ess"
  shows "ft_recover \<lparr>fc_dir = ft_dir s, fc_max_segment_size = ft_max_segment_size s\<rparr> = Ok s"
  using recover_torn [OF r, of "([], replicate 32 0)" 0] file_rep_eq(5) [OF r] hput_known [OF file_rep_eq(5) [OF r]]
  by (simp add: ft_write_def hupd_def framed_def length_frame)

section \<open>Appending, rotating, reading\<close>

lemma write_rep:
  assumes "hget (ft_dir s) (segment_path (ft_active_segment s)) = Some d"
  shows "ft_write bs s = s\<lparr>ft_dir := hput (segment_path (ft_active_segment s)) (d @ bs) (ft_dir s)\<rparr>"
  using assms by (simp add: ft_write_def hupd_def)

definition appended :: "bytes \<Rightarrow> chain_hash \<Rightarrow> file_trail \<Rightarrow> file_trail" where
  "appended e h s = (ft_write (frame (e, h)) s)\<lparr>
     ft_active_size := ft_active_size s + (entry_overhead + of_nat (length e)),
     ft_sequence_counter := ft_sequence_counter s + 1, ft_chain_head := h\<rparr>"

lemma ft_append_eq:
  assumes "file_rep s ess"
  shows "ft_append e h s =
    (Ok \<lparr>wr_segment = ft_active_segment s, wr_offset = ft_active_size s, wr_sequence = ft_sequence_counter s + 1\<rparr>,
     if ft_max_segment_size s \<le> ft_active_size s + (entry_overhead + of_nat (length e))
     then snd (ft_rotate (appended e h s)) else appended e h s)"
proof -
  have w: "ft_write h (ft_write e (ft_write (be_bytes 4 (unat (frame_length e))) s)) = ft_write (frame (e, h)) s"
    using file_rep_eq(5) [OF assms] by (simp add: write_rep frame_def)
  show ?thesis unfolding ft_append_def w Let_def appended_def by (simp add: ft_rotate_def Let_def)
qed

lemma appended_rep:
  assumes r: "file_rep s ess" and p: "framed (e, h)"
  shows "file_rep (appended e h s) (butlast ess @ [last ess @ [(e, h)]])"
proof -
  have d: "on_disk (ft_dir s) ess" using r by (simp add: file_rep_def)
  obtain ss es where ess: "ess = ss @ [es]" using d by (cases ess rule: rev_cases) (auto simp: on_disk_def)
  have "ft_dir (appended e h s) = hput (segment_path (of_nat (length ess - 1))) (frames (last ess) @ frame (e, h)) (ft_dir s)"
    using file_rep_eq(1,5) [OF r] by (simp add: appended_def write_rep)
  then have "on_disk (ft_dir (appended e h s)) (butlast ess @ [last ess @ [(e, h)]])"
    using on_disk_append [OF d p] by simp
  moreover have "length (frame (e, h)) = length e + 36" using length_frame [OF p] by simp
  ultimately show ?thesis using r
    by (auto simp: file_rep_def counters_ok_def appended_def ft_write_def ess entry_overhead_def head_of_def algebra_simps)
qed

lemma rotate_rep:
  assumes r: "file_rep s ess" and room: "ft_active_segment s \<noteq> - 1"
  shows "file_rep (snd (ft_rotate s)) (ess @ [[]])"
proof -
  have d: "on_disk (ft_dir s) ess" using r by (simp add: file_rep_def)
  have u: "unat (ft_active_segment s + 1) = length ess"
    using r room unat_plus_one [of "ft_active_segment s"] by (auto simp: file_rep_def counters_ok_def on_disk_def)
  moreover have "of_nat (unat (ft_active_segment s + 1)) = ft_active_segment s + 1" by simp
  ultimately have seg: "ft_active_segment s + 1 = of_nat (length ess)" by metis
  have "length ess < 2 ^ 64" using u unat_bound [of "ft_active_segment s + 1"] by simp
  from on_disk_rotate [OF d this] u r show ?thesis
    by (auto simp: file_rep_def counters_ok_def ft_rotate_def Let_def seg head_of_def)
qed

definition ft_fits :: "file_trail \<Rightarrow> bytes \<Rightarrow> bool" where
  "ft_fits s e \<longleftrightarrow> length e < 2 ^ 32 \<and> ft_active_segment s \<noteq> - 1"

definition file_ok :: "file_trail \<Rightarrow> bool" where
  "file_ok s \<longleftrightarrow> (\<exists>ess. file_rep s ess)"

definition ft_contents :: "file_trail \<Rightarrow> chain" where
  "ft_contents s = concat (map (\<lambda>i. case ft_scan s (of_nat i) 0 of Ok es \<Rightarrow> map entry_of es | Err _ \<Rightarrow> [])
     [0..<Suc (unat (ft_active_segment s))])"

lemma ft_scan_rep:
  assumes "file_rep s ess" "i < length ess"
  shows "ft_scan s (of_nat i) 0 = Ok (map (\<lambda>(pos, e). (of_nat pos, e)) (offsets 0 (ess ! i)))"
  using scan_segment [OF _ assms(2)] assms(1) by (simp add: file_rep_def ft_scan_def scan_segment_file_def)

lemma ft_contents_rep:
  assumes "file_rep s ess"
  shows "ft_contents s = concat ess"
proof -
  have len: "Suc (unat (ft_active_segment s)) = length ess"
    using assms by (auto simp: file_rep_def counters_ok_def on_disk_def)
  have "map (\<lambda>i. case ft_scan s (of_nat i) 0 of Ok es \<Rightarrow> map entry_of es | Err _ \<Rightarrow> []) [0..<length ess] = map ((!) ess) [0..<length ess]"
  proof (rule map_cong [OF refl])
    fix i assume "i \<in> set [0..<length ess]"
    then show "(case ft_scan s (of_nat i) 0 of Ok es \<Rightarrow> map entry_of es | Err _ \<Rightarrow> []) = ess ! i"
      using map_entry_offsets [of 0 "ess ! i"] by (simp only: ft_scan_rep [OF assms] set_upt atLeastLessThan_iff result.case)
  qed
  then show ?thesis unfolding ft_contents_def len by (simp add: map_nth)
qed

lemma ft_append_rep:
  assumes r: "file_rep s ess" and f: "ft_fits s e" "length h = 32"
  obtains ess' where "file_rep (snd (ft_append e h s)) ess'" "concat ess' = concat ess @ [(e, h)]"
proof -
  have p: "framed (e, h)" using f by (simp add: framed_def ft_fits_def)
  note a = appended_rep [OF r p]
  have c: "concat (butlast ess @ [last ess @ [(e, h)]]) = concat ess @ [(e, h)]"
    using r by (cases ess rule: rev_cases) (auto simp: file_rep_def on_disk_def)
  have seg: "ft_active_segment (appended e h s) \<noteq> - 1" using f by (simp add: appended_def ft_write_def ft_fits_def)
  show ?thesis
  proof (cases "ft_max_segment_size s \<le> ft_active_size s + (entry_overhead + of_nat (length e))")
    case True
    then have "file_rep (snd (ft_append e h s)) ((butlast ess @ [last ess @ [(e, h)]]) @ [[]])"
      using rotate_rep [OF a seg] by (simp add: ft_append_eq [OF r])
    then show ?thesis by (rule that) (use c in simp)
  next
    case False
    then have "file_rep (snd (ft_append e h s)) (butlast ess @ [last ess @ [(e, h)]])" using a by (simp add: ft_append_eq [OF r])
    then show ?thesis using c by (rule that)
  qed
qed

interpretation file_store: trail_storage
  "\<lambda>e h s. Some (snd (ft_append e h s))" "\<lambda>s. snd (ft_rotate s)" ft_scan ft_metadata file_ok ft_fits ft_contents
proof
  fix s e and h :: chain_hash
  assume "file_ok s" and f: "ft_fits s e" "length h = 32"
  then obtain ess where r: "file_rep s ess" by (auto simp: file_ok_def)
  obtain ess' where "file_rep (snd (ft_append e h s)) ess'" "concat ess' = concat ess @ [(e, h)]"
    by (rule ft_append_rep [OF r f])
  then show "\<exists>s'. Some (snd (ft_append e h s)) = Some s' \<and> file_ok s' \<and> ft_contents s' = ft_contents s @ [(e, h)]"
    by (auto simp: file_ok_def ft_contents_rep [OF r] ft_contents_rep)
next
  fix s e
  assume "file_ok s" and f: "ft_fits s e"
  then obtain ess where r: "file_rep s ess" by (auto simp: file_ok_def)
  have "file_rep (snd (ft_rotate s)) (ess @ [[]])" using f by (intro rotate_rep [OF r]) (simp add: ft_fits_def)
  then show "file_ok (snd (ft_rotate s)) \<and> ft_contents (snd (ft_rotate s)) = ft_contents s"
    by (auto simp: file_ok_def ft_contents_rep [OF r] dest: ft_contents_rep)
next
  fix s
  assume "file_ok s"
  then obtain ess where r: "file_rep s ess" by (auto simp: file_ok_def)
  let ?ess = "map (\<lambda>es. map (\<lambda>(pos, e). (of_nat pos, e)) (offsets 0 es)) ess"
  have "length ?ess = Suc (unat (sm_current_segment (ft_metadata s)))"
    using r by (auto simp: ft_metadata_def file_rep_def counters_ok_def on_disk_def)
  moreover have "map (map entry_of) ?ess = ess"
    by (rule nth_equalityI) (simp_all del: map_map add: map_entry_offsets)
  ultimately show "\<exists>ess. length ess = Suc (unat (sm_current_segment (ft_metadata s)))
      \<and> (\<forall>i < length ess. ft_scan s (of_nat i) 0 = Ok (ess ! i)) \<and> ft_contents s = concat (map (map entry_of) ess)"
    using ft_scan_rep [OF r] ft_contents_rep [OF r] by (intro exI [of _ ?ess]) simp
next
  fix s
  assume "file_ok s"
  then obtain ess where r: "file_rep s ess" by (auto simp: file_ok_def)
  show "sm_total_entries (ft_metadata s) = of_nat (length (ft_contents s))
      \<and> sm_chain_head (ft_metadata s) = head_of (ft_contents s)"
    by (simp add: ft_metadata_def file_rep_eq [OF r] ft_contents_rep [OF r])
qed

lemma read_frame:
  assumes "hget (ft_dir s) (segment_path seg) = Some (pre @ frame p)" "unat offset = length pre" "framed p"
  shows "ft_read s seg offset n = Ok (fst p)"
  using assms take_frame [OF assms(3), of "[]"] length_frame [OF assms(3)] by (simp add: ft_read_def Let_def)

lemma append_file:
  assumes r: "file_rep s ess"
  shows "hget (ft_dir (snd (ft_append e h s))) (segment_path (ft_active_segment s)) = Some (frames (last ess) @ frame (e, h))"
proof -
  have a: "hget (ft_dir (appended e h s)) (segment_path (ft_active_segment s)) = Some (frames (last ess) @ frame (e, h))"
    using file_rep_eq(5) [OF r] by (simp add: appended_def write_rep)
  moreover have "ft_active_segment (appended e h s) = ft_active_segment s" by (simp add: appended_def ft_write_def)
  ultimately have "hget (ft_dir (snd (ft_rotate (appended e h s)))) (segment_path (ft_active_segment s)) = Some (frames (last ess) @ frame (e, h))"
    by (simp add: ft_rotate_def create_segment_file_def Let_def)
  with a show ?thesis by (simp add: ft_append_eq [OF r])
qed

text \<open>C29. The trail on disk stores what is appended. On a storage that agrees with its segment files an append succeeds,
  keeps this agreement and adds the entry with its hash at the end of the contents, also when the segment
  rotates; the receipt reads the entry back; and opening the directory afterwards gives exactly
  the resulting storage.\<close>

theorem file_append_durable:
  assumes r: "file_rep s ess" and f: "ft_fits s e" "length h = 32" and size: "length (frames (last ess)) < 2 ^ 64"
  shows "\<exists>receipt s'. ft_append e h s = (Ok receipt, s') \<and> file_ok s' \<and> ft_contents s' = ft_contents s @ [(e, h)]
    \<and> ft_read s' (wr_segment receipt) (wr_offset receipt) n = Ok e
    \<and> ft_open \<lparr>fc_dir = ft_dir s', fc_max_segment_size = ft_max_segment_size s'\<rparr> = Ok s'"
proof -
  obtain receipt s' where a: "ft_append e h s = (Ok receipt, s')" "wr_segment receipt = ft_active_segment s"
    "wr_offset receipt = ft_active_size s" by (simp add: ft_append_eq [OF r])
  obtain ess' where r': "file_rep s' ess'" "concat ess' = concat ess @ [(e, h)]"
    using ft_append_rep [OF r f] a(1) by auto
  have "unat (ft_active_size s) = length (frames (last ess))"
    unfolding file_rep_eq(2) [OF r] by (rule unat_of_nat_u64 [OF size])
  moreover have "framed (e, h)" using f by (simp add: framed_def ft_fits_def)
  ultimately have "ft_read s' (ft_active_segment s) (ft_active_size s) n = Ok e"
    using read_frame [of s' "ft_active_segment s" "frames (last ess)" "(e, h)"] append_file [OF r, of e h] a(1) by simp
  moreover have "ft_contents s' = ft_contents s @ [(e, h)]"
    using r' by (simp add: ft_contents_rep [OF r] ft_contents_rep)
  ultimately show ?thesis using a r' open_rep [OF r'(1)] by (auto simp: file_ok_def)
qed

text \<open>C28. Crash recovery loses nothing that was written and keeps nothing torn. When a crash interrupts an append after any
  number of bytes of its frame, recovery gives back exactly the storage before the append; when all bytes of the
  frame were written it gives the storage with the entry; and after the completed append, the storage itself.\<close>

theorem crash_recovery:
  assumes r: "file_rep s ess" and f: "ft_fits s e" "length h = 32"
  shows "(\<forall>n < length (frame (e, h)). ft_recover \<lparr>fc_dir = ft_dir (ft_write (take n (frame (e, h))) s),
            fc_max_segment_size = ft_max_segment_size s\<rparr> = Ok s)
    \<and> ft_recover \<lparr>fc_dir = ft_dir (ft_write (frame (e, h)) s), fc_max_segment_size = ft_max_segment_size s\<rparr>
        = Ok (appended e h s)
    \<and> ft_contents (appended e h s) = ft_contents s @ [(e, h)]
    \<and> ft_recover \<lparr>fc_dir = ft_dir (snd (ft_append e h s)), fc_max_segment_size = ft_max_segment_size s\<rparr>
        = Ok (snd (ft_append e h s))"
proof -
  have p: "framed (e, h)" using f by (simp add: framed_def ft_fits_def)
  note a = appended_rep [OF r p]
  have "ft_dir (appended e h s) = ft_dir (ft_write (frame (e, h)) s)" "ft_max_segment_size (appended e h s) = ft_max_segment_size s"
    by (simp_all add: appended_def ft_write_def)
  then have "ft_recover \<lparr>fc_dir = ft_dir (ft_write (frame (e, h)) s), fc_max_segment_size = ft_max_segment_size s\<rparr> = Ok (appended e h s)"
    using recover_complete [OF a] by simp
  moreover have "concat (butlast ess @ [last ess @ [(e, h)]]) = concat ess @ [(e, h)]"
    using r by (cases ess rule: rev_cases) (auto simp: file_rep_def on_disk_def)
  then have "ft_contents (appended e h s) = ft_contents s @ [(e, h)]"
    by (simp only: ft_contents_rep [OF a] ft_contents_rep [OF r])
  moreover obtain ess' where "file_rep (snd (ft_append e h s)) ess'" by (rule ft_append_rep [OF r f])
  moreover have "ft_max_segment_size (snd (ft_append e h s)) = ft_max_segment_size s"
    by (simp add: ft_append_eq [OF r] appended_def ft_write_def ft_rotate_def Let_def)
  ultimately show ?thesis using recover_torn [OF r p] recover_complete by metis
qed

section \<open>Concrete instances\<close>

text \<open>A directory without segment files opens as an empty trail.\<close>

lemma fresh_rep:
  assumes "hmap_ok dir" "list_segments dir = []"
  obtains s where "ft_open \<lparr>fc_dir = dir, fc_max_segment_size = mx\<rparr> = Ok s" "file_rep s [[]]" "ft_active_segment s = 0"
    "ft_max_segment_size s = mx"
proof -
  have "List.map_filter segment_of (map fst dir) = []"
    using arg_cong [OF assms(2), of length] by (simp add: list_segments_def)
  then have none: "segment_of name = None" if "hhas dir name" for name
    using that hget_None_iff [of dir name] by (auto simp: map_filter_def filter_empty_conv hhas_def)
  then have "\<not> hhas dir (segment_path 0)" using none [of "segment_path 0"] by auto
  then have "on_disk (create_segment_file dir 0) [[]]"
    using assms(1) none by (auto simp: on_disk_def create_segment_file_def)
  with that show ?thesis by (simp add: ft_open_def assms(2) file_rep_def counters_ok_def)
qed

lemma sample_file_trail:
  obtains s where "ft_open \<lparr>fc_dir = [], fc_max_segment_size = 40\<rparr> = Ok s" "file_rep s [[]]" "ft_fits s [7]"
proof -
  have e: "hmap_ok ([] :: directory)" "list_segments [] = []" by (simp_all add: list_segments_def map_filter_simps)
  show ?thesis by (rule fresh_rep [OF e, of 40]) (auto intro: that simp: ft_fits_def)
qed

theorem frames_roundtrip_witness:
  "map snd (scan_frames (frames [([1, 2], genesis)] @ take 3 (frame ([9], genesis))) 0) = [([1, 2], genesis)]"
  using frames_roundtrip [of "[([1, 2], genesis)]" "([9], genesis)" 3]
  by (simp add: framed_def genesis_def length_frame)

theorem file_append_durable_witness:
  "\<exists>s receipt s'. ft_open \<lparr>fc_dir = [], fc_max_segment_size = 40\<rparr> = Ok s \<and> ft_append [7] genesis s = (Ok receipt, s')
     \<and> ft_read s' (wr_segment receipt) (wr_offset receipt) 0 = Ok [7]"
proof -
  obtain s where s: "ft_open \<lparr>fc_dir = [], fc_max_segment_size = 40\<rparr> = Ok s" "file_rep s [[]]" "ft_fits s [7]"
    by (rule sample_file_trail)
  have "length genesis = 32" "length (frames (last [[]])) < 2 ^ 64" by (simp_all add: genesis_def)
  from file_append_durable [OF s(2,3) this] s(1) show ?thesis by blast
qed

theorem crash_recovery_witness:
  "\<exists>s. ft_open \<lparr>fc_dir = [], fc_max_segment_size = 40\<rparr> = Ok s
     \<and> ft_recover \<lparr>fc_dir = ft_dir (ft_write (take 5 (frame ([7], genesis))) s), fc_max_segment_size = ft_max_segment_size s\<rparr> = Ok s"
proof -
  obtain s where s: "ft_open \<lparr>fc_dir = [], fc_max_segment_size = 40\<rparr> = Ok s" "file_rep s [[]]" "ft_fits s [7]"
    by (rule sample_file_trail)
  have "length genesis = 32" "5 < length (frame ([7], genesis))" by (simp_all add: genesis_def frame_def)
  with crash_recovery [OF s(2,3)] s(1) show ?thesis by blast
qed

text \<open>
  The length field has 32 bits and the length is cast to it, so an entry of \<open>2 ^ 32\<close> bytes is framed as an empty one and
  not read back. This is why \<open>ft_fits\<close> bounds the length.
\<close>

theorem long_entry_truncated:
  assumes "length e = 2 ^ 32" "length h = 32"
  shows "map snd (scan_frames (frame (e, h)) 0) \<noteq> [(e, h)]"
proof -
  have z: "frame_length e = 0" unfolding frame_length_def assms(1) by (simp add: word_of_nat_eq_0_iff)
  have b: "be_value (take 4 (frame (e, h))) = 0" by (simp add: frame_def z be_value_be_bytes)
  have n: "length (frame (e, h)) = 4 + 2 ^ 32 + 32" using assms by (simp add: frame_def)
  have "e \<noteq> []" using assms(1) by auto
  have "\<exists>ps. scan_frames (frame (e, h)) 0 = (0, [], take 32 (drop 4 (frame (e, h)))) # ps"
    by (subst scan_frames.simps) (simp add: b n Let_def)
  with \<open>e \<noteq> []\<close> show ?thesis by auto
qed

end
