(* ===== verification/Wacp_Recovery.thy ===== *)
theory Wacp_Recovery
  imports Wacp_File_Trail
begin

text \<open>
  The recovery engine (\<open>wacp-recovery/src/lib.rs\<close>), which rebuilds the runtime state from the trail after a
  restart, with or without a system snapshot. It uses a trail storage through \<open>metadata\<close> and \<open>scan\<close> only. The JSON
  values are those of the \<open>serde_json\<close> crate: parsing and the accessors are arguments, gathered in a record.
\<close>

section \<open>JSON\<close>

record 'v system_snapshot =
  ss_sequence :: u64
  ss_tree :: 'v
  ss_task_graph :: 'v

record 'v serde_json =
  sj_from_slice :: "bytes \<Rightarrow> 'v option"
  sj_snapshot :: "bytes \<Rightarrow> 'v system_snapshot option"
  sj_get :: "'v \<Rightarrow> string \<Rightarrow> 'v option"
  sj_as_str :: "'v \<Rightarrow> string option"
  sj_as_u64 :: "'v \<Rightarrow> u64 option"
  sj_as_object :: "'v \<Rightarrow> (string \<times> 'v) list option"

text \<open>\<open>v.get(key).and_then(|v| v.as_str())\<close>.\<close>

definition str_field :: "'v serde_json \<Rightarrow> 'v \<Rightarrow> string \<Rightarrow> string option" where
  "str_field j v key = Option.bind (sj_get j v key) (sj_as_str j)"

section \<open>The engine\<close>

datatype recovery_error = ReTrailCorruption nat string | ReStorageError storage_error

record recovered_state =
  rs_workspace_states :: "(string, workspace_state) hmap"
  rs_task_statuses :: "(string, task_status) hmap"
  rs_last_sequence :: u64
  rs_clock_initial :: timestamp
  rs_in_flight_envelopes :: "string list"
  rs_snapshot_sequence :: "u64 option"

definition parse_workspace_state :: "string \<Rightarrow> workspace_state option" where
  "parse_workspace_state s = map_of
     [(''Idle'', WsIdle), (''Active'', WsActive), (''Blocked'', WsBlocked), (''Suspended'', WsSuspended),
      (''Migrating'', WsMigrating), (''Integrating'', WsIntegrating), (''Conflicted'', WsConflicted),
      (''Closed'', WsClosed), (''Failed'', WsFailed)] s"

definition parse_task_status :: "string \<Rightarrow> task_status option" where
  "parse_task_status s = map_of
     [(''Draft'', TsDraft), (''Pending'', TsPending), (''Assigned'', TsAssigned), (''InProgress'', TsInProgress),
      (''Completed'', TsCompleted), (''Failed'', TsFailed), (''Integrated'', TsIntegrated), (''Cancelled'', TsCancelled)] s"

text \<open>The statuses under a key of a snapshot, one per entry that has a readable status.\<close>

definition extract_statuses :: "'v serde_json \<Rightarrow> (string \<Rightarrow> 'a option) \<Rightarrow> 'v \<Rightarrow> string \<Rightarrow> (string, 'a) hmap" where
  "extract_statuses j parse v key =
     (case Option.bind (sj_get j v key) (sj_as_object j) of
        None \<Rightarrow> []
      | Some entries \<Rightarrow>
          foldl (\<lambda>acc (k, node). case Option.bind (str_field j node ''status'') parse of
                   None \<Rightarrow> acc | Some st \<Rightarrow> hput k st acc) [] entries)"

definition extract_snapshot_state ::
  "'v serde_json \<Rightarrow> 'v system_snapshot \<Rightarrow> (string, workspace_state) hmap \<times> (string, task_status) hmap" where
  "extract_snapshot_state j snap =
     (extract_statuses j parse_workspace_state (ss_tree snap) ''nodes'',
      extract_statuses j parse_task_status (ss_task_graph snap) ''tasks'')"

fun collect_loop ::
  "(segment_id \<Rightarrow> u64 \<Rightarrow> (scanned_entry list, storage_error) result) \<Rightarrow> segment_id list \<Rightarrow> (chain, recovery_error) result" where
  "collect_loop scan [] = Ok []"
| "collect_loop scan (n # ns) =
     (case scan n 0 of
        Err e \<Rightarrow> Err (ReStorageError e)
      | Ok entries \<Rightarrow>
          (case collect_loop scan ns of Err e \<Rightarrow> Err e | Ok rest \<Rightarrow> Ok (map entry_of entries @ rest)))"

definition collect_entries ::
  "(segment_id \<Rightarrow> u64 \<Rightarrow> (scanned_entry list, storage_error) result) \<Rightarrow> storage_metadata \<Rightarrow> (chain, recovery_error) result" where
  "collect_entries scan md = collect_loop scan (map of_nat [0..<Suc (unat (sm_current_segment md))])"

definition verify_integrity :: "(bytes \<Rightarrow> bytes) \<Rightarrow> chain \<Rightarrow> (unit, recovery_error) result" where
  "verify_integrity sha entries =
     (case verify_chain sha entries of
        Ok u \<Rightarrow> Ok u
      | Err e \<Rightarrow> Err (ReTrailCorruption (cv_index e)
          (''expected '' @ show_chain_hash (cv_expected e) @ '', computed '' @ show_chain_hash (cv_computed e))))"

type_synonym status_maps = "(string, workspace_state) hmap \<times> (string, task_status) hmap"

definition replay_event :: "'v serde_json \<Rightarrow> status_maps \<Rightarrow> bytes \<times> chain_hash \<Rightarrow> status_maps" where
  "replay_event j maps entry =
     (case sj_from_slice j (fst entry) of
        None \<Rightarrow> maps
      | Some event \<Rightarrow>
          (case str_field j event ''event_type'' of
             None \<Rightarrow> maps
           | Some event_type \<Rightarrow>
               if event_type = ''workspace_created'' \<or> event_type = ''workspace_state_changed'' then
                 (case (str_field j event ''workspace_id'', str_field j event ''new_state'') of
                    (Some ws_id, Some state_str) \<Rightarrow>
                      (case parse_workspace_state state_str of
                         None \<Rightarrow> maps | Some state \<Rightarrow> (hput ws_id state (fst maps), snd maps))
                  | _ \<Rightarrow> maps)
               else if event_type = ''task_status_changed'' then
                 (case (str_field j event ''task_id'', str_field j event ''new_status'') of
                    (Some task_id, Some status_str) \<Rightarrow>
                      (case parse_task_status status_str of
                         None \<Rightarrow> maps | Some status \<Rightarrow> (fst maps, hput task_id status (snd maps)))
                  | _ \<Rightarrow> maps)
               else maps))"

definition reconstruct_state :: "'v serde_json \<Rightarrow> chain \<Rightarrow> status_maps" where
  "reconstruct_state j entries = foldl (replay_event j) ([], []) entries"

text \<open>The envelope an entry is about when it has the given event type.\<close>

definition envelope_event :: "'v serde_json \<Rightarrow> string \<Rightarrow> bytes \<times> chain_hash \<Rightarrow> string option" where
  "envelope_event j et entry =
     (case sj_from_slice j (fst entry) of
        None \<Rightarrow> None
      | Some event \<Rightarrow>
          if str_field j event ''event_type'' = Some et then str_field j event ''envelope_id'' else None)"

definition track_envelope ::
  "'v serde_json \<Rightarrow> string list \<times> string set \<Rightarrow> bytes \<times> chain_hash \<Rightarrow> string list \<times> string set" where
  "track_envelope j sets entry =
     (let (created, delivered) = sets
      in case envelope_event j ''envelope_created'' entry of
           Some e \<Rightarrow> (if e \<in> set created then created else created @ [e], delivered)
         | None \<Rightarrow> (case envelope_event j ''envelope_delivered'' entry of
             Some e \<Rightarrow> (created, insert e delivered)
           | None \<Rightarrow> (created, delivered)))"

definition detect_in_flight :: "'v serde_json \<Rightarrow> chain \<Rightarrow> string list" where
  "detect_in_flight j entries =
     (let (created, delivered) = foldl (track_envelope j) ([], {}) entries in filter (\<lambda>e. e \<notin> delivered) created)"

definition extract_last_timestamp :: "'v serde_json \<Rightarrow> chain \<Rightarrow> timestamp" where
  "extract_last_timestamp j entries =
     (if entries = [] then ZERO
      else case sj_from_slice j (fst (last entries)) of
        None \<Rightarrow> ZERO
      | Some event \<Rightarrow>
          (case Option.bind (sj_get j event ''timestamp'') (sj_as_u64 j) of None \<Rightarrow> ZERO | Some ts \<Rightarrow> Timestamp ts 0))"

text \<open>\<open>None\<close> is the panic of the slice \<open>&all_entries[replay_start..]\<close>.\<close>

definition recover_internal ::
  "'v serde_json \<Rightarrow> (bytes \<Rightarrow> bytes) \<Rightarrow> storage_metadata \<Rightarrow> (segment_id \<Rightarrow> u64 \<Rightarrow> (scanned_entry list, storage_error) result)
   \<Rightarrow> (u64 \<times> 'v system_snapshot) option \<Rightarrow> (recovered_state, recovery_error) result option" where
  "recover_internal j sha md scan snapshot =
     (if sm_total_entries md = 0 then
        (case snapshot of
           Some (seq, snap) \<Rightarrow>
             let (ws, ts) = extract_snapshot_state j snap
             in Some (Ok \<lparr>rs_workspace_states = ws, rs_task_statuses = ts, rs_last_sequence = seq,
                          rs_clock_initial = ZERO, rs_in_flight_envelopes = [], rs_snapshot_sequence = Some seq\<rparr>)
         | None \<Rightarrow>
             Some (Ok \<lparr>rs_workspace_states = [], rs_task_statuses = [], rs_last_sequence = 0,
                       rs_clock_initial = ZERO, rs_in_flight_envelopes = [], rs_snapshot_sequence = None\<rparr>))
      else case collect_entries scan md of
        Err e \<Rightarrow> Some (Err e)
      | Ok all_entries \<Rightarrow>
          (case verify_integrity sha all_entries of
             Err e \<Rightarrow> Some (Err e)
           | Ok _ \<Rightarrow>
               let (ws, ts, snapshot_seq, replay_start) =
                     (case snapshot of
                        Some (seq, snap) \<Rightarrow>
                          (let (ws, ts) = extract_snapshot_state j snap in (ws, ts, Some seq, unat seq))
                      | None \<Rightarrow> ([], [], None, 0))
               in if length all_entries < replay_start then None
                  else let (replay_ws, replay_tasks) = reconstruct_state j (drop replay_start all_entries)
                       in Some (Ok \<lparr>rs_workspace_states = hextend ws replay_ws, rs_task_statuses = hextend ts replay_tasks,
                                    rs_last_sequence = sm_total_entries md,
                                    rs_clock_initial = succ (extract_last_timestamp j all_entries),
                                    rs_in_flight_envelopes = detect_in_flight j all_entries,
                                    rs_snapshot_sequence = snapshot_seq\<rparr>)))"

definition recover ::
  "'v serde_json \<Rightarrow> (bytes \<Rightarrow> bytes) \<Rightarrow> storage_metadata \<Rightarrow> (segment_id \<Rightarrow> u64 \<Rightarrow> (scanned_entry list, storage_error) result)
   \<Rightarrow> (recovered_state, recovery_error) result option" where
  "recover j sha md scan = recover_internal j sha md scan None"

text \<open>The last argument is the answer of \<open>read_latest_system\<close>.\<close>

definition recover_with_snapshot ::
  "'v serde_json \<Rightarrow> (bytes \<Rightarrow> bytes) \<Rightarrow> storage_metadata \<Rightarrow> (segment_id \<Rightarrow> u64 \<Rightarrow> (scanned_entry list, storage_error) result)
   \<Rightarrow> ((u64 \<times> bytes) option, storage_error) result \<Rightarrow> (recovered_state, recovery_error) result option" where
  "recover_with_snapshot j sha md scan latest =
     recover_internal j sha md scan
       (case latest of
          Ok (Some (seq, data)) \<Rightarrow> map_option (\<lambda>snap. (seq, snap)) (sj_snapshot j data)
        | Ok None \<Rightarrow> None
        | Err _ \<Rightarrow> None)"

section \<open>Replay\<close>

text \<open>The status change an entry records.\<close>

definition ws_event :: "'v serde_json \<Rightarrow> bytes \<times> chain_hash \<Rightarrow> (string \<times> workspace_state) option" where
  "ws_event j entry =
     Option.bind (sj_from_slice j (fst entry)) (\<lambda>event.
       if str_field j event ''event_type'' \<in> {Some ''workspace_created'', Some ''workspace_state_changed''}
       then Option.bind (str_field j event ''workspace_id'') (\<lambda>w.
         Option.bind (Option.bind (str_field j event ''new_state'') parse_workspace_state) (\<lambda>s. Some (w, s)))
       else None)"

definition task_event :: "'v serde_json \<Rightarrow> bytes \<times> chain_hash \<Rightarrow> (string \<times> task_status) option" where
  "task_event j entry =
     Option.bind (sj_from_slice j (fst entry)) (\<lambda>event.
       if str_field j event ''event_type'' = Some ''task_status_changed''
       then Option.bind (str_field j event ''task_id'') (\<lambda>t.
         Option.bind (Option.bind (str_field j event ''new_status'') parse_task_status) (\<lambda>s. Some (t, s)))
       else None)"

definition set_status :: "('k \<times> 'v) option \<Rightarrow> ('k, 'v) hmap \<Rightarrow> ('k, 'v) hmap" where
  "set_status ev m = (case ev of None \<Rightarrow> m | Some (k, v) \<Rightarrow> hput k v m)"

lemma replay_event_eq:
  "replay_event j maps entry = (set_status (ws_event j entry) (fst maps), set_status (task_event j entry) (snd maps))"
proof (cases "sj_from_slice j (fst entry)")
  case None
  then show ?thesis by (simp add: replay_event_def ws_event_def task_event_def set_status_def)
next
  case (Some event)
  show ?thesis
  proof (cases "str_field j event ''event_type''")
    case None
    with Some show ?thesis by (simp add: replay_event_def ws_event_def task_event_def set_status_def)
  next
    case (Some et)
    with \<open>sj_from_slice j (fst entry) = Some event\<close> show ?thesis
      by (auto simp: replay_event_def ws_event_def task_event_def set_status_def split: option.splits bind_splits)
  qed
qed

text \<open>The last status recorded for a key.\<close>

definition last_status :: "('e \<Rightarrow> ('k \<times> 'v) option) \<Rightarrow> 'k \<Rightarrow> 'e list \<Rightarrow> 'v option" where
  "last_status ev k es = map_of (rev (List.map_filter ev es)) k"

lemma last_status_simps [simp]:
  "last_status ev k [] = None"
  "last_status ev k (es @ [e]) = (case ev e of None \<Rightarrow> last_status ev k es
     | Some (k', v) \<Rightarrow> if k' = k then Some v else last_status ev k es)"
  by (auto simp: last_status_def map_filter_def split: option.splits)

lemma last_status_append:
  "last_status ev k (es @ fs) = (case last_status ev k fs of None \<Rightarrow> last_status ev k es | Some v \<Rightarrow> Some v)"
  by (induction fs rule: rev_induct) (auto simp del: append_assoc simp: append_assoc [symmetric] split: option.splits)

lemma fold_status:
  assumes "foldl (\<lambda>m e. set_status (ev e) m) [] es = m"
  shows "hget m k = last_status ev k es" "hmap_ok m"
  using assms
proof (induction es arbitrary: m rule: rev_induct)
  case (snoc e es)
  { case 1 with snoc(1) [OF refl] show ?case by (auto simp: set_status_def split: option.splits)
  next
    case 2 with snoc(2) [OF refl] show ?case by (auto simp: set_status_def split: option.splits) }
qed simp_all

lemma reconstruct_eq:
  "reconstruct_state j es
   = (foldl (\<lambda>m e. set_status (ws_event j e) m) [] es, foldl (\<lambda>m e. set_status (task_event j e) m) [] es)"
  unfolding reconstruct_state_def by (induction es rule: rev_induct) (simp_all add: replay_event_eq)

lemma reconstruct_get:
  "hget (fst (reconstruct_state j es)) w = last_status (ws_event j) w es"
  "hget (snd (reconstruct_state j es)) t = last_status (task_event j) t es"
  "hmap_ok (fst (reconstruct_state j es))" "hmap_ok (snd (reconstruct_state j es))"
  unfolding reconstruct_eq by (simp_all add: fold_status [OF refl])

text \<open>In-flight envelopes.\<close>

lemma track_spec:
  "foldl (track_envelope j) ([], {}) es = (created, delivered) \<Longrightarrow>
   distinct created
   \<and> (\<forall>e. e \<in> set created \<longleftrightarrow> (\<exists>x \<in> set es. envelope_event j ''envelope_created'' x = Some e))
   \<and> (\<forall>e. e \<in> delivered \<longleftrightarrow> (\<exists>x \<in> set es. envelope_event j ''envelope_delivered'' x = Some e))"
proof (induction es arbitrary: created delivered rule: rev_induct)
  case (snoc x es)
  obtain c d where cd: "foldl (track_envelope j) ([], {}) es = (c, d)" by (cases "foldl (track_envelope j) ([], {}) es")
  have excl: "envelope_event j ''envelope_delivered'' x = None" if "envelope_event j ''envelope_created'' x = Some e" for e
    using that by (auto simp: envelope_event_def split: option.splits if_splits)
  have "track_envelope j (c, d) x = (created, delivered)" using snoc.prems cd by simp
  with snoc.IH [OF cd] excl show ?case
    unfolding track_envelope_def by (auto simp: Let_def split: option.splits if_splits)
qed simp

lemma in_flight_iff:
  "e \<in> set (detect_in_flight j es) \<longleftrightarrow>
     (\<exists>x \<in> set es. envelope_event j ''envelope_created'' x = Some e)
     \<and> (\<forall>x \<in> set es. envelope_event j ''envelope_delivered'' x \<noteq> Some e)"
proof -
  obtain c d where cd: "foldl (track_envelope j) ([], {}) es = (c, d)" by (cases "foldl (track_envelope j) ([], {}) es")
  from track_spec [OF this] show ?thesis by (auto simp: detect_in_flight_def cd)
qed

lemma distinct_in_flight: "distinct (detect_in_flight j es)"
proof -
  obtain c d where cd: "foldl (track_envelope j) ([], {}) es = (c, d)" by (cases "foldl (track_envelope j) ([], {}) es")
  from track_spec [OF this] show ?thesis by (simp add: detect_in_flight_def cd)
qed

section \<open>Recovery from a trail\<close>

text \<open>What recovery promises about the entries of a trail.\<close>

definition recovered_from :: "'v serde_json \<Rightarrow> chain \<Rightarrow> recovered_state \<Rightarrow> bool" where
  "recovered_from j es st \<longleftrightarrow>
     (\<forall>w. hget (rs_workspace_states st) w = last_status (ws_event j) w es)
     \<and> (\<forall>t. hget (rs_task_statuses st) t = last_status (task_event j) t es)
     \<and> (\<forall>e. e \<in> set (rs_in_flight_envelopes st) \<longleftrightarrow>
          (\<exists>x \<in> set es. envelope_event j ''envelope_created'' x = Some e)
          \<and> (\<forall>x \<in> set es. envelope_event j ''envelope_delivered'' x \<noteq> Some e))
     \<and> rs_last_sequence st = of_nat (length es)"

context trail_storage
begin

lemma collect_contents:
  assumes "ok s"
  shows "collect_entries (scan s) (metadata s) = Ok (contents s)"
proof -
  from scan_spec [OF assms] obtain ess where n: "length ess = Suc (unat (sm_current_segment (metadata s)))"
    and sc: "\<forall>i < length ess. scan s (of_nat i) 0 = Ok (ess ! i)" and c: "contents s = concat (map (map entry_of) ess)" by blast
  have "collect_loop (scan s) (map of_nat [k..<length ess]) = Ok (concat (map (map entry_of) (drop k ess)))" if "k \<le> length ess" for k
    using that
  proof (induction k rule: inc_induct)
    case (step k)
    then show ?case using sc by (simp add: upt_conv_Cons Cons_nth_drop_Suc [symmetric])
  qed simp
  from this [of 0] show ?thesis by (simp add: collect_entries_def n c)
qed

text \<open>Recovery without a snapshot, by the chain being intact or not.\<close>

lemma recover_spec:
  assumes "ok s" and len: "length (contents s) < 2 ^ 64"
  shows "case verify_chain sha (contents s) of
     Ok _ \<Rightarrow> \<exists>st. recover j sha (metadata s) (scan s) = Some (Ok st) \<and> recovered_from j (contents s) st
   | Err err \<Rightarrow> \<exists>d. recover j sha (metadata s) (scan s) = Some (Err (ReTrailCorruption (cv_index err) d))"
proof (cases "contents s = []")
  case True
  then show ?thesis using metadata_spec [OF assms(1)]
    by (simp add: verify_chain_def recover_def recover_internal_def recovered_from_def)
next
  case False
  have m: "sm_total_entries (metadata s) = of_nat (length (contents s))" using metadata_spec [OF assms(1)] by blast
  have "unat (of_nat (length (contents s)) :: u64) = length (contents s)" by (rule unat_of_nat_u64 [OF len])
  then have nz: "sm_total_entries (metadata s) \<noteq> 0" using False m by (metis length_0_conv unat_0)
  show ?thesis
  proof (cases "verify_chain sha (contents s)")
    case (Ok u)
    then show ?thesis using nz m reconstruct_get [of j "contents s"] in_flight_iff [of _ j "contents s"]
      by (simp add: recover_def recover_internal_def collect_contents [OF assms(1)] verify_integrity_def recovered_from_def
          split_beta Let_def hget_hextend split: option.split)
  next
    case (Err err)
    then show ?thesis using nz by (simp add: recover_def recover_internal_def collect_contents [OF assms(1)] verify_integrity_def)
  qed
qed

text \<open>Recovery from a snapshot that describes a prefix of the trail.\<close>

lemma recover_snapshot:
  assumes "ok s" and len: "length (contents s) < 2 ^ 64" and v: "verify_chain sha (contents s) = Ok ()"
    and snap: "sj_snapshot j data = Some snap" and seq: "unat seq \<le> length (contents s)"
    and ws: "\<And>w. hget (fst (extract_snapshot_state j snap)) w = last_status (ws_event j) w (take (unat seq) (contents s))"
    and ts: "\<And>t. hget (snd (extract_snapshot_state j snap)) t = last_status (task_event j) t (take (unat seq) (contents s))"
  shows "\<exists>st. recover_with_snapshot j sha (metadata s) (scan s) (Ok (Some (seq, data))) = Some (Ok st)
    \<and> recovered_from j (contents s) st \<and> rs_snapshot_sequence st = Some seq"
proof (cases "contents s = []")
  case True
  then have "seq = 0" using seq by (simp add: unat_eq_zero)
  then show ?thesis using metadata_spec [OF assms(1)] True ws ts
    by (simp add: recover_with_snapshot_def recover_internal_def recovered_from_def snap split_beta Let_def)
next
  case False
  have m: "sm_total_entries (metadata s) = of_nat (length (contents s))" using metadata_spec [OF assms(1)] by blast
  have "unat (of_nat (length (contents s)) :: u64) = length (contents s)" by (rule unat_of_nat_u64 [OF len])
  then have nz: "sm_total_entries (metadata s) \<noteq> 0" using False m by (metis length_0_conv unat_0)
  let ?pre = "take (unat seq) (contents s)" and ?rest = "drop (unat seq) (contents s)"
  have split: "last_status ev k (contents s)
      = (case last_status ev k ?rest of None \<Rightarrow> last_status ev k ?pre | Some x \<Rightarrow> Some x)"
    for ev :: "bytes \<times> chain_hash \<Rightarrow> ('k \<times> 'x) option" and k
    using last_status_append [of ev k ?pre ?rest] by simp
  show ?thesis using nz m v seq snap in_flight_iff [of _ j "contents s"]
    by (simp add: recover_with_snapshot_def recover_internal_def collect_contents [OF assms(1)] verify_integrity_def
        recovered_from_def split_beta Let_def hget_hextend reconstruct_get ws ts split split: option.split)
qed

end

text \<open>C32. Recovery of a trail on disk returns, and its result is exact. When the hash chain is intact, every workspace and task
  gets the last status recorded for it, the in-flight envelopes are those created and not delivered, and
  the sequence counts the entries; when the chain is broken, recovery reports the first broken link.\<close>

theorem recovery_exact:
  assumes "file_ok s" "length (ft_contents s) < 2 ^ 64"
  shows "case verify_chain sha (ft_contents s) of
     Ok _ \<Rightarrow> \<exists>st. recover j sha (ft_metadata s) (ft_scan s) = Some (Ok st) \<and> recovered_from j (ft_contents s) st
   | Err err \<Rightarrow> \<exists>d. recover j sha (ft_metadata s) (ft_scan s) = Some (Err (ReTrailCorruption (cv_index err) d))"
  using assms by (rule file_store.recover_spec)

text \<open>C33. A snapshot changes nothing but the work: when it describes the state after a prefix of an intact trail, recovery from
  the snapshot gives every workspace and task the same status, and the same in-flight envelopes and sequence,
  as the replay of the whole trail.\<close>

theorem snapshot_equivalent:
  assumes "file_ok s" "length (ft_contents s) < 2 ^ 64" "verify_chain sha (ft_contents s) = Ok ()"
    and "sj_snapshot j data = Some snap" "unat seq \<le> length (ft_contents s)"
    and "\<And>w. hget (fst (extract_snapshot_state j snap)) w = last_status (ws_event j) w (take (unat seq) (ft_contents s))"
    and "\<And>t. hget (snd (extract_snapshot_state j snap)) t = last_status (task_event j) t (take (unat seq) (ft_contents s))"
  shows "\<exists>st st'. recover_with_snapshot j sha (ft_metadata s) (ft_scan s) (Ok (Some (seq, data))) = Some (Ok st)
    \<and> recover j sha (ft_metadata s) (ft_scan s) = Some (Ok st')
    \<and> hget (rs_workspace_states st) = hget (rs_workspace_states st')
    \<and> hget (rs_task_statuses st) = hget (rs_task_statuses st')
    \<and> set (rs_in_flight_envelopes st) = set (rs_in_flight_envelopes st') \<and> rs_last_sequence st = rs_last_sequence st'"
proof -
  obtain st where "recover_with_snapshot j sha (ft_metadata s) (ft_scan s) (Ok (Some (seq, data))) = Some (Ok st)"
    "recovered_from j (ft_contents s) st" using file_store.recover_snapshot [OF assms] by blast
  moreover obtain st' where "recover j sha (ft_metadata s) (ft_scan s) = Some (Ok st')" "recovered_from j (ft_contents s) st'"
    using file_store.recover_spec [OF assms(1,2), where sha = sha and j = j] assms(3) by auto
  ultimately show ?thesis unfolding recovered_from_def by (intro exI [of _ st] exI [of _ st']) (auto intro!: ext)
qed

text \<open>C31. Restart after a crash, storage and recovery together. When a crash tears the append of an entry after any number of bytes of its
  frame, opening the trail with recovery and replaying it gives the state that the entries before the torn one
  record, provided their chain was intact.\<close>

theorem restart_after_crash:
  assumes r: "file_rep s ess" and f: "ft_fits s e" "length h = 32" and n: "n < length (frame (e, h))"
    and len: "length (ft_contents s) < 2 ^ 64" and v: "verify_chain sha (ft_contents s) = Ok ()"
  shows "\<exists>s' st. ft_recover \<lparr>fc_dir = ft_dir (ft_write (take n (frame (e, h))) s), fc_max_segment_size = ft_max_segment_size s\<rparr> = Ok s'
    \<and> recover j sha (ft_metadata s') (ft_scan s') = Some (Ok st) \<and> recovered_from j (ft_contents s) st"
proof -
  have "framed (e, h)" using f by (simp add: framed_def ft_fits_def)
  from recover_torn [OF r this n] have
    "ft_recover \<lparr>fc_dir = ft_dir (ft_write (take n (frame (e, h))) s), fc_max_segment_size = ft_max_segment_size s\<rparr> = Ok s" .
  moreover have "file_ok s" using r by (auto simp: file_ok_def)
  from file_store.recover_spec [OF this len, where sha = sha and j = j] v
  have "\<exists>st. recover j sha (ft_metadata s) (ft_scan s) = Some (Ok st) \<and> recovered_from j (ft_contents s) st" by simp
  ultimately show ?thesis by blast
qed

text \<open>
  A snapshot that is ahead of the trail makes recovery panic: the slice from its sequence is out of range. The other defects of a
  snapshot (unreadable storage, unreadable JSON) fall back to the full replay.
\<close>

theorem snapshot_ahead_panics:
  assumes "file_ok s" "0 < length (ft_contents s)" "length (ft_contents s) < unat seq"
    and "verify_chain sha (ft_contents s) = Ok ()" "sj_snapshot j data = Some snap"
  shows "recover_with_snapshot j sha (ft_metadata s) (ft_scan s) (Ok (Some (seq, data))) = None"
proof -
  have m: "sm_total_entries (ft_metadata s) = of_nat (length (ft_contents s))"
    using file_store.metadata_spec [OF assms(1)] by blast
  have "length (ft_contents s) < 2 ^ 64" using assms(3) unat_bound [of seq] by simp
  then have "unat (of_nat (length (ft_contents s)) :: u64) = length (ft_contents s)" by (rule unat_of_nat_u64)
  then have "sm_total_entries (ft_metadata s) \<noteq> 0" using assms(2) m by auto
  with assms(3-5) show ?thesis
    by (simp add: recover_with_snapshot_def recover_internal_def file_store.collect_contents [OF assms(1)]
        verify_integrity_def split_beta Let_def)
qed

section \<open>Concrete instances\<close>

text \<open>A toy encoding of events for the instances: the first byte selects the event.\<close>

definition sample_json :: "(string \<times> string) list serde_json" where
  "sample_json = \<lparr>sj_from_slice = (\<lambda>bs. case bs of [] \<Rightarrow> None | b # _ \<Rightarrow>
       if b = 1 then Some [(''event_type'', ''workspace_created''), (''workspace_id'', ''w''), (''new_state'', ''Active'')]
       else if b = 2 then Some [(''event_type'', ''envelope_created''), (''envelope_id'', ''e'')] else None),
     sj_snapshot = (\<lambda>_. Some \<lparr>ss_sequence = 0, ss_tree = [], ss_task_graph = []\<rparr>),
     sj_get = (\<lambda>v k. map_option (\<lambda>x. [([], x)]) (map_of v k)), sj_as_str = (\<lambda>v. map_of v []),
     sj_as_u64 = (\<lambda>_. None), sj_as_object = (\<lambda>_. None)\<rparr>"

lemma sample_trail:
  obtains s where "ft_open \<lparr>fc_dir = [], fc_max_segment_size = 40\<rparr> = Ok s" "file_rep s [[]]" "ft_fits s [7]"
    "file_ok s" "ft_contents s = []"
  by (rule sample_file_trail) (auto simp: file_ok_def ft_contents_rep intro: that)

text \<open>A trail with one entry, the creation of a workspace.\<close>

theorem recovery_exact_witness:
  "\<exists>s st. recover sample_json (\<lambda>_. genesis) (ft_metadata s) (ft_scan s) = Some (Ok st)
     \<and> ft_contents s = [([1], genesis)] \<and> hget (rs_workspace_states st) ''w'' = Some WsActive"
proof -
  obtain s where s: "file_rep s [[]]" "ft_fits s [7]" by (rule sample_file_trail)
  have fits: "ft_fits s [1]" and g: "length genesis = 32" using s(2) by (simp_all add: ft_fits_def genesis_def)
  obtain ess where r: "file_rep (snd (ft_append [1] genesis s)) ess" "concat ess = concat [[]] @ [([1], genesis)]"
    by (rule ft_append_rep [OF s(1) fits g])
  let ?s = "snd (ft_append [1] genesis s)"
  have c: "ft_contents ?s = [([1], genesis)]" using r by (simp add: ft_contents_rep)
  have "file_ok ?s" using r(1) by (auto simp: file_ok_def)
  from recovery_exact [OF this, where sha = "\<lambda>_. genesis" and j = sample_json] obtain st where
    "recover sample_json (\<lambda>_. genesis) (ft_metadata ?s) (ft_scan ?s) = Some (Ok st)" "recovered_from sample_json (ft_contents ?s) st"
    by (auto simp: c verify_chain_def compute_chain_hash_def)
  moreover have "last_status (ws_event sample_json) ''w'' [([1], genesis)] = Some WsActive" by code_simp
  ultimately show ?thesis using c by (intro exI [of _ ?s] exI [of _ st]) (simp add: recovered_from_def)
qed

theorem snapshot_equivalent_witness:
  "\<exists>s st. ft_open \<lparr>fc_dir = [], fc_max_segment_size = 40\<rparr> = Ok s
     \<and> recover_with_snapshot sample_json (\<lambda>_. genesis) (ft_metadata s) (ft_scan s) (Ok (Some (0, []))) = Some (Ok st)"
proof -
  obtain s where s: "ft_open \<lparr>fc_dir = [], fc_max_segment_size = 40\<rparr> = Ok s" "file_rep s [[]]" "ft_fits s [7]"
    "file_ok s" "ft_contents s = []" by (rule sample_trail)
  let ?snap = "\<lparr>ss_sequence = 0, ss_tree = [], ss_task_graph = []\<rparr> :: (string \<times> string) list system_snapshot"
  have "sj_snapshot sample_json [] = Some ?snap" "extract_snapshot_state sample_json ?snap = ([], [])"
    by (simp_all add: sample_json_def extract_snapshot_state_def extract_statuses_def)
  with snapshot_equivalent [OF s(4), of "\<lambda>_. genesis" sample_json "[]" ?snap 0] s show ?thesis
    by (auto simp: verify_chain_def)
qed

theorem restart_after_crash_witness:
  "\<exists>s s' st. ft_open \<lparr>fc_dir = [], fc_max_segment_size = 40\<rparr> = Ok s
     \<and> ft_recover \<lparr>fc_dir = ft_dir (ft_write (take 5 (frame ([7], genesis))) s), fc_max_segment_size = ft_max_segment_size s\<rparr> = Ok s'
     \<and> recover sample_json (\<lambda>_. genesis) (ft_metadata s') (ft_scan s') = Some (Ok st)"
proof -
  obtain s where s: "ft_open \<lparr>fc_dir = [], fc_max_segment_size = 40\<rparr> = Ok s" "file_rep s [[]]" "ft_fits s [7]"
    "file_ok s" "ft_contents s = []" by (rule sample_trail)
  have "length genesis = 32" "5 < length (frame ([7], genesis))" by (simp_all add: genesis_def frame_def)
  from restart_after_crash [OF s(2,3) this, of "\<lambda>_. genesis" sample_json] s(1,5) show ?thesis
    by (auto simp: verify_chain_def)
qed

end
