(* ===== verification/Wacp_Security.thy ===== *)
theory Wacp_Security
  imports Wacp_Types
begin

text \<open>
  The security crate (\<open>wacp-security/src/secrets.rs\<close>, \<open>filter.rs\<close>, \<open>audit.rs\<close>). A compiled regular expression is the
  record of the three operations the filter uses; the built-in rules are given by the regex compiler, a parameter.
  SHA-256 and the JSON serialiser are parameters too.
\<close>

section \<open>Secrets\<close>

record secret_value =
  sv_value :: string

definition secret_new :: "string \<Rightarrow> secret_value" where
  "secret_new v = \<lparr>sv_value = v\<rparr>"

definition secret_expose :: "secret_value \<Rightarrow> string" where
  "secret_expose s = sv_value s"

definition secret_debug :: "secret_value \<Rightarrow> string" where
  "secret_debug s = ''SecretValue(***)''"

definition secret_display :: "secret_value \<Rightarrow> string" where
  "secret_display s = ''***''"

record secret_store =
  sc_secrets :: "(string, secret_value) hmap"

definition secrets_new :: secret_store where
  "secrets_new = \<lparr>sc_secrets = []\<rparr>"

definition secrets_set :: "string \<Rightarrow> string \<Rightarrow> secret_store \<Rightarrow> secret_store" where
  "secrets_set key v st = st\<lparr>sc_secrets := hput key (secret_new v) (sc_secrets st)\<rparr>"

definition secrets_get :: "secret_store \<Rightarrow> string \<Rightarrow> secret_value option" where
  "secrets_get st key = hget (sc_secrets st) key"

definition secrets_contains :: "secret_store \<Rightarrow> string \<Rightarrow> bool" where
  "secrets_contains st key = hhas (sc_secrets st) key"

definition secrets_remove :: "string \<Rightarrow> secret_store \<Rightarrow> bool \<times> secret_store" where
  "secrets_remove key st = (hhas (sc_secrets st) key, st\<lparr>sc_secrets := hdel key (sc_secrets st)\<rparr>)"

definition secrets_len :: "secret_store \<Rightarrow> nat" where
  "secrets_len st = length (sc_secrets st)"

definition secrets_is_empty :: "secret_store \<Rightarrow> bool" where
  "secrets_is_empty st \<longleftrightarrow> sc_secrets st = []"

definition scan_for_leaks :: "secret_store \<Rightarrow> string \<Rightarrow> string list" where
  "scan_for_leaks st content =
     map fst (filter (\<lambda>(_, v). sv_value v \<noteq> [] \<and> contains_str content (sv_value v)) (sc_secrets st))"

section \<open>The content filter\<close>

text \<open>\<open>rx_find\<close> gives the matches as pairs of start and length.\<close>

record regex =
  rx_is_match :: "string \<Rightarrow> bool"
  rx_find :: "string \<Rightarrow> (nat \<times> nat) list"
  rx_replace_all :: "string \<Rightarrow> string \<Rightarrow> string"

record filter_rule =
  fr_name :: string
  fr_pattern :: regex
  fr_replacement :: string
  fr_enabled :: bool

datatype filter_action = FaRedact | FaBlock | FaWarn

record filter_policy =
  fp_default_action :: filter_action
  fp_enabled :: bool

definition filter_policy_default :: filter_policy where
  "filter_policy_default = \<lparr>fp_default_action = FaRedact, fp_enabled = True\<rparr>"

record content_filter =
  cf_rules :: "filter_rule list"
  cf_policy :: filter_policy

record redaction =
  rn_rule_name :: string
  rn_original_length :: nat
  rn_position :: nat

record filter_result =
  fz_output :: string
  fz_redactions :: "redaction list"
  fz_blocked :: bool

definition default_rules :: "(string \<Rightarrow> regex) \<Rightarrow> filter_rule list" where
  "default_rules rx =
     [\<lparr>fr_name = ''api_key'', fr_pattern = rx ''(sk-[a-zA-Z0-9]{20,})|(key-[a-zA-Z0-9]{20,})'',
       fr_replacement = ''[REDACTED_API_KEY]'', fr_enabled = True\<rparr>,
      \<lparr>fr_name = ''bearer_token'', fr_pattern = rx (''Bearer'' @ [CHR 0x5C] @ ''s+[A-Za-z0-9'' @ [CHR 0x5C] @ ''-._~+/]+=*''),
       fr_replacement = ''[REDACTED_BEARER]'', fr_enabled = True\<rparr>,
      \<lparr>fr_name = ''aws_key'', fr_pattern = rx ''AKIA[0-9A-Z]{16}'', fr_replacement = ''[REDACTED_AWS_KEY]'', fr_enabled = True\<rparr>,
      \<lparr>fr_name = ''private_key'', fr_pattern = rx (''-----BEGIN'' @ [CHR 0x5C] @ ''s+(RSA'' @ [CHR 0x5C] @ ''s+)?PRIVATE'' @
         [CHR 0x5C] @ ''s+KEY-----''), fr_replacement = ''[REDACTED_PRIVATE_KEY]'', fr_enabled = True\<rparr>,
      \<lparr>fr_name = ''email'', fr_pattern = rx (''[a-zA-Z0-9._%+-]+@[a-zA-Z0-9.-]+'' @ [CHR 0x5C] @ ''.[a-zA-Z]{2,}''),
       fr_replacement = ''[REDACTED_EMAIL]'', fr_enabled = True\<rparr>,
      \<lparr>fr_name = ''ssn'', fr_pattern = rx ([CHR 0x5C] @ ''b'' @ [CHR 0x5C] @ ''d{3}-'' @ [CHR 0x5C] @ ''d{2}-'' @ [CHR 0x5C] @
         ''d{4}'' @ [CHR 0x5C] @ ''b''), fr_replacement = ''[REDACTED_SSN]'', fr_enabled = True\<rparr>,
      \<lparr>fr_name = ''credit_card'', fr_pattern = rx ([CHR 0x5C] @ ''b'' @
         concat (replicate 3 ([CHR 0x5C] @ ''d{4}['' @ [CHR 0x5C] @ ''s-]?'')) @ [CHR 0x5C] @ ''d{4}'' @ [CHR 0x5C] @ ''b''),
       fr_replacement = ''[REDACTED_CC]'', fr_enabled = True\<rparr>]"

definition filter_with_defaults :: "(string \<Rightarrow> regex) \<Rightarrow> content_filter" where
  "filter_with_defaults rx = \<lparr>cf_rules = default_rules rx, cf_policy = filter_policy_default\<rparr>"

definition filter_disabled :: content_filter where
  "filter_disabled = \<lparr>cf_rules = [], cf_policy = filter_policy_default\<lparr>fp_enabled := False\<rparr>\<rparr>"

definition filter_with_policy :: "(string \<Rightarrow> regex) \<Rightarrow> filter_policy \<Rightarrow> content_filter" where
  "filter_with_policy rx policy = \<lparr>cf_rules = default_rules rx, cf_policy = policy\<rparr>"

definition add_rule :: "filter_rule \<Rightarrow> content_filter \<Rightarrow> content_filter" where
  "add_rule rule cf = cf\<lparr>cf_rules := cf_rules cf @ [rule]\<rparr>"

definition redactions_of :: "filter_rule \<Rightarrow> string \<Rightarrow> redaction list" where
  "redactions_of rule s =
     map (\<lambda>(start, len). \<lparr>rn_rule_name = fr_name rule, rn_original_length = len, rn_position = start\<rparr>) (rx_find (fr_pattern rule) s)"

fun filter_loop :: "filter_action \<Rightarrow> string \<Rightarrow> filter_rule list \<Rightarrow> string \<Rightarrow> redaction list \<Rightarrow> filter_result" where
  "filter_loop action input [] output redactions =
     \<lparr>fz_output = output, fz_redactions = redactions, fz_blocked = False\<rparr>"
| "filter_loop action input (rule # rules) output redactions =
     (if \<not> fr_enabled rule then filter_loop action input rules output redactions
      else (case action of
        FaBlock \<Rightarrow>
          if rx_is_match (fr_pattern rule) output then
            \<lparr>fz_output = [], fz_redactions = [\<lparr>rn_rule_name = fr_name rule, rn_original_length = 0, rn_position = 0\<rparr>],
             fz_blocked = True\<rparr>
          else filter_loop action input rules output redactions
      | FaRedact \<Rightarrow>
          filter_loop action input rules (rx_replace_all (fr_pattern rule) output (fr_replacement rule))
            (redactions @ redactions_of rule input)
      | FaWarn \<Rightarrow> filter_loop action input rules output (redactions @ redactions_of rule output)))"

definition content_filter_run :: "content_filter \<Rightarrow> string \<Rightarrow> filter_result" where
  "content_filter_run cf input =
     (if \<not> fp_enabled (cf_policy cf) then \<lparr>fz_output = input, fz_redactions = [], fz_blocked = False\<rparr>
      else filter_loop (fp_default_action (cf_policy cf)) input (cf_rules cf) input [])"

section \<open>Audit events\<close>

datatype audit_event =
  AeAuthAttempt string string bool "string option"
| AeRateLimited string string
| AeSecretAccess string string
| AeContentFiltered string string string
| AeToolInvocation string string string "string option" u64 bool "string option"

definition to_trail_payload :: "(audit_event \<Rightarrow> bytes option) \<Rightarrow> audit_event \<Rightarrow> bytes" where
  "to_trail_payload to_vec e = (case to_vec e of Some bs \<Rightarrow> bs | None \<Rightarrow> [])"

definition sha256_hex :: "(bytes \<Rightarrow> bytes) \<Rightarrow> bytes \<Rightarrow> string" where
  "sha256_hex sha data = concat (map hex_byte (sha data))"

section \<open>What the filter does\<close>

definition enabled_rules :: "content_filter \<Rightarrow> filter_rule list" where
  "enabled_rules cf = filter fr_enabled (cf_rules cf)"

lemma filter_loop_Block:
  "filter_loop FaBlock input rules output [] =
     (case find (\<lambda>r. fr_enabled r \<and> rx_is_match (fr_pattern r) output) rules of
        None \<Rightarrow> \<lparr>fz_output = output, fz_redactions = [], fz_blocked = False\<rparr>
      | Some r \<Rightarrow> \<lparr>fz_output = [], fz_redactions = [\<lparr>rn_rule_name = fr_name r, rn_original_length = 0, rn_position = 0\<rparr>],
                   fz_blocked = True\<rparr>)"
  by (induction rules) auto

lemma filter_loop_Warn:
  "filter_loop FaWarn input rules output reds =
     \<lparr>fz_output = output, fz_redactions = reds @ concat (map (\<lambda>r. redactions_of r output) (filter fr_enabled rules)), fz_blocked = False\<rparr>"
  by (induction rules arbitrary: reds) auto

lemma filter_loop_Redact:
  "filter_loop FaRedact input rules out reds =
     \<lparr>fz_output = fold (\<lambda>r s. rx_replace_all (fr_pattern r) s (fr_replacement r)) (filter fr_enabled rules) out,
      fz_redactions = reds @ concat (map (\<lambda>r. redactions_of r input) (filter fr_enabled rules)), fz_blocked = False\<rparr>"
  by (induction rules arbitrary: out reds) auto

text \<open>The three policies of an enabled filter: blocking lets an input through unchanged exactly when no enabled rule
  matches it and otherwise returns nothing of it, naming the first rule that matches; redacting applies the
  replacements of the enabled rules one after the other and never blocks; warning changes nothing and reports every
  match. A disabled filter passes everything.\<close>
theorem filter_policies:
  "(case (fp_enabled (cf_policy cf), fp_default_action (cf_policy cf)) of
      (False, _) \<Rightarrow> content_filter_run cf s = \<lparr>fz_output = s, fz_redactions = [], fz_blocked = False\<rparr>
    | (True, FaBlock) \<Rightarrow>
        (fz_blocked (content_filter_run cf s) \<longleftrightarrow> filter (\<lambda>r. rx_is_match (fr_pattern r) s) (enabled_rules cf) \<noteq> [])
        \<and> fz_output (content_filter_run cf s) = (if fz_blocked (content_filter_run cf s) then [] else s)
        \<and> map rn_rule_name (fz_redactions (content_filter_run cf s)) =
            take 1 (map fr_name (filter (\<lambda>r. rx_is_match (fr_pattern r) s) (enabled_rules cf)))
    | (True, FaRedact) \<Rightarrow>
        fz_output (content_filter_run cf s) =
          fold (\<lambda>r t. rx_replace_all (fr_pattern r) t (fr_replacement r)) (enabled_rules cf) s
        \<and> \<not> fz_blocked (content_filter_run cf s)
    | (True, FaWarn) \<Rightarrow>
        content_filter_run cf s =
          \<lparr>fz_output = s, fz_redactions = concat (map (\<lambda>r. redactions_of r s) (enabled_rules cf)), fz_blocked = False\<rparr>)"
proof -
  have first: "find (\<lambda>r. fr_enabled r \<and> P r) rs = (case filter P (filter fr_enabled rs) of [] \<Rightarrow> None | r # _ \<Rightarrow> Some r)" for P rs
    by (induction rs) auto
  show ?thesis
  proof (cases "fp_default_action (cf_policy cf)")
    case FaBlock
    show ?thesis
    proof (cases "filter (\<lambda>r. rx_is_match (fr_pattern r) s) (filter fr_enabled (cf_rules cf))")
      case Nil
      then show ?thesis using FaBlock
        by (cases "fp_enabled (cf_policy cf)")
          (simp_all add: content_filter_run_def filter_loop_Block first enabled_rules_def del: filter_filter)
    next
      case (Cons r rs)
      then show ?thesis using FaBlock
        by (cases "fp_enabled (cf_policy cf)")
          (simp_all add: content_filter_run_def filter_loop_Block first enabled_rules_def del: filter_filter)
    qed
  qed (cases "fp_enabled (cf_policy cf)";
    simp add: content_filter_run_def filter_loop_Warn filter_loop_Redact enabled_rules_def)+
qed

text \<open>A leak is reported for exactly the keys whose non-empty value occurs in the content.\<close>

lemma scan_exact:
  assumes "hmap_ok (sc_secrets st)"
  shows "key \<in> set (scan_for_leaks st content) \<longleftrightarrow>
    (\<exists>v. secrets_get st key = Some v \<and> secret_expose v \<noteq> [] \<and> sublist (secret_expose v) content)"
  using assms by (force simp: scan_for_leaks_def secrets_get_def secret_expose_def contains_str_sublist hget_iff_in_set)

text \<open>
  Redactions are reported from the input, not from the text being rewritten. A rule whose match was already replaced by
  an earlier rule is reported although it replaced nothing.
\<close>

theorem redaction_reported_not_made:
  assumes "fr_enabled r1" "fr_enabled r2" "rx_find (fr_pattern r2) s = [m]"
    and "rx_replace_all (fr_pattern r2) t (fr_replacement r2) = t" "rx_replace_all (fr_pattern r1) s (fr_replacement r1) = t"
  shows "fz_output (filter_loop FaRedact s [r1, r2] s []) = t
    \<and> fr_name r2 \<in> rn_rule_name ` set (fz_redactions (filter_loop FaRedact s [r1, r2] s []))"
  using assms by (cases m) (simp add: redactions_of_def)

end
