(* ===== verification/Wacp_Tools.thy ===== *)
theory Wacp_Tools
  imports Wacp_Resilience "HOL-Library.List_Lexorder" "HOL-Library.Char_ord"
begin

text \<open>
  Tool descriptors, packages, discovery, the execution engine, the process sandbox and the registry
  (\<open>wacp-tools/src/descriptor.rs\<close>, \<open>package.rs\<close>, \<open>discovery.rs\<close>, \<open>execution.rs\<close>, \<open>sandbox.rs\<close>, \<open>registry.rs\<close>).

  JSON values, \<open>jsonschema::validate\<close> and the serialisers are the operations of a parameter \<open>jo\<close>. A handler is a
  value of a type of its own; what happens when the engine runs it (it returns, panics, or one of the other branches
  of the \<open>select!\<close> is taken first) is the parameter \<open>run\<close>. What other invocations do to the shared breaker and
  limiter while this one waits or runs is the parameter \<open>others\<close>.
\<close>

record 'j json_ops =
  jo_keys :: "'j \<Rightarrow> string list option"
  jo_is_bool :: "'j \<Rightarrow> bool"
  jo_empty :: 'j
  jo_validate :: "'j \<Rightarrow> 'j \<Rightarrow> string option"
  jo_size :: "'j \<Rightarrow> nat option"
  jo_parse :: "bytes \<Rightarrow> ('j, string) result"

definition in_quotes :: "string \<Rightarrow> string" where
  "in_quotes s = CHR 0x27 # s @ [CHR 0x27]"

section \<open>Descriptors\<close>

datatype descriptor_error =
  DeInvalidName string string
| DeInvalidVersion string
| DeNoCapabilities
| DeDuplicateCapability string
| DeInvalidCapability string string
| DeInvalidConfigSchema string

fun descriptor_error_show :: "descriptor_error \<Rightarrow> string" where
  "descriptor_error_show (DeInvalidName name reason) = ''invalid tool name '' @ in_quotes name @ '': '' @ reason"
| "descriptor_error_show (DeInvalidVersion version) =
     ''invalid version '' @ in_quotes version @ '': expected major.minor.patch''"
| "descriptor_error_show DeNoCapabilities = ''descriptor must have at least one capability''"
| "descriptor_error_show (DeDuplicateCapability name) = ''duplicate capability name: '' @ in_quotes name"
| "descriptor_error_show (DeInvalidCapability name reason) = ''capability '' @ in_quotes name @ '': '' @ reason"
| "descriptor_error_show (DeInvalidConfigSchema reason) = ''invalid config_schema: '' @ reason"

record 'j capability =
  cp_name :: string
  cp_description :: string
  cp_input_schema :: 'j
  cp_output_schema :: 'j
  cp_timeout_ms :: "u64 option"
  cp_idempotent :: bool
  cp_side_effects :: bool

record 'j tool_descriptor =
  tl_name :: string
  tl_version :: string
  tl_description :: string
  tl_capabilities :: "'j capability list"
  tl_config_schema :: "'j option"
  tl_tags :: "string list"

definition is_lower :: "char \<Rightarrow> bool" where
  "is_lower c \<longleftrightarrow> 97 \<le> (of_char c :: nat) \<and> (of_char c :: nat) \<le> 122"

definition name_char :: "char \<Rightarrow> bool" where
  "name_char c \<longleftrightarrow> is_lower c \<or> is_digit c \<or> c = CHR ''_''"

text \<open>A check returns the error, \<open>None\<close> when there is none.\<close>

definition validate_name :: "string \<Rightarrow> descriptor_error option" where
  "validate_name name =
     (if name = [] then Some (DeInvalidName name ''name must not be empty'')
      else if 64 < length name then
        Some (DeInvalidName name (''name exceeds 64 characters ('' @ show_nat (length name) @ '')''))
      else if \<not> list_all name_char name then
        Some (DeInvalidName name ''name must contain only lowercase alphanumeric characters and underscores'')
      else if hd name = CHR ''_'' \<or> last name = CHR ''_'' then
        Some (DeInvalidName name ''name must not start or end with underscore'')
      else None)"

definition validate_version :: "string \<Rightarrow> descriptor_error option" where
  "validate_version version =
     (let parts = split_on (CHR ''.'') version in
      if length parts \<noteq> 3 then Some (DeInvalidVersion version)
      else first_error (map (\<lambda>part.
        if part = [] \<or> parse_below (2 ^ 32) part = None then Some (DeInvalidVersion version) else None) parts))"

definition validate_json_schema :: "'j json_ops \<Rightarrow> 'j \<Rightarrow> string option" where
  "validate_json_schema jo schema =
     (case jo_keys jo schema of
        Some ks \<Rightarrow>
          if ''type'' \<notin> set ks \<and> ''$ref'' \<notin> set ks \<and> ''oneOf'' \<notin> set ks \<and> ''anyOf'' \<notin> set ks \<and> ''allOf'' \<notin> set ks
          then Some (''schema must have '' @ in_quotes ''type'' @ '', '' @ in_quotes ''$ref'' @ '', '' @ in_quotes ''oneOf'' @
                 '', '' @ in_quotes ''anyOf'' @ '', or '' @ in_quotes ''allOf'')
          else None
      | None \<Rightarrow> if jo_is_bool jo schema then None else Some ''schema must be an object or boolean'')"

definition capability_validate :: "'j json_ops \<Rightarrow> 'j capability \<Rightarrow> descriptor_error option" where
  "capability_validate jo c = first_error
     [map_option (\<lambda>e. case e of DeInvalidName name reason \<Rightarrow> DeInvalidCapability name reason | other \<Rightarrow> other)
        (validate_name (cp_name c)),
      if cp_description c = [] then Some (DeInvalidCapability (cp_name c) ''description must not be empty'') else None,
      map_option (\<lambda>reason. DeInvalidCapability (cp_name c) (''invalid input_schema: '' @ reason))
        (validate_json_schema jo (cp_input_schema c))]"

fun check_capabilities :: "'j json_ops \<Rightarrow> string set \<Rightarrow> 'j capability list \<Rightarrow> descriptor_error option" where
  "check_capabilities jo seen [] = None"
| "check_capabilities jo seen (c # cs) =
     (if cp_name c \<in> seen then Some (DeDuplicateCapability (cp_name c))
      else (case capability_validate jo c of
        Some e \<Rightarrow> Some e
      | None \<Rightarrow> check_capabilities jo (insert (cp_name c) seen) cs))"

definition descriptor_validate :: "'j json_ops \<Rightarrow> 'j tool_descriptor \<Rightarrow> descriptor_error option" where
  "descriptor_validate jo d = first_error
     [validate_name (tl_name d),
      validate_version (tl_version d),
      if tl_capabilities d = [] then Some DeNoCapabilities else None,
      check_capabilities jo {} (tl_capabilities d),
      case tl_config_schema d of None \<Rightarrow> None
      | Some schema \<Rightarrow> map_option DeInvalidConfigSchema (validate_json_schema jo schema)]"

definition find_capability :: "'j tool_descriptor \<Rightarrow> string \<Rightarrow> 'j capability option" where
  "find_capability d name = find (\<lambda>c. cp_name c = name) (tl_capabilities d)"

section \<open>Packages\<close>

record ('j, 'h) tool_package =
  pk_descriptor :: "'j tool_descriptor"
  pk_handlers :: "(string, 'h) hmap"
  pk_initialize :: "('j \<Rightarrow> (unit, tool_error) result) option"
  pk_shutdown :: "(unit \<Rightarrow> (unit, tool_error) result) option"

datatype package_error =
  PkInvalidDescriptor descriptor_error
| PkMissingHandler string
| PkExtraHandler string
| PkInvalidConfig string
| PkInitializeFailed tool_error

definition package_validate :: "'j json_ops \<Rightarrow> ('j, 'h) tool_package \<Rightarrow> package_error option" where
  "package_validate jo p = first_error
     (map_option PkInvalidDescriptor (descriptor_validate jo (pk_descriptor p)) #
      map (\<lambda>c. if \<not> hhas (pk_handlers p) (cp_name c) then Some (PkMissingHandler (cp_name c)) else None)
        (tl_capabilities (pk_descriptor p)) @
      map (\<lambda>k. if find_capability (pk_descriptor p) k = None then Some (PkExtraHandler k) else None)
        (map fst (pk_handlers p)))"

text \<open>The builder holds the same four fields as the package it builds.\<close>

definition builder_new :: "'j tool_descriptor \<Rightarrow> ('j, 'h) tool_package" where
  "builder_new d = \<lparr>pk_descriptor = d, pk_handlers = [], pk_initialize = None, pk_shutdown = None\<rparr>"

definition builder_handler :: "string \<Rightarrow> 'h \<Rightarrow> ('j, 'h) tool_package \<Rightarrow> ('j, 'h) tool_package" where
  "builder_handler capability_name handler b = b\<lparr>pk_handlers := hput capability_name handler (pk_handlers b)\<rparr>"

definition builder_initialize ::
  "('j \<Rightarrow> (unit, tool_error) result) \<Rightarrow> ('j, 'h) tool_package \<Rightarrow> ('j, 'h) tool_package" where
  "builder_initialize f b = b\<lparr>pk_initialize := Some f\<rparr>"

definition builder_shutdown ::
  "(unit \<Rightarrow> (unit, tool_error) result) \<Rightarrow> ('j, 'h) tool_package \<Rightarrow> ('j, 'h) tool_package" where
  "builder_shutdown f b = b\<lparr>pk_shutdown := Some f\<rparr>"

definition builder_build :: "'j json_ops \<Rightarrow> ('j, 'h) tool_package \<Rightarrow> (('j, 'h) tool_package, package_error) result" where
  "builder_build jo b = (case package_validate jo b of Some e \<Rightarrow> Err e | None \<Rightarrow> Ok b)"

section \<open>Discovery\<close>

text \<open>
  A directory entry has a file name, whether it is a regular file, and the outcome of reading it as text. The JSON
  and YAML readers of a descriptor are parameters; \<open>show_path\<close> renders the path of an entry.
\<close>

record dir_entry =
  en_name :: string
  en_is_file :: bool
  en_content :: "(string, string) result"

datatype discovery_error =
  DsReadDir string string
| DsReadFile string string
| DsParseFailed string string
| DsValidationFailed string string

record 'j discovery_result =
  dr_descriptors :: "'j tool_descriptor list"
  dr_errors :: "discovery_error list"

text \<open>\<open>Path::extension\<close>: what follows the last dot, unless the name has none or only a leading one.\<close>

definition path_extension :: "string \<Rightarrow> string" where
  "path_extension name =
     (let parts = split_on (CHR ''.'') name in
      if length parts \<le> 1 \<or> (length parts = 2 \<and> hd parts = []) \<or> name = ''..'' then [] else last parts)"

definition load_json_descriptor ::
  "'j json_ops \<Rightarrow> (string \<Rightarrow> ('j tool_descriptor, string) result) \<Rightarrow> string \<Rightarrow> dir_entry \<Rightarrow>
     ('j tool_descriptor, discovery_error) result" where
  "load_json_descriptor jo json path e =
     (case en_content e of
        Err io \<Rightarrow> Err (DsReadFile path io)
      | Ok content \<Rightarrow> (case json content of
          Err reason \<Rightarrow> Err (DsParseFailed path reason)
        | Ok desc \<Rightarrow> (case descriptor_validate jo desc of
            Some er \<Rightarrow> Err (DsValidationFailed path (descriptor_error_show er))
          | None \<Rightarrow> Ok desc)))"

definition load_yaml_descriptor ::
  "'j json_ops \<Rightarrow> (string \<Rightarrow> ('j tool_descriptor, string) result) \<Rightarrow> string \<Rightarrow> dir_entry \<Rightarrow>
     ('j tool_descriptor, discovery_error) result" where
  "load_yaml_descriptor jo yaml path e =
     (case en_content e of
        Err io \<Rightarrow> Err (DsReadFile path io)
      | Ok content \<Rightarrow> (case yaml content of
          Err reason \<Rightarrow> Err (DsParseFailed path reason)
        | Ok desc \<Rightarrow> (case descriptor_validate jo desc of
            Some er \<Rightarrow> Err (DsValidationFailed path (descriptor_error_show er))
          | None \<Rightarrow> Ok desc)))"

definition discover_one ::
  "'j json_ops \<Rightarrow> (string \<Rightarrow> ('j tool_descriptor, string) result) \<Rightarrow> (string \<Rightarrow> ('j tool_descriptor, string) result) \<Rightarrow>
     (string \<Rightarrow> string) \<Rightarrow> dir_entry \<Rightarrow> 'j discovery_result \<Rightarrow> 'j discovery_result" where
  "discover_one jo json yaml show_path e res =
     (let path = show_path (en_name e); ext = path_extension (en_name e);
          put = (\<lambda>r. case r of Ok d \<Rightarrow> res\<lparr>dr_descriptors := dr_descriptors res @ [d]\<rparr>
                             | Err er \<Rightarrow> res\<lparr>dr_errors := dr_errors res @ [er]\<rparr>)
      in if \<not> en_is_file e then res
         else if ext = ''json'' then put (load_json_descriptor jo json path e)
         else if ext = ''yaml'' \<or> ext = ''yml'' then put (load_yaml_descriptor jo yaml path e)
         else res)"

definition discover_descriptors ::
  "'j json_ops \<Rightarrow> (string \<Rightarrow> ('j tool_descriptor, string) result) \<Rightarrow> (string \<Rightarrow> ('j tool_descriptor, string) result) \<Rightarrow>
     (string \<Rightarrow> string) \<Rightarrow> string \<Rightarrow> (dir_entry list, string) result \<Rightarrow> 'j discovery_result" where
  "discover_descriptors jo json yaml show_path dir listing =
     (case listing of
        Err io \<Rightarrow> \<lparr>dr_descriptors = [], dr_errors = [DsReadDir dir io]\<rparr>
      | Ok entries \<Rightarrow> fold (discover_one jo json yaml show_path) (sort_key en_name entries)
                        \<lparr>dr_descriptors = [], dr_errors = []\<rparr>)"

section \<open>The execution engine\<close>

record execution_config =
  ex_default_timeout_ms :: u64
  ex_max_timeout_ms :: u64
  ex_max_result_bytes :: nat

definition execution_config_default :: execution_config where
  "execution_config_default =
     \<lparr>ex_default_timeout_ms = 30000, ex_max_timeout_ms = 300000, ex_max_result_bytes = 1048576\<rparr>"

text \<open>A cancellation token is whether it is cancelled at the start.\<close>

record execution_options =
  xo_timeout_ms :: "u64 option"
  xo_workspace_id :: "workspace_id option"
  xo_cancellation_token :: "bool option"

record 'j tool_context =
  tx_tool_name :: string
  tx_capability_name :: string
  tx_workspace_id :: "workspace_id option"
  tx_cancelled :: bool
  tx_config :: 'j
  tx_timeout_ms :: u64

text \<open>
  What running a handler leads to: the future cannot be created because the handler panics first, it returns, it
  panics with or without a textual payload, the timer fires first, or the token is cancelled first.
\<close>

datatype 'j handler_outcome =
  HoCreationPanic | HoReturned "('j, tool_error) result" | HoPanicked "string option" | HoTimeout | HoCancelled

definition validate_input :: "'j json_ops \<Rightarrow> 'j \<Rightarrow> 'j \<Rightarrow> tool_error option" where
  "validate_input jo args schema =
     map_option (\<lambda>e. te_validation (''input validation failed: '' @ e)) (jo_validate jo schema args)"

definition resolve_timeout :: "u64 option \<Rightarrow> u64 option \<Rightarrow> execution_config \<Rightarrow> u64" where
  "resolve_timeout invocation capability cfg =
     min (case invocation of Some t \<Rightarrow> t
          | None \<Rightarrow> (case capability of Some t \<Rightarrow> t | None \<Rightarrow> ex_default_timeout_ms cfg)) (ex_max_timeout_ms cfg)"

definition truncate_message :: "string \<Rightarrow> string option" where
  "truncate_message msg =
     (if 4096 < length msg then map_option (\<lambda>s. s @ ''...'') (str_take 4093 msg) else Some msg)"

text \<open>\<open>None\<close> is a panic of the engine itself.\<close>

definition invoke_with_timeout ::
  "('h \<Rightarrow> 'j tool_context \<Rightarrow> 'j \<Rightarrow> 'j handler_outcome) \<Rightarrow> 'h \<Rightarrow> 'j tool_context \<Rightarrow> 'j \<Rightarrow> u64 \<Rightarrow> bool \<Rightarrow>
     ('j, tool_error) result option" where
  "invoke_with_timeout run handler ctx args timeout_ms cancelled =
     (if cancelled then Some (Err te_cancelled)
      else (case run handler ctx args of
        HoCreationPanic \<Rightarrow> None
      | HoReturned r \<Rightarrow> Some r
      | HoPanicked payload \<Rightarrow>
          map_option (\<lambda>m. Err (te_internal m))
            (truncate_message (case payload of Some s \<Rightarrow> s | None \<Rightarrow> ''handler panicked''))
      | HoTimeout \<Rightarrow> Some (Err (te_timeout (''handler exceeded timeout of '' @ show_nat (unat timeout_ms) @ ''ms'')))
      | HoCancelled \<Rightarrow> Some (Err te_cancelled)))"

definition check_result_size :: "'j json_ops \<Rightarrow> 'j \<Rightarrow> nat \<Rightarrow> tool_error option" where
  "check_result_size jo v max_bytes =
     (let size = (case jo_size jo v of None \<Rightarrow> 0 | Some n \<Rightarrow> n) in
      if max_bytes < size then
        Some (te_execution (''result size ('' @ show_nat size @ '' bytes) exceeds maximum ('' @ show_nat max_bytes @
          '' bytes)'') False)
      else None)"

definition execution_context ::
  "'j capability \<Rightarrow> string \<Rightarrow> 'j \<Rightarrow> execution_config \<Rightarrow> execution_options \<Rightarrow> 'j tool_context" where
  "execution_context cap tool_name config fcfg opts =
     \<lparr>tx_tool_name = tool_name, tx_capability_name = cp_name cap, tx_workspace_id = xo_workspace_id opts,
      tx_cancelled = (xo_cancellation_token opts = Some True), tx_config = config,
      tx_timeout_ms = resolve_timeout (xo_timeout_ms opts) (cp_timeout_ms cap) fcfg\<rparr>"

definition execution_execute ::
  "'j json_ops \<Rightarrow> ('h \<Rightarrow> 'j tool_context \<Rightarrow> 'j \<Rightarrow> 'j handler_outcome) \<Rightarrow> 'h \<Rightarrow> 'j capability \<Rightarrow> string \<Rightarrow> 'j \<Rightarrow>
     execution_config \<Rightarrow> 'j \<Rightarrow> execution_options \<Rightarrow> ('j, tool_error) result option" where
  "execution_execute jo run handler cap tool_name config fcfg args opts =
     (case validate_input jo args (cp_input_schema cap) of
        Some e \<Rightarrow> Some (Err e)
      | None \<Rightarrow>
          (let ctx = execution_context cap tool_name config fcfg opts in
           case invoke_with_timeout run handler ctx args (tx_timeout_ms ctx) (tx_cancelled ctx) of
             None \<Rightarrow> None
           | Some (Err e) \<Rightarrow> Some (Err e)
           | Some (Ok v) \<Rightarrow> (case check_result_size jo v (ex_max_result_bytes fcfg) of
               Some e \<Rightarrow> Some (Err e)
             | None \<Rightarrow> Some (Ok v))))"

section \<open>Sandboxing\<close>

datatype sandbox_level = SlNone | SlProcess | SlContainer

record container_config =
  ct_image :: string
  ct_memory_limit :: u64
  ct_cpu_limit :: u32
  ct_network :: bool

definition default_memory_limit :: u64 where
  "default_memory_limit = 256 * 1024 * 1024"

definition default_cpu_limit :: u32 where
  "default_cpu_limit = 1000"

record sandbox_policy =
  sp_level :: sandbox_level
  sp_container :: "container_config option"

definition select_policy :: "bool \<Rightarrow> sandbox_level option \<Rightarrow> sandbox_level" where
  "select_policy side_effects deployer_override =
     (case deployer_override of
        Some level \<Rightarrow> level
      | None \<Rightarrow> if side_effects then SlProcess else SlNone)"

text \<open>
  The operating system's part of running a child: the step that failed, with its message, or the exit of the child
  with what it wrote. \<open>lossy\<close> is \<open>String::from_utf8_lossy\<close>.
\<close>

datatype process_outcome =
  PoSerialize string | PoSpawn string | PoStdin string | PoTimeout | PoWait string
| PoExit bool string bytes bytes

definition execute_in_process ::
  "'j json_ops \<Rightarrow> (bytes \<Rightarrow> string) \<Rightarrow> nat \<Rightarrow> process_outcome \<Rightarrow> ('j, tool_error) result option" where
  "execute_in_process jo lossy timeout_millis outcome =
     (case outcome of
        PoSerialize e \<Rightarrow> Some (Err (te_internal (''failed to serialize input: '' @ e)))
      | PoSpawn e \<Rightarrow> Some (Err (te_internal (''failed to spawn process: '' @ e)))
      | PoStdin e \<Rightarrow> Some (Err (te_internal (''failed to write to stdin: '' @ e)))
      | PoTimeout \<Rightarrow> Some (Err (te_timeout (''process exceeded timeout of '' @ show_nat timeout_millis @ ''ms'')))
      | PoWait e \<Rightarrow> Some (Err (te_internal (''failed to wait for process: '' @ e)))
      | PoExit success status out err \<Rightarrow>
          if success then
            Some (case jo_parse jo out of
                    Ok v \<Rightarrow> Ok v
                  | Err e \<Rightarrow> Err (te_internal (''process output is not valid JSON: '' @ e)))
          else
            (let message = (if lossy err \<noteq> [] then lossy err
                            else if lossy out \<noteq> [] then lossy out
                            else ''process exited with status: '' @ status)
             in map_option (\<lambda>m. Err (te_internal m)) (truncate_message message)))"

section \<open>The registry\<close>

record 'j registry_config =
  rc_tool_configs :: "(string, 'j) hmap"
  rc_execution :: execution_config
  rc_default_concurrency :: concurrency_config
  rc_default_circuit_breaker :: breaker_config

record ('j, 'h) registered_tool =
  rt_descriptor :: "'j tool_descriptor"
  rt_handlers :: "(string, 'h) hmap"
  rt_config :: 'j
  rt_circuit_breaker :: circuit_breaker
  rt_concurrency :: limiter

record ('j, 'h) registry =
  rg_tools :: "(string, ('j, 'h) registered_tool) hmap"
  rg_config :: "'j registry_config"

datatype registry_error =
  RePackage package_error | ReDuplicateName string | ReNotFound string | ReInitializeFailed string tool_error

definition registry_new :: "'j registry_config \<Rightarrow> ('j, 'h) registry" where
  "registry_new cfg = \<lparr>rg_tools = [], rg_config = cfg\<rparr>"

definition register ::
  "'j json_ops \<Rightarrow> nat \<Rightarrow> ('j, 'h) tool_package \<Rightarrow> ('j, 'h) registry \<Rightarrow> (unit, registry_error) result \<times> ('j, 'h) registry" where
  "register jo max_permits p reg =
     (let d = pk_descriptor p; name = tl_name d; cfg = rg_config reg;
          tool_config = (case hget (rc_tool_configs cfg) name of Some v \<Rightarrow> v | None \<Rightarrow> jo_empty jo)
      in case package_validate jo p of
           Some e \<Rightarrow> (Err (RePackage e), reg)
         | None \<Rightarrow>
      if hhas (rg_tools reg) name then (Err (ReDuplicateName name), reg)
      else (case Option.bind (tl_config_schema d) (\<lambda>schema. jo_validate jo schema tool_config) of
           Some reason \<Rightarrow> (Err (RePackage (PkInvalidConfig reason)), reg)
         | None \<Rightarrow>
      (case (case pk_initialize p of None \<Rightarrow> Ok () | Some init \<Rightarrow> init tool_config) of
           Err e \<Rightarrow> (Err (ReInitializeFailed name e), reg)
         | Ok _ \<Rightarrow>
             (Ok (), reg\<lparr>rg_tools := hput name
                \<lparr>rt_descriptor = d, rt_handlers = pk_handlers p, rt_config = tool_config,
                 rt_circuit_breaker = breaker_new (rc_default_circuit_breaker cfg),
                 rt_concurrency = limiter_new max_permits (rc_default_concurrency cfg)\<rparr> (rg_tools reg)\<rparr>))))"

definition unregister :: "string \<Rightarrow> ('j, 'h) registry \<Rightarrow> (unit, registry_error) result \<times> ('j, 'h) registry" where
  "unregister name reg =
     (if hhas (rg_tools reg) name then (Ok (), reg\<lparr>rg_tools := hdel name (rg_tools reg)\<rparr>)
      else (Err (ReNotFound name), reg))"

definition list_tools :: "('j, 'h) registry \<Rightarrow> 'j tool_descriptor list" where
  "list_tools reg = map rt_descriptor (hvals (rg_tools reg))"

definition get_tool :: "('j, 'h) registry \<Rightarrow> string \<Rightarrow> 'j tool_descriptor option" where
  "get_tool reg name = map_option rt_descriptor (hget (rg_tools reg) name)"

definition registry_len :: "('j, 'h) registry \<Rightarrow> nat" where
  "registry_len reg = length (rg_tools reg)"

definition registry_is_empty :: "('j, 'h) registry \<Rightarrow> bool" where
  "registry_is_empty reg \<longleftrightarrow> rg_tools reg = []"

text \<open>
  \<open>execute\<close> in the parts its two suspension points cut it into: the lookup; the breaker check and the part of
  \<open>acquire\<close> before it waits; the engine; the record of the outcome and the release of the permit.
\<close>

definition registry_lookup ::
  "('j, 'h) registry \<Rightarrow> string \<Rightarrow> string \<Rightarrow> (('j, 'h) registered_tool \<times> 'j capability \<times> 'h, tool_error) result" where
  "registry_lookup reg tool_name capability_name =
     (case hget (rg_tools reg) tool_name of
        None \<Rightarrow> Err (te_validation (''tool '' @ in_quotes tool_name @ '' not found''))
      | Some t \<Rightarrow> (case find_capability (rt_descriptor t) capability_name of
          None \<Rightarrow> Err (te_validation (''capability '' @ in_quotes capability_name @ '' not found in tool '' @ in_quotes tool_name))
        | Some cap \<Rightarrow> (case hget (rt_handlers t) capability_name of
            None \<Rightarrow> Err (te_internal (''handler missing for capability '' @ in_quotes capability_name @ '' '' @
                      [CHR 0xE2, CHR 0x80, CHR 0x94] @ '' registry inconsistency''))
          | Some h \<Rightarrow> Ok (t, cap, h))))"

definition acquire_start :: "limiter \<Rightarrow> lim_phase \<times> limiter" where
  "acquire_start l =
     (case lim_try l of (p, l1) \<Rightarrow>
        if p = LpFull then (if lim_admit l1 = LpAdmitted then lim_enter l1 else (lim_admit l1, l1)) else (p, l1))"

definition note_outcome :: "instant \<Rightarrow> ('j, tool_error) result \<Rightarrow> circuit_breaker \<Rightarrow> circuit_breaker" where
  "note_outcome now r b =
     (case r of
        Ok _ \<Rightarrow> record_success b
      | Err e \<Rightarrow> (case tr_code e of
          TcTimeout \<Rightarrow> record_failure now b
        | TcExecutionFailed \<Rightarrow> record_failure now b
        | TcInternalError \<Rightarrow> record_failure now b
        | _ \<Rightarrow> b))"

definition with_guards :: "circuit_breaker \<times> limiter \<Rightarrow> ('j, 'h) registered_tool \<Rightarrow> ('j, 'h) registered_tool" where
  "with_guards g t = t\<lparr>rt_circuit_breaker := fst g, rt_concurrency := snd g\<rparr>"

definition guards :: "('j, 'h) registered_tool \<Rightarrow> circuit_breaker \<times> limiter" where
  "guards t = (rt_circuit_breaker t, rt_concurrency t)"

text \<open>
  One invocation on the guards of its tool: \<open>wait\<close> and \<open>others\<close> are what the other invocations do to them while
  this one waits for a permit, and while its handler runs.
\<close>

definition guarded_call ::
  "(duration \<Rightarrow> string) \<Rightarrow> instant \<Rightarrow> instant \<Rightarrow> (circuit_breaker \<times> limiter \<Rightarrow> circuit_breaker \<times> limiter) \<Rightarrow>
     (circuit_breaker \<times> limiter \<Rightarrow> circuit_breaker \<times> limiter) \<Rightarrow> ('j, tool_error) result option \<Rightarrow>
     circuit_breaker \<times> limiter \<Rightarrow> ('j, tool_error) result option \<times> (circuit_breaker \<times> limiter)" where
  "guarded_call dbg now later wait others engine g =
     (case breaker_check dbg now (fst g) of
        (Err e, b1) \<Rightarrow> (Some (Err e), (b1, snd g))
      | (Ok _, b1) \<Rightarrow>
          (let finish = (\<lambda>q g3. case others g3 of (b4, l4) \<Rightarrow>
                 (engine, (case engine of None \<Rightarrow> b4 | Some r \<Rightarrow> note_outcome later r b4, lim_release q l4)))
           in case acquire_start (snd g) of
                (LpRefused e, l1) \<Rightarrow> (Some (Err e), (b1, l1))
              | (LpWaiting q, l1) \<Rightarrow> (case wait (b1, l1) of (b2, l2) \<Rightarrow> finish q (b2, snd (lim_grant q l2)))
              | (_, l1) \<Rightarrow> finish False (b1, l1)))"

definition registry_execute ::
  "'j json_ops \<Rightarrow> ('h \<Rightarrow> 'j tool_context \<Rightarrow> 'j \<Rightarrow> 'j handler_outcome) \<Rightarrow> (duration \<Rightarrow> string) \<Rightarrow> instant \<Rightarrow> instant \<Rightarrow>
     (circuit_breaker \<times> limiter \<Rightarrow> circuit_breaker \<times> limiter) \<Rightarrow> (circuit_breaker \<times> limiter \<Rightarrow> circuit_breaker \<times> limiter) \<Rightarrow>
     string \<Rightarrow> string \<Rightarrow> 'j \<Rightarrow> execution_options \<Rightarrow> ('j, 'h) registry \<Rightarrow>
     ('j, tool_error) result option \<times> ('j, 'h) registry" where
  "registry_execute jo run dbg now later wait others tool_name capability_name args opts reg =
     (case registry_lookup reg tool_name capability_name of
        Err e \<Rightarrow> (Some (Err e), reg)
      | Ok (t, cap, h) \<Rightarrow>
          (let engine = execution_execute jo run h cap tool_name (rt_config t) (rc_execution (rg_config reg)) args opts;
               (r, g) = guarded_call dbg now later wait others engine (guards t)
           in (r, reg\<lparr>rg_tools := hput tool_name (with_guards g t) (rg_tools reg)\<rparr>)))"

section \<open>What the engine lets through\<close>

lemma resolve_timeout_bound: "resolve_timeout i c cfg \<le> ex_max_timeout_ms cfg"
  by (simp add: resolve_timeout_def)

lemma check_result_size_None:
  "check_result_size jo v n = None \<longleftrightarrow> (case jo_size jo v of None \<Rightarrow> 0 | Some k \<Rightarrow> k) \<le> n"
  by (auto simp: check_result_size_def Let_def)

lemma invoke_Ok:
  "invoke_with_timeout run h ctx args t c = Some (Ok v) \<longleftrightarrow> \<not> c \<and> run h ctx args = HoReturned (Ok v)"
  by (auto simp: invoke_with_timeout_def split: handler_outcome.splits)

text \<open>The engine returns a value exactly when the arguments satisfy the input schema, the token was not cancelled, the
  handler, run with the configured context, returned that value, and its serialised form is within the limit. The
  timeout the handler gets is never above the configured maximum. Arguments that fail the schema give a validation
  error, whatever the handler would do.\<close>
theorem execution_mediated:
  "(execution_execute jo run h cap tool config fcfg args opts = Some (Ok v) \<longleftrightarrow>
      jo_validate jo (cp_input_schema cap) args = None
      \<and> xo_cancellation_token opts \<noteq> Some True
      \<and> run h (execution_context cap tool config fcfg opts) args = HoReturned (Ok v)
      \<and> (case jo_size jo v of None \<Rightarrow> 0 | Some n \<Rightarrow> n) \<le> ex_max_result_bytes fcfg)
   \<and> tx_timeout_ms (execution_context cap tool config fcfg opts) \<le> ex_max_timeout_ms fcfg
   \<and> (case jo_validate jo (cp_input_schema cap) args of None \<Rightarrow> True
      | Some e \<Rightarrow> execution_execute jo run h cap tool config fcfg args opts
                    = Some (Err (te_validation (''input validation failed: '' @ e))))"
proof -
  have c: "tx_cancelled (execution_context cap tool config fcfg opts) = (xo_cancellation_token opts = Some True)"
    by (simp add: execution_context_def)
  have "tx_timeout_ms (execution_context cap tool config fcfg opts) \<le> ex_max_timeout_ms fcfg"
    by (simp add: execution_context_def resolve_timeout_bound)
  moreover have "execution_execute jo run h cap tool config fcfg args opts = Some (Ok v) \<longleftrightarrow>
      jo_validate jo (cp_input_schema cap) args = None
      \<and> invoke_with_timeout run h (execution_context cap tool config fcfg opts) args
          (tx_timeout_ms (execution_context cap tool config fcfg opts))
          (tx_cancelled (execution_context cap tool config fcfg opts)) = Some (Ok v)
      \<and> check_result_size jo v (ex_max_result_bytes fcfg) = None"
    by (auto simp: execution_execute_def validate_input_def Let_def split: option.splits result.splits)
  moreover have "case jo_validate jo (cp_input_schema cap) args of None \<Rightarrow> True
      | Some e \<Rightarrow> execution_execute jo run h cap tool config fcfg args opts
                    = Some (Err (te_validation (''input validation failed: '' @ e)))"
    by (simp add: execution_execute_def validate_input_def split: option.splits)
  ultimately show ?thesis by (simp add: invoke_Ok check_result_size_None c)
qed

text \<open>
  Two panics that the engine does not turn into an error: the handler panics while it creates its future, and a long
  panic message whose byte 4093 is inside a character.
\<close>

theorem creation_panic_escapes:
  "run h (execution_context cap tool config fcfg opts) args = HoCreationPanic \<Longrightarrow>
   jo_validate jo (cp_input_schema cap) args = None \<Longrightarrow> xo_cancellation_token opts = None \<Longrightarrow>
   execution_execute jo run h cap tool config fcfg args opts = None"
  by (simp add: execution_execute_def validate_input_def invoke_with_timeout_def execution_context_def Let_def)

theorem long_message_panics:
  assumes "msg = replicate 4092 (CHR ''a'') @ [CHR 0xC3, CHR 0xA9] @ replicate 3 (CHR ''a'')"
  shows "truncate_message msg = None"
proof -
  have "length msg = 4097" "msg ! 4093 = CHR 0xA9" using assms by (simp_all add: nth_append)
  then show ?thesis by (simp add: truncate_message_def str_take_def is_continuation_def)
qed

lemma version_accepts_plus: "validate_version ''+1.0.0'' = None"
  by (simp add: validate_version_def parse_below_def is_digit_def read_nat_def)

section \<open>The registry stays consistent\<close>

definition tool_ok :: "'j json_ops \<Rightarrow> string \<Rightarrow> ('j, 'h) registered_tool \<Rightarrow> bool" where
  "tool_ok jo name t \<longleftrightarrow> tl_name (rt_descriptor t) = name \<and> descriptor_validate jo (rt_descriptor t) = None
     \<and> (\<forall>c. hhas (rt_handlers t) c \<longleftrightarrow> c \<in> cp_name ` set (tl_capabilities (rt_descriptor t)))"

definition registry_inv :: "'j json_ops \<Rightarrow> ('j, 'h) registry \<Rightarrow> bool" where
  "registry_inv jo reg \<longleftrightarrow> hmap_ok (rg_tools reg) \<and> (\<forall>name t. hget (rg_tools reg) name = Some t \<longrightarrow> tool_ok jo name t)"

lemma find_capability_None: "find_capability d name = None \<longleftrightarrow> name \<notin> cp_name ` set (tl_capabilities d)"
  by (auto simp: find_capability_def find_None_iff)

lemma find_capability_Some: "find_capability d name = Some c \<Longrightarrow> c \<in> set (tl_capabilities d) \<and> cp_name c = name"
  by (auto simp: find_capability_def find_Some_iff)

lemma package_valid:
  assumes "package_validate jo p = None"
  shows "descriptor_validate jo (pk_descriptor p) = None"
    and "hhas (pk_handlers p) c \<longleftrightarrow> c \<in> cp_name ` set (tl_capabilities (pk_descriptor p))"
proof -
  have all: "descriptor_validate jo (pk_descriptor p) = None"
    "\<forall>c \<in> set (tl_capabilities (pk_descriptor p)). hhas (pk_handlers p) (cp_name c)"
    "\<forall>k \<in> fst ` set (pk_handlers p). find_capability (pk_descriptor p) k \<noteq> None"
    using assms by (auto simp: package_validate_def first_error_None image_subset_iff split: if_splits)
  show "descriptor_validate jo (pk_descriptor p) = None" by (rule all(1))
  show "hhas (pk_handlers p) c \<longleftrightarrow> c \<in> cp_name ` set (tl_capabilities (pk_descriptor p))"
  proof
    assume "hhas (pk_handlers p) c"
    then have "c \<in> fst ` set (pk_handlers p)" using hget_None_iff [of "pk_handlers p" c] by (auto simp: hhas_def)
    then show "c \<in> cp_name ` set (tl_capabilities (pk_descriptor p))"
      using all(3) find_capability_None [of "pk_descriptor p" c] by blast
  qed (use all(2) in auto)
qed

lemma registry_inv_new: "registry_inv jo (registry_new cfg)"
  by (simp add: registry_inv_def registry_new_def)

lemma registry_inv_put:
  assumes "registry_inv jo reg" "tool_ok jo name t"
  shows "registry_inv jo (reg\<lparr>rg_tools := hput name t (rg_tools reg)\<rparr>)"
  using assms by (auto simp: registry_inv_def hget_hput split: if_splits)

lemma registry_inv_register [keeps]: "registry_inv jo reg \<Longrightarrow> registry_inv jo (snd (register jo mp p reg))"
  by (auto simp: register_def Let_def tool_ok_def package_valid intro!: registry_inv_put
      split: option.splits result.splits)

lemma registry_inv_unregister [keeps]: "registry_inv jo reg \<Longrightarrow> registry_inv jo (snd (unregister name reg))"
  by (auto simp: unregister_def registry_inv_def hget_hdel split: if_splits)

lemma lookup_Ok:
  assumes "registry_lookup reg tool cap = Ok (t, c, h)"
  shows "hget (rg_tools reg) tool = Some t" "find_capability (rt_descriptor t) cap = Some c" "hget (rt_handlers t) cap = Some h"
  using assms by (auto simp: registry_lookup_def split: option.splits)

lemma tool_ok_guards [simp]: "tool_ok jo name (with_guards g t) = tool_ok jo name t"
  by (simp add: tool_ok_def with_guards_def)

lemma registry_inv_execute [keeps]:
  assumes "registry_inv jo reg"
  shows "registry_inv jo (snd (registry_execute jo run dbg now later wait others tool cap args opts reg))"
proof (cases "registry_lookup reg tool cap")
  case (Ok x)
  obtain t c h where x: "x = (t, c, h)" by (cases x)
  have "tool_ok jo tool t" using lookup_Ok(1) [of reg tool cap t c h] Ok x assms by (auto simp: registry_inv_def)
  then show ?thesis using registry_inv_put [OF assms]
    by (simp add: registry_execute_def Ok x Let_def split: prod.splits)
qed (simp add: registry_execute_def assms)

inductive registry_reachable :: "'j json_ops \<Rightarrow> nat \<Rightarrow> ('j, 'h) registry \<Rightarrow> bool" for jo mp where
  rr_new: "registry_reachable jo mp (registry_new cfg)"
| rr_register: "registry_reachable jo mp reg \<Longrightarrow> registry_reachable jo mp (snd (register jo mp p reg))"
| rr_unregister: "registry_reachable jo mp reg \<Longrightarrow> registry_reachable jo mp (snd (unregister name reg))"
| rr_execute: "registry_reachable jo mp reg \<Longrightarrow>
     registry_reachable jo mp (snd (registry_execute jo run dbg now later wait others tool cap args opts reg))"

lemma registry_reachable_inv: "registry_reachable jo mp reg \<Longrightarrow> registry_inv jo reg"
  by (induction rule: registry_reachable.induct) (auto intro: keeps registry_inv_new)

text \<open>C36. In every registry built by registrations, removals and invocations, each registered tool has a valid
  descriptor under its own name. The lookup of an invocation finds a capability with its handler exactly when the
  tool is registered and declares it; otherwise the caller gets a validation error, never the internal error of an
  inconsistent registry.\<close>
theorem registry_consistent:
  assumes "registry_reachable jo mp reg"
  shows "(case get_tool reg tool of None \<Rightarrow> True
          | Some d \<Rightarrow> tl_name d = tool \<and> descriptor_validate jo d = None)
    \<and> (case registry_lookup reg tool cap of
         Ok (t, c, h) \<Rightarrow> get_tool reg tool = Some (rt_descriptor t) \<and> c \<in> set (tl_capabilities (rt_descriptor t))
                          \<and> cp_name c = cap \<and> hget (rt_handlers t) cap = Some h
       | Err e \<Rightarrow> tr_code e = TcValidationFailed
                   \<and> (case get_tool reg tool of None \<Rightarrow> True | Some d \<Rightarrow> cap \<notin> cp_name ` set (tl_capabilities d)))"
proof (cases "hget (rg_tools reg) tool")
  case None
  then show ?thesis by (simp add: get_tool_def registry_lookup_def te_validation_def)
next
  case (Some t)
  have ok: "tool_ok jo tool t" using registry_reachable_inv [OF assms] Some by (simp add: registry_inv_def)
  show ?thesis
  proof (cases "find_capability (rt_descriptor t) cap")
    case None
    then show ?thesis using ok find_capability_None [THEN iffD1, OF None]
      by (simp add: get_tool_def registry_lookup_def Some te_validation_def tool_ok_def)
  next
    case (Some c)
    then have c: "c \<in> set (tl_capabilities (rt_descriptor t))" "cp_name c = cap" by (simp_all add: find_capability_Some)
    then have "hhas (rt_handlers t) cap" using ok by (auto simp: tool_ok_def)
    then obtain h where "hget (rt_handlers t) cap = Some h" by (auto simp: hhas_def)
    then show ?thesis using ok c Some \<open>hget (rg_tools reg) tool = Some t\<close>
      by (simp add: get_tool_def registry_lookup_def tool_ok_def)
  qed
qed

section \<open>Invocations and the breaker\<close>

lemma acquire_free: "0 < li_available l \<Longrightarrow> acquire_start l = (LpRunning False, l\<lparr>li_available := li_available l - 1\<rparr>)"
  by (simp add: acquire_start_def lim_try_def)

lemma release_taken: "0 < li_available l \<Longrightarrow> lim_release False (l\<lparr>li_available := li_available l - Suc 0\<rparr>) = l"
  by (simp add: lim_release_def)

lemma call_admitted:
  assumes "breaker_check dbg now b = (Ok (), b1)" "0 < li_available l"
  shows "guarded_call dbg now later wait (\<lambda>g. g) engine (b, l)
           = (engine, (case engine of None \<Rightarrow> b1 | Some r \<Rightarrow> note_outcome later r b1, l))"
  using assms by (simp add: guarded_call_def acquire_free release_taken Let_def)

text \<open>C37. An invocation of a registered capability, with a closed breaker and a free permit and no other invocation
  interfering, returns exactly what the engine returns; afterwards the permit is back, every other tool is as
  before, and the breaker has recorded the outcome: nothing for a success, a validation error or a cancellation, a
  failure for a timeout, an execution error or an internal error.\<close>
theorem invocation_transparent:
  assumes "registry_lookup reg tool cap = Ok (t, c, h)" "bk_status (cb_state (rt_circuit_breaker t)) = BsClosed"
    and "0 < available_permits (rt_concurrency t)"
    and "execution_execute jo run h c tool (rt_config t) (rc_execution (rg_config reg)) args opts = Some r"
  shows "fst (registry_execute jo run dbg now later wait (\<lambda>g. g) tool cap args opts reg) = Some r
    \<and> hget (rg_tools (snd (registry_execute jo run dbg now later wait (\<lambda>g. g) tool cap args opts reg))) other =
        (if other = tool
         then Some (t\<lparr>rt_circuit_breaker :=
                (case r of Ok _ \<Rightarrow> rt_circuit_breaker t
                 | Err e \<Rightarrow> if tr_code e \<in> {TcTimeout, TcExecutionFailed, TcInternalError}
                            then record_failure later (rt_circuit_breaker t) else rt_circuit_breaker t)\<rparr>)
         else hget (rg_tools reg) other)"
proof -
  have "breaker_check dbg now (rt_circuit_breaker t) = (Ok (), rt_circuit_breaker t)"
    using assms(2) by (simp add: breaker_check_def Let_def)
  then have call: "guarded_call dbg now later wait (\<lambda>g. g) (Some r) (guards t) =
      (Some r, (note_outcome later r (rt_circuit_breaker t), rt_concurrency t))"
    using call_admitted [of dbg now "rt_circuit_breaker t" "rt_circuit_breaker t" "rt_concurrency t" later wait "Some r"]
      assms(3) by (simp add: guards_def available_permits_def)
  have "note_outcome later r (rt_circuit_breaker t) =
      (case r of Ok _ \<Rightarrow> rt_circuit_breaker t
       | Err e \<Rightarrow> if tr_code e \<in> {TcTimeout, TcExecutionFailed, TcInternalError}
                  then record_failure later (rt_circuit_breaker t) else rt_circuit_breaker t)"
    using assms(2) by (simp add: note_outcome_def record_success_def split: result.split tool_error_code.split)
  moreover have "registry_execute jo run dbg now later wait (\<lambda>g. g) tool cap args opts reg =
      (Some r, reg\<lparr>rg_tools := hput tool (with_guards (note_outcome later r (rt_circuit_breaker t), rt_concurrency t) t)
         (rg_tools reg)\<rparr>)"
    by (simp only: registry_execute_def assms(1,4) result.case prod.case Let_def call)
  ultimately show ?thesis by (simp only: fst_conv snd_conv with_guards_def) simp
qed

text \<open>
  A probe whose arguments fail validation leaves the breaker half-open: its outcome is not recorded, and from then on
  every invocation of the tool is rejected, at any time, and changes nothing.
\<close>

theorem probe_lost:
  assumes "registry_lookup reg tool cap = Ok (t, c, h)" "bc_enabled (cb_config (rt_circuit_breaker t))"
    and "bk_status (cb_state (rt_circuit_breaker t)) = BsHalfOpen"
  shows "note_outcome later (Err (te_validation m) :: ('j, tool_error) result) (rt_circuit_breaker t) = rt_circuit_breaker t
    \<and> fst (registry_execute jo run dbg now later wait others tool cap args opts reg)
        = Some (Err (te_unavailable ''circuit breaker half-open, probe in progress''))
    \<and> hget (rg_tools (snd (registry_execute jo run dbg now later wait others tool cap args opts reg))) other
        = hget (rg_tools reg) other"
  using assms(1) lookup_Ok(1) [OF assms(1)] half_open_checks [OF assms(2,3)]
  by (simp add: registry_execute_def guarded_call_def guards_def with_guards_def hget_hput note_outcome_def te_validation_def)

section \<open>Sample\<close>

definition sample_ops :: "nat json_ops" where
  "sample_ops = \<lparr>jo_keys = (\<lambda>_. Some [''type'']), jo_is_bool = (\<lambda>_. False), jo_empty = 0,
     jo_validate = (\<lambda>_ v. if v < 100 then None else Some ''too large''), jo_size = (\<lambda>v. Some v),
     jo_parse = (\<lambda>_. Err ''eof'')\<rparr>"

definition sample_capability :: "nat capability" where
  "sample_capability = \<lparr>cp_name = ''run'', cp_description = ''runs'', cp_input_schema = 0, cp_output_schema = 0,
     cp_timeout_ms = None, cp_idempotent = True, cp_side_effects = False\<rparr>"

definition sample_package :: "(nat, nat) tool_package" where
  "sample_package = builder_handler ''run'' 7 (builder_new
     \<lparr>tl_name = ''echo_tool'', tl_version = ''1.0.0'', tl_description = ''echo'', tl_capabilities = [sample_capability],
      tl_config_schema = None, tl_tags = []\<rparr>)"

definition sample_registry :: "(nat, nat) registry" where
  "sample_registry = snd (register sample_ops 100 sample_package (registry_new
     \<lparr>rc_tool_configs = [], rc_execution = execution_config_default,
      rc_default_concurrency = concurrency_config_default, rc_default_circuit_breaker = breaker_config_default\<rparr>))"

lemma sample_names: "validate_name ''echo_tool'' = None" "validate_name ''run'' = None" "validate_version ''1.0.0'' = None"
  by (simp_all add: validate_name_def name_char_def is_lower_def is_digit_def validate_version_def parse_below_def read_nat_def)

lemma sample_package_valid: "package_validate sample_ops sample_package = None"
  by (simp add: package_validate_def sample_package_def builder_handler_def builder_new_def descriptor_validate_def
      capability_validate_def validate_json_schema_def find_capability_def sample_capability_def sample_ops_def sample_names hhas_def)

lemma sample_tool:
  "hget (rg_tools sample_registry) ''echo_tool'' = Some \<lparr>rt_descriptor = pk_descriptor sample_package,
     rt_handlers = [(''run'', 7)], rt_config = 0, rt_circuit_breaker = breaker_new breaker_config_default,
     rt_concurrency = limiter_new 100 concurrency_config_default\<rparr>"
  by (simp add: sample_registry_def register_def sample_package_valid registry_new_def Let_def)
    (simp add: sample_package_def builder_handler_def builder_new_def sample_ops_def)

lemma sample_lookup:
  "registry_lookup sample_registry ''echo_tool'' ''run'' =
     Ok (\<lparr>rt_descriptor = pk_descriptor sample_package, rt_handlers = [(''run'', 7)], rt_config = 0,
       rt_circuit_breaker = breaker_new breaker_config_default,
       rt_concurrency = limiter_new 100 concurrency_config_default\<rparr>, sample_capability, 7)"
  by (simp add: registry_lookup_def sample_tool find_capability_def sample_package_def builder_handler_def
      builder_new_def sample_capability_def)

lemma register_config: "rg_config (snd (register jo mp p reg)) = rg_config reg"
  by (simp add: register_def Let_def split: option.split result.split)

lemma sample_execution: "rc_execution (rg_config sample_registry) = execution_config_default"
  by (simp add: sample_registry_def register_config registry_new_def)

theorem registry_consistent_witness:
  "case get_tool sample_registry ''echo_tool'' of None \<Rightarrow> False
     | Some d \<Rightarrow> tl_name d = ''echo_tool'' \<and> descriptor_validate sample_ops d = None"
  using registry_consistent [of sample_ops 100 sample_registry "''echo_tool''" "''run''"]
  by (simp add: sample_registry_def rr_new rr_register get_tool_def sample_tool [unfolded sample_registry_def])

theorem invocation_transparent_witness:
  "fst (registry_execute sample_ops (\<lambda>h ctx args. HoReturned (Ok (args + h))) (\<lambda>_. []) 0 1 (\<lambda>g. g) (\<lambda>g. g)
     ''echo_tool'' ''run'' 3 \<lparr>xo_timeout_ms = None, xo_workspace_id = None, xo_cancellation_token = None\<rparr> sample_registry)
   = Some (Ok 10)"
  by (rule invocation_transparent [OF sample_lookup, THEN conjunct1])
    (simp_all add: breaker_new_def limiter_new_def limiter_permits_def available_permits_def concurrency_config_default_def
      execution_execute_def validate_input_def sample_ops_def invoke_with_timeout_def execution_context_def
      check_result_size_def Let_def sample_execution execution_config_default_def)

end
