(* ===== verification/Spec2Isabelle.thy ===== *)
theory Spec2Isabelle
  imports
    Wacp_Auth
    Wacp_Dispatch
    Wacp_Handler
    Wacp_Llm_Providers
    Wacp_Orchestrator
    Wacp_Permissions
    Wacp_Recovery
    Wacp_Security
    Wacp_Tools
begin

text \<open>
  Verification of the WACP platform: a runtime that coordinates agents working in isolated
  workspaces. The sources are Rust, under \<open>src/wacp/crates\<close>. A coordinator keeps a tree of workspaces,
  a graph of tasks, port rights, visibility and escalation routes; one actor per workspace runs the
  agent's lifecycle; clocks, gates, budgets, integration and migration serve the coordinator.

  How the model follows the code. A struct is a record with the fields of the source (prefixed by
  the struct), an enum a datatype, \<open>u8\<close> to \<open>u64\<close> are words and \<open>usize\<close> is \<open>nat\<close>. A \<open>HashMap\<close> is the list of its
  entries in iteration order (\<open>hmap\<close>), a \<open>HashSet\<close> a set, identifiers are strings. A method that takes
  \<open>&mut self\<close> returns its result paired with the new state; \<open>Result\<close> is \<open>result\<close>. A loop that need not end
  on every input is a partial function into \<open>option\<close>, and its theorems say that it returns. The physical
  clock and other inputs from outside are arguments. Integer overflow wraps, as in a release build.

  \<^item> \<open>Wacp_Prelude\<close>: words, results, printed numbers, hash maps and their laws, secondary indices
    (\<open>mirrors\<close>), the locale \<open>id_source\<close> of components that hand out numbered ids, and the collection
    \<open>keeps\<close> of preservation lemmas.
  \<^item> \<open>Wacp_Float\<close>: the double precision operations the sources use, with rounding.
  \<^item> \<open>Wacp_Types\<close> (\<open>wacp-types\<close>): enums and structs of the protocol.
  \<^item> \<open>Wacp_Fsm\<close> (\<open>wacp-fsm\<close>): the lifecycles of workspaces, tasks and envelopes, as instances of the locale
    \<open>state_machine\<close>: what a run must have passed, and that ends are final and reachable.
  \<^item> \<open>Wacp_Clock\<close> (\<open>wacp-clock\<close>): the hybrid logical clock; monotonicity, exactly when it is strict, and
    the order-preserving byte encoding.
  \<^item> \<open>Wacp_Tree\<close>, \<open>Wacp_Port_Rights\<close>, \<open>Wacp_Visibility\<close>, \<open>Wacp_Topology\<close> (\<open>tree.rs\<close>, \<open>port_rights.rs\<close>,
    \<open>visibility.rs\<close>, \<open>ownership.rs\<close>, \<open>topology.rs\<close> of \<open>wacp-coordinator\<close>): the four structures, an invariant for
    each and one that joins them, and what creation, termination and the failure cascade do.
  \<^item> \<open>Wacp_Task_Graph\<close> (\<open>task_graph.rs\<close>, \<open>scheduling.rs\<close>): tasks, dependencies and bindings; readiness
    counters are exact, cancellation returns and leaves nothing waiting forever.
  \<^item> \<open>Wacp_Gate\<close> (\<open>gate.rs\<close>): approvals; the first response wins.
  \<^item> \<open>Wacp_Resource\<close> (\<open>resource.rs\<close>): timers, budgets and liveness; the elapsed time is exact and rounding
    hides no warning.
  \<^item> \<open>Wacp_Workspace\<close> (\<open>wacp-workspace\<close>): the workspace state and its actor as a function on input sequences;
    the inbox refines three queues, the reported changes form a legal chain, snapshots restore.
  \<^item> \<open>Wacp_Integration\<close>, \<open>Wacp_Migration\<close>, \<open>Wacp_Dispatch\<close> (\<open>integration.rs\<close>, \<open>migration.rs\<close>, \<open>dispatch.rs\<close>):
    merging and conflict resolution, agent migrations, creation of workspaces for ready tasks.
  \<^item> \<open>Wacp_Orchestrator\<close> (\<open>orchestrator.rs\<close>): the coordinator and the actors it spawns as one transition
    system over channels. The tree follows the actors under every scheduling, completed work is closed,
    and a migration gives the workspace back.
  \<^item> \<open>Wacp_Handler\<close> (\<open>handler.rs\<close>, \<open>events.rs\<close>): the requests of agents and of the human highway; nothing is
    sent without a right, migrating workspaces admit only the named agent, the task view is exact.
  \<^item> \<open>Wacp_Taxonomy\<close> (\<open>wacp-taxonomy\<close>): validation and resolution of role, envelope and checkpoint definitions;
    exactly the valid definitions load, and what loads is well formed.
  \<^item> \<open>Wacp_Permissions\<close> (\<open>wacp-permissions\<close>): the permission engine built from a taxonomy; evaluation is exact, and
    no taxonomy escalates privileges.
  \<^item> \<open>Wacp_Trail\<close>, \<open>Wacp_File_Trail\<close> (\<open>wacp-trail\<close>): the hash chain, which is tamper evident; the storage interfaces as
    the locales \<open>trail_storage\<close> and \<open>checkpoint_storage\<close>, interpreted on the in-memory stores and on the trail on disk;
    framing, reopening, and recovery from a crash at any byte.
  \<^item> \<open>Wacp_Recovery\<close> (\<open>wacp-recovery\<close>): replay of the trail after a restart, proved once for every trail storage inside
    the locale; recovery is exact, snapshots change nothing but the work, and a crash loses only the torn entry.
  \<^item> \<open>Wacp_Resilience\<close>, \<open>Wacp_Tools\<close> (\<open>wacp-tools\<close>): the circuit breaker, which refines a reference that counts the
    failures of the window; the concurrency limiter under every interleaving of its atomic accesses; descriptors, the
    execution engine and the registry that puts the guards around it and stays consistent.
  \<^item> \<open>Wacp_Llm\<close>, \<open>Wacp_Llm_Providers\<close> (\<open>wacp-llm\<close>): the sliding-window rate limiter, which answers as a reference with the
    whole history and never underflows; retry delays; costs; the stream parsers and the providers, and that the stub
    streams what it completes.
  \<^item> \<open>Wacp_Security\<close> (\<open>wacp-security\<close>): secrets, the content filter under its three policies, audit events.
  \<^item> \<open>Wacp_Auth\<close> (\<open>auth.rs\<close>, \<open>auth_api_key.rs\<close>, \<open>auth_session.rs\<close>, \<open>auth_oauth.rs\<close> of \<open>wacp-transport\<close>): authenticators and the
    limiter of failed attempts; a session token is accepted until it expires or is logged out, and rejected afterwards.

  Not modelled, with the reason: channel capacities and the tokio scheduler (every interleaving of the steps is allowed
  instead); serialisation by \<open>serde\<close>; the checkpoint and snapshot files, tiering, compaction and the SQLite index of
  \<open>wacp-trail\<close>; the configuration and wiring of \<open>wacp-runtime\<close>; the gRPC, HTTP and WebSocket services, the SDKs and the
  command line, which are input and output around the components above; the console, whose validation and session
  rules are not modelled yet and whose rest is a web application over a database.
\<close>

end
